(* ===== verification/Go_Base.thy ===== *)
theory Go_Base
  imports Complex_Main "HOL-Library.Word"
begin

text \<open>
  Prelude of the development. It fixes how the agent's Go values are represented and
  collects the lemmas the component theories share:
  \<^item> \<open>'a result\<close> is a Go pair \<open>(value, error)\<close> read as a sum, \<open>Inl\<close> carrying the error text;
  \<^item> an \<open>int64\<close> (a \<open>time.Duration\<close>, a Unix second) is an \<open>int\<close>, with the wrap-around of
    the 64-bit operations written out by \<open>wrap_int64\<close> and the saturation of \<open>time.Time.Sub\<close> by
    \<open>sat_int64\<close>;
  \<^item> a \<open>uint64\<close> counter is a \<open>64 word\<close>;
  \<^item> a Go string is a list of bytes, which is what HOL's \<open>string\<close> is.
\<close>

named_theorems go_num \<open>evaluation of the machine-integer helpers\<close>
named_theorems go_str \<open>rewriting of the string helpers\<close>
named_theorems go_inv \<open>preservation of component invariants\<close>

type_synonym 'a result = "string + 'a"
type_synonym int64 = int
type_synonym uint64 = "64 word"
type_synonym bytes = string

subsection \<open>64-bit integers\<close>

definition min_int64 :: int where "min_int64 = - (2 ^ 63)"
definition max_int64 :: int where "max_int64 = 2 ^ 63 - 1"

definition in_int64 :: "int \<Rightarrow> bool" where
  "in_int64 x \<longleftrightarrow> min_int64 \<le> x \<and> x \<le> max_int64"

definition wrap_int64 :: "int \<Rightarrow> int64" where
  "wrap_int64 x = (x + 2 ^ 63) mod 2 ^ 64 - 2 ^ 63"

definition sat_int64 :: "int \<Rightarrow> int64" where
  "sat_int64 x = max min_int64 (min max_int64 x)"

definition wrap_uint64 :: "int \<Rightarrow> int" where
  "wrap_uint64 x = x mod 2 ^ 64"

lemma int64_limits [go_num]:
  "min_int64 = - 9223372036854775808" "max_int64 = 9223372036854775807"
  by (simp_all add: min_int64_def max_int64_def)

lemma in_int64_iff [go_num]:
  "in_int64 x \<longleftrightarrow> - 9223372036854775808 \<le> x \<and> x \<le> 9223372036854775807"
  by (simp add: in_int64_def int64_limits)

lemma wrap_int64_id [simp]: "in_int64 x \<Longrightarrow> wrap_int64 x = x"
  by (simp add: wrap_int64_def in_int64_iff)

lemma wrap_int64_range: "in_int64 (wrap_int64 x)"
proof -
  have "0 \<le> (x + 2 ^ 63) mod 2 ^ 64" and "(x + 2 ^ 63) mod 2 ^ 64 < 2 ^ 64"
    by simp_all
  then show ?thesis
    unfolding in_int64_def wrap_int64_def min_int64_def max_int64_def by simp
qed

lemma sat_int64_id [simp]: "in_int64 x \<Longrightarrow> sat_int64 x = x"
  by (simp add: sat_int64_def in_int64_def)

lemma sat_int64_range: "in_int64 (sat_int64 x)"
  by (simp add: sat_int64_def in_int64_def int64_limits)

lemma sat_int64_mono: "x \<le> y \<Longrightarrow> sat_int64 x \<le> sat_int64 y"
  unfolding sat_int64_def by (intro max.mono min.mono) simp_all

lemma sat_int64_ge: "d \<le> x \<Longrightarrow> in_int64 d \<Longrightarrow> d \<le> sat_int64 x"
  using sat_int64_mono [of d x] by simp

lemma sat_int64_geD: "d \<le> sat_int64 x \<Longrightarrow> min_int64 < d \<Longrightarrow> d \<le> x"
  by (auto simp: sat_int64_def)

lemma sat_int64_pos_iff: "0 < d \<Longrightarrow> in_int64 d \<Longrightarrow> d \<le> sat_int64 x \<longleftrightarrow> d \<le> x"
  by (auto simp: sat_int64_def in_int64_def int64_limits)

subsection \<open>Lists and maps the components share\<close>

lemma take_while_append_stop:
  "\<forall>x \<in> set xs. P x \<Longrightarrow> \<not> P y \<Longrightarrow> takeWhile P (xs @ y # ys) = xs"
  by (induction xs) auto

lemma drop_while_append_stop:
  "\<forall>x \<in> set xs. P x \<Longrightarrow> \<not> P y \<Longrightarrow> dropWhile P (xs @ y # ys) = y # ys"
  by (induction xs) auto

lemma foldl_invariant:
  "I s \<Longrightarrow> (\<And>s x. x \<in> set xs \<Longrightarrow> I s \<Longrightarrow> I (f s x)) \<Longrightarrow> I (foldl f s xs)"
  by (induction xs arbitrary: s) auto

lemma find_Some_first:
  "find P xs = Some x \<Longrightarrow> x \<in> set xs \<and> P x"
  by (induction xs) (auto split: if_splits)

end
