(* ===== verification/Go_Strings.thy ===== *)
theory Go_Strings
  imports Go_Base "HOL-Library.Sublist"
begin

text \<open>
  The functions of Go's package \<open>strings\<close> (and \<open>bufio.Scanner\<close>) the agent calls, on byte strings.
  White space is the Unicode White\_Space set in its UTF-8 encoding, so \<open>fields\<close> and
  \<open>trim_space\<close> agree with Go on every byte string: the lead bytes C2, E1, E2 and E3 never
  occur inside another encoded rune, so stepping over bytes finds the same white space as
  stepping over runes. \<open>to_lower\<close> lowers ASCII letters and leaves other bytes alone (Go's
  Unicode case tables are not modelled); \<open>quote\<close> writes bytes from 80 up as they are, as Go does
  for printable runes.
\<close>

subsection \<open>Prefixes, suffixes, searching\<close>

definition has_prefix :: "string \<Rightarrow> string \<Rightarrow> bool" where
  "has_prefix s p \<longleftrightarrow> take (length p) s = p"

fun contains :: "string \<Rightarrow> string \<Rightarrow> bool" where
  "contains [] sub = (sub = [])"
| "contains (c # s) sub = (has_prefix (c # s) sub \<or> contains s sub)"

definition trim_prefix :: "string \<Rightarrow> string \<Rightarrow> string" where
  "trim_prefix s p = (if has_prefix s p then drop (length p) s else s)"

definition trim_suffix :: "string \<Rightarrow> string \<Rightarrow> string" where
  "trim_suffix s p = rev (trim_prefix (rev s) (rev p))"

text \<open>\<open>strings.CutPrefix\<close>: \<open>None\<close> is the result with \<open>found\<close> false.\<close>

definition cut_prefix :: "string \<Rightarrow> string \<Rightarrow> string option" where
  "cut_prefix s p = (if has_prefix s p then Some (drop (length p) s) else None)"

text \<open>\<open>strings.TrimRight\<close> with a one-byte cut set.\<close>

definition trim_right_char :: "string \<Rightarrow> char \<Rightarrow> string" where
  "trim_right_char s c = rev (dropWhile (\<lambda>x. x = c) (rev s))"

text \<open>\<open>strings.IndexByte\<close> and \<open>LastIndexByte\<close>; \<open>None\<close> is Go's \<open>-1\<close>.\<close>

fun index_byte :: "string \<Rightarrow> char \<Rightarrow> nat option" where
  "index_byte [] c = None"
| "index_byte (x # xs) c = (if x = c then Some 0 else map_option Suc (index_byte xs c))"

fun last_index_byte :: "string \<Rightarrow> char \<Rightarrow> nat option" where
  "last_index_byte [] c = None"
| "last_index_byte (x # xs) c =
     (case last_index_byte xs c of Some i \<Rightarrow> Some (Suc i)
      | None \<Rightarrow> if x = c then Some 0 else None)"

lemma has_prefix_append [simp, go_str]: "has_prefix (p @ s) p"
  by (simp add: has_prefix_def)

lemma has_prefixE: "has_prefix s p \<Longrightarrow> (\<And>r. s = p @ r \<Longrightarrow> thesis) \<Longrightarrow> thesis"
  unfolding has_prefix_def by (metis append_take_drop_id)

lemma contains_iff: "contains s sub \<longleftrightarrow> (\<exists>a b. s = a @ sub @ b)"
proof (induction s)
  case Nil
  then show ?case by simp
next
  case (Cons c s)
  show ?case
  proof
    assume "contains (c # s) sub"
    then consider "has_prefix (c # s) sub" | "contains s sub" by auto
    then show "\<exists>a b. c # s = a @ sub @ b"
    proof cases
      case 1
      then show ?thesis by (metis append_Nil has_prefixE)
    next
      case 2
      then show ?thesis using Cons.IH by (metis append_Cons)
    qed
  next
    assume "\<exists>a b. c # s = a @ sub @ b"
    then obtain a b where ab: "c # s = a @ sub @ b" by blast
    show "contains (c # s) sub"
    proof (cases a)
      case Nil
      then show ?thesis using ab by (metis append_Nil contains.simps(2) has_prefix_append)
    next
      case (Cons d a')
      then show ?thesis using ab Cons.IH by auto
    qed
  qed
qed

lemma cut_prefix_Some [go_str]: "cut_prefix s p = Some r \<longleftrightarrow> s = p @ r"
  unfolding cut_prefix_def by (auto elim: has_prefixE)

lemma index_byte_Some:
  "index_byte s c = Some i \<Longrightarrow> i < length s \<and> s ! i = c \<and> c \<notin> set (take i s)"
  by (induction s arbitrary: i) (auto split: if_splits)

lemma last_index_byte_None [go_str]: "last_index_byte s c = None \<longleftrightarrow> c \<notin> set s"
  by (induction s) (auto split: option.splits)

lemma last_index_byte_Some:
  "last_index_byte s c = Some i \<Longrightarrow> i < length s \<and> s ! i = c \<and> c \<notin> set (drop (Suc i) s)"
  by (induction s arbitrary: i) (auto simp: go_str split: if_splits option.splits)

lemma last_index_byte_append:
  "c \<notin> set r \<Longrightarrow> last_index_byte (s @ c # r) c = Some (length s)"
proof (induction s)
  case Nil
  then show ?case by (simp add: last_index_byte_None [THEN iffD2])
qed simp

lemma index_byte_append: "c \<notin> set s \<Longrightarrow> index_byte (s @ c # r) c = Some (length s)"
  by (induction s) auto

subsection \<open>Splitting and joining\<close>

fun split_char :: "char \<Rightarrow> string \<Rightarrow> string list" where
  "split_char c [] = [[]]"
| "split_char c (x # xs) =
     (if x = c then [] # split_char c xs
      else (case split_char c xs of [] \<Rightarrow> [[x]] | w # ws \<Rightarrow> (x # w) # ws))"

text \<open>\<open>strings.SplitN(s, sep, n)\<close> for \<open>n \<ge> 1\<close>; the count is \<open>n - 1\<close> cuts.\<close>

fun splitn_char :: "char \<Rightarrow> nat \<Rightarrow> string \<Rightarrow> string list" where
  "splitn_char c 0 s = [s]"
| "splitn_char c (Suc n) s =
     (if c \<in> set s
      then takeWhile (\<lambda>x. x \<noteq> c) s # splitn_char c n (drop 1 (dropWhile (\<lambda>x. x \<noteq> c) s))
      else [s])"

fun join :: "string \<Rightarrow> string list \<Rightarrow> string" where
  "join sep [] = []"
| "join sep [w] = w"
| "join sep (w # v # ws) = w @ sep @ join sep (v # ws)"

lemma split_char_nonempty [simp]: "split_char c s \<noteq> []"
  by (induction s) (auto split: list.splits)

lemma split_char_pieces: "w \<in> set (split_char c s) \<Longrightarrow> c \<notin> set w"
  by (induction s arbitrary: w) (fastforce split: list.splits if_splits)+

lemma join_split_char: "join [c] (split_char c s) = s"
proof (induction s)
  case Nil
  then show ?case by simp
next
  case (Cons x xs)
  obtain w ws where w: "split_char c xs = w # ws"
    by (cases "split_char c xs") auto
  with Cons show ?case by (cases ws) auto
qed

lemma split_char_no_sep: "c \<notin> set s \<Longrightarrow> split_char c s = [s]"
  by (induction s) auto

lemma split_char_append: "c \<notin> set w \<Longrightarrow> split_char c (w @ c # s) = w # split_char c s"
  by (induction w) auto

lemma split_char_join:
  "ws \<noteq> [] \<Longrightarrow> \<forall>w \<in> set ws. c \<notin> set w \<Longrightarrow> split_char c (join [c] ws) = ws"
proof (induction ws rule: induct_list012)
  case (3 w v ws)
  then show ?case by (simp add: split_char_append)
qed (simp_all add: split_char_no_sep)

lemma splitn_char_length: "length (splitn_char c n s) \<le> Suc n"
  by (induction n arbitrary: s) auto

lemma splitn_char_nonempty: "splitn_char c n s \<noteq> []"
  by (cases n) auto

lemma join_splitn_char: "join [c] (splitn_char c n s) = s"
proof (induction n arbitrary: s)
  case 0
  then show ?case by simp
next
  case (Suc n)
  show ?case
  proof (cases "c \<in> set s")
    case True
    let ?r = "drop 1 (dropWhile (\<lambda>x. x \<noteq> c) s)"
    have "dropWhile (\<lambda>x. x \<noteq> c) s \<noteq> []" using True by (auto simp: dropWhile_eq_Nil_conv)
    then have d: "dropWhile (\<lambda>x. x \<noteq> c) s = c # ?r"
      by (metis (mono_tags, lifting) One_nat_def drop0 drop_Suc_Cons hd_dropWhile list.collapse)
    obtain v vs where v: "splitn_char c n ?r = v # vs"
      using splitn_char_nonempty [of c n ?r] by (meson list.exhaust)
    have "join [c] (splitn_char c (Suc n) s) = takeWhile (\<lambda>x. x \<noteq> c) s @ c # ?r"
      using True v Suc.IH [of ?r] by simp
    also have "\<dots> = s" using d by (metis takeWhile_dropWhile_id)
    finally show ?thesis .
  next
    case False
    then show ?thesis by simp
  qed
qed

subsection \<open>White space\<close>

definition ascii_space :: "char \<Rightarrow> bool" where
  "ascii_space c \<longleftrightarrow> c = CHR '' '' \<or> c = CHR 0x09 \<or> c = CHR 0x0A \<or> c = CHR 0x0B
     \<or> c = CHR 0x0C \<or> c = CHR 0x0D"

text \<open>The three-byte encodings of U+1680, U+2000 to U+200A, U+2028, U+2029, U+202F, U+205F, U+3000.\<close>

definition wide_space :: "char \<Rightarrow> char \<Rightarrow> char \<Rightarrow> bool" where
  "wide_space a b d \<longleftrightarrow>
     (a = CHR 0xE1 \<and> b = CHR 0x9A \<and> d = CHR 0x80) \<or>
     (a = CHR 0xE2 \<and> b = CHR 0x80 \<and>
       ((128 \<le> (of_char d :: nat) \<and> (of_char d :: nat) \<le> 138)
        \<or> d = CHR 0xA8 \<or> d = CHR 0xA9 \<or> d = CHR 0xAF)) \<or>
     (a = CHR 0xE2 \<and> b = CHR 0x81 \<and> d = CHR 0x9F) \<or>
     (a = CHR 0xE3 \<and> b = CHR 0x80 \<and> d = CHR 0x80)"

text \<open>Number of bytes of the white-space rune the string begins with, 0 if it begins with none.\<close>

fun space_len :: "string \<Rightarrow> nat" where
  "space_len [] = 0"
| "space_len [a] = (if ascii_space a then 1 else 0)"
| "space_len [a, b] =
     (if ascii_space a then 1
      else if a = CHR 0xC2 \<and> (b = CHR 0x85 \<or> b = CHR 0xA0) then 2 else 0)"
| "space_len (a # b # d # s) =
     (if ascii_space a then 1
      else if a = CHR 0xC2 \<and> (b = CHR 0x85 \<or> b = CHR 0xA0) then 2
      else if wide_space a b d then 3 else 0)"

text \<open>The same at the end of a string, given reversed.\<close>

fun rspace_len :: "string \<Rightarrow> nat" where
  "rspace_len [] = 0"
| "rspace_len [a] = (if ascii_space a then 1 else 0)"
| "rspace_len [b, a] =
     (if ascii_space b then 1
      else if a = CHR 0xC2 \<and> (b = CHR 0x85 \<or> b = CHR 0xA0) then 2 else 0)"
| "rspace_len (d # b # a # s) =
     (if ascii_space d then 1
      else if b = CHR 0xC2 \<and> (d = CHR 0x85 \<or> d = CHR 0xA0) then 2
      else if wide_space a b d then 3 else 0)"

function (sequential) trim_left :: "string \<Rightarrow> string" where
  "trim_left [] = []"
| "trim_left (c # s) =
     (if space_len (c # s) = 0 then c # s else trim_left (drop (space_len (c # s)) (c # s)))"
  by pat_completeness auto
termination by (relation "measure length") auto

function (sequential) trim_rev :: "string \<Rightarrow> string" where
  "trim_rev [] = []"
| "trim_rev (c # s) =
     (if rspace_len (c # s) = 0 then c # s else trim_rev (drop (rspace_len (c # s)) (c # s)))"
  by pat_completeness auto
termination by (relation "measure length") auto

declare trim_left.simps(2) [simp del] trim_rev.simps(2) [simp del]

definition trim_space :: "string \<Rightarrow> string" where
  "trim_space s = rev (trim_rev (rev (trim_left s)))"

function (sequential) fields_from :: "string \<Rightarrow> string \<Rightarrow> string list" where
  "fields_from acc [] = (if acc = [] then [] else [rev acc])"
| "fields_from acc (c # s) =
     (if space_len (c # s) = 0 then fields_from (c # acc) s
      else if acc = [] then fields_from [] (drop (space_len (c # s)) (c # s))
      else rev acc # fields_from [] (drop (space_len (c # s)) (c # s)))"
  by pat_completeness auto
termination by (relation "measure (\<lambda>(acc, s). length s)") auto

declare fields_from.simps(2) [simp del]

text \<open>\<open>strings.Fields\<close>.\<close>

definition fields :: "string \<Rightarrow> string list" where
  "fields s = fields_from [] s"

text \<open>\<open>strings.FieldsFunc\<close> for a separator predicate on single-byte runes.\<close>

fun fields_by_from :: "(char \<Rightarrow> bool) \<Rightarrow> string \<Rightarrow> string \<Rightarrow> string list" where
  "fields_by_from p acc [] = (if acc = [] then [] else [rev acc])"
| "fields_by_from p acc (c # s) =
     (if \<not> p c then fields_by_from p (c # acc) s
      else if acc = [] then fields_by_from p [] s
      else rev acc # fields_by_from p [] s)"

definition fields_by :: "(char \<Rightarrow> bool) \<Rightarrow> string \<Rightarrow> string list" where
  "fields_by p s = fields_by_from p [] s"

lemma fields_by_from_nonempty: "w \<in> set (fields_by_from p acc s) \<Longrightarrow> w \<noteq> []"
  by (induction p acc s rule: fields_by_from.induct) (auto split: if_splits)

lemma fields_by_from_clean:
  "w \<in> set (fields_by_from p acc s) \<Longrightarrow> list_all (\<lambda>c. \<not> p c) acc \<Longrightarrow>
   list_all (\<lambda>c. \<not> p c) w"
proof (induction s arbitrary: acc)
  case Nil
  then show ?case by (simp add: list_all_rev split: if_splits)
next
  case (Cons c s)
  show ?case
  proof (cases "p c")
    case True
    then show ?thesis
      using Cons.prems Cons.IH [of "[]"] by (cases "acc = []") (auto simp: list_all_rev)
  next
    case False
    then show ?thesis using Cons.prems Cons.IH [of "c # acc"] by simp
  qed
qed

lemma fields_by_clean: "w \<in> set (fields_by p s) \<Longrightarrow> list_all (\<lambda>c. \<not> p c) w"
  unfolding fields_by_def by (erule fields_by_from_clean) simp

lemma fields_from_nonempty: "w \<in> set (fields_from acc s) \<Longrightarrow> w \<noteq> []"
proof (induction acc s rule: fields_from.induct)
  case (2 acc c s)
  then show ?case
    unfolding fields_from.simps(2) [of acc c s]
    by (cases "space_len (c # s) = 0"; cases "acc = []") auto
qed (simp split: if_splits)

lemma fields_nonempty: "w \<in> set (fields s) \<Longrightarrow> w \<noteq> []"
  unfolding fields_def by (rule fields_from_nonempty)

text \<open>On ASCII input white space is one byte, and \<open>fields\<close> is the byte-wise split.\<close>

definition is_ascii :: "string \<Rightarrow> bool" where
  "is_ascii s \<longleftrightarrow> (\<forall>c \<in> set s. (of_char c :: nat) < 128)"

lemma is_ascii_simps [simp]:
  "is_ascii []" "is_ascii (c # s) \<longleftrightarrow> (of_char c :: nat) < 128 \<and> is_ascii s"
  "is_ascii (s @ t) \<longleftrightarrow> is_ascii s \<and> is_ascii t"
  by (auto simp: is_ascii_def)

lemma ascii_not_lead:
  assumes "(of_char c :: nat) < 128"
  shows "c \<noteq> CHR 0xC2" "c \<noteq> CHR 0xE1" "c \<noteq> CHR 0xE2" "c \<noteq> CHR 0xE3"
  using assms by (intro notI; simp)+

lemma space_len_ascii:
  assumes "(of_char c :: nat) < 128"
  shows "space_len (c # s) = (if ascii_space c then 1 else 0)"
proof -
  consider "s = []" | b where "s = [b]" | b d t where "s = b # d # t"
    by (cases s; cases "tl s") auto
  then show ?thesis
    by cases (simp_all add: wide_space_def ascii_not_lead [OF assms])
qed

lemma rspace_len_ascii:
  assumes "is_ascii (c # s)"
  shows "rspace_len (c # s) = (if ascii_space c then 1 else 0)"
proof -
  consider "s = []" | b where "s = [b]" | b d t where "s = b # d # t"
    by (cases s; cases "tl s") auto
  then show ?thesis
  proof cases
    case (2 b)
    then have "b \<noteq> CHR 0xC2" using assms ascii_not_lead by simp
    then show ?thesis by (simp add: 2)
  next
    case (3 b d t)
    then have "b \<noteq> CHR 0xC2" "\<not> wide_space d b c"
      using assms ascii_not_lead [of b] ascii_not_lead [of d] by (simp_all add: wide_space_def)
    then show ?thesis by (simp add: 3)
  qed simp
qed

lemma fields_from_ascii:
  "is_ascii s \<Longrightarrow> fields_from acc s = fields_by_from ascii_space acc s"
  by (induction s arbitrary: acc) (auto simp: fields_from.simps(2) space_len_ascii)

lemma fields_ascii: "is_ascii s \<Longrightarrow> fields s = fields_by ascii_space s"
  by (simp add: fields_def fields_by_def fields_from_ascii)

lemma fields_by_from_word:
  "\<forall>c \<in> set w. \<not> p c \<Longrightarrow> fields_by_from p acc (w @ s) = fields_by_from p (rev w @ acc) s"
  by (induction w arbitrary: acc) auto

lemma fields_by_join:
  "\<forall>w \<in> set ws. w \<noteq> [] \<and> (\<forall>c \<in> set w. \<not> p c) \<Longrightarrow> p sep \<Longrightarrow>
   fields_by p (join [sep] ws) = ws"
proof (induction ws rule: induct_list012)
  case (2 w)
  then show ?case
    using fields_by_from_word [of w p "[]" "[]"] by (simp add: fields_by_def)
next
  case (3 w v ws)
  then show ?case
    using fields_by_from_word [of w p "[]" "sep # join [sep] (v # ws)"]
    by (simp add: fields_by_def)
qed (simp add: fields_by_def)

lemma trim_left_no_space:
  "s = [] \<or> space_len s = 0 \<Longrightarrow> trim_left s = s"
  by (cases s) (auto simp: trim_left.simps(2))

lemma trim_rev_no_space:
  "s = [] \<or> rspace_len s = 0 \<Longrightarrow> trim_rev s = s"
  by (cases s) (auto simp: trim_rev.simps(2))

lemma trim_space_id:
  assumes "is_ascii s" "s = [] \<or> \<not> ascii_space (hd s) \<and> \<not> ascii_space (last s)"
  shows "trim_space s = s"
proof (cases "s = []")
  case True
  then show ?thesis by (simp add: trim_space_def)
next
  case False
  then obtain c t where s: "s = c # t" by (meson list.exhaust)
  obtain d u where r: "rev s = d # u" using False by (metis list.exhaust rev_is_Nil_conv)
  have "trim_left s = s"
    using assms False by (simp add: trim_left_no_space space_len_ascii s)
  moreover have "is_ascii (d # u)" using assms(1) r by (metis is_ascii_def set_rev)
  moreover have "\<not> ascii_space d" using assms False r by (metis hd_rev list.sel(1))
  ultimately show ?thesis
    unfolding trim_space_def
    by (metis r rev_rev_ident rspace_len_ascii trim_rev_no_space)
qed

subsection \<open>Letter case\<close>

definition lower_char :: "char \<Rightarrow> char" where
  "lower_char c = (let n = (of_char c :: nat) in if 65 \<le> n \<and> n \<le> 90 then char_of (n + 32) else c)"

definition to_lower :: "string \<Rightarrow> string" where
  "to_lower s = map lower_char s"

text \<open>
  Go's simple case folding against an ASCII name: ASCII letters fold to lower case, and the
  long s (U+017F) and the Kelvin sign (U+212A) fold to \<open>s\<close> and \<open>k\<close>.
\<close>

fun fold_name :: "string \<Rightarrow> string" where
  "fold_name [] = []"
| "fold_name [a] = [lower_char a]"
| "fold_name [a, b] =
     (if a = CHR 0xC5 \<and> b = CHR 0xBF then ''s'' else [lower_char a, lower_char b])"
| "fold_name (a # b # d # s) =
     (if a = CHR 0xC5 \<and> b = CHR 0xBF then CHR ''s'' # fold_name (d # s)
      else if a = CHR 0xE2 \<and> b = CHR 0x84 \<and> d = CHR 0xAA then CHR ''k'' # fold_name s
      else lower_char a # fold_name (b # d # s))"

definition equal_fold :: "string \<Rightarrow> string \<Rightarrow> bool" where
  "equal_fold s t \<longleftrightarrow> fold_name s = fold_name t"

lemma lower_char_idem [simp]: "lower_char (lower_char c) = lower_char c"
  by (auto simp: lower_char_def Let_def of_char_of take_bit_nat_def)

lemma to_lower_idem [simp]: "to_lower (to_lower s) = to_lower s"
  by (simp add: to_lower_def)

subsection \<open>Lines of a \<open>bufio.Scanner\<close>\<close>

text \<open>
  \<open>bufio.ScanLines\<close> drops one trailing carriage return, does not report an empty last line, and
  the scanner stops at the first line its 64 KiB buffer cannot hold.
\<close>

definition drop_cr :: "string \<Rightarrow> string" where
  "drop_cr s = (if s \<noteq> [] \<and> last s = CHR 0x0D then butlast s else s)"

definition scan_lines :: "string \<Rightarrow> string list" where
  "scan_lines s =
     (let ls = split_char (CHR 0x0A) s;
          ls' = (if last ls = [] then butlast ls else ls)
      in map drop_cr (takeWhile (\<lambda>l. length l < 65536) ls'))"

lemma scan_lines_no_newline: "l \<in> set (scan_lines s) \<Longrightarrow> CHR 0x0A \<notin> set l"
proof -
  assume "l \<in> set (scan_lines s)"
  then obtain l' where l': "l' \<in> set (split_char (CHR 0x0A) s)" "l = drop_cr l'"
    by (auto simp: scan_lines_def Let_def dest!: set_takeWhileD in_set_butlastD split: if_splits)
  then show ?thesis
    using split_char_pieces [OF l'(1)] by (auto simp: drop_cr_def dest: in_set_butlastD)
qed

subsection \<open>Quoting (\<open>%q\<close>)\<close>

definition hex_digit :: "nat \<Rightarrow> char" where
  "hex_digit n = (if n < 10 then char_of (48 + n) else char_of (87 + n))"

definition quote_char :: "char \<Rightarrow> string" where
  "quote_char c =
     (if c = CHR 0x22 then [CHR 0x5C, CHR 0x22]
      else if c = CHR 0x5C then [CHR 0x5C, CHR 0x5C]
      else if c = CHR 0x07 then [CHR 0x5C, CHR ''a'']
      else if c = CHR 0x08 then [CHR 0x5C, CHR ''b'']
      else if c = CHR 0x0C then [CHR 0x5C, CHR ''f'']
      else if c = CHR 0x0A then [CHR 0x5C, CHR ''n'']
      else if c = CHR 0x0D then [CHR 0x5C, CHR ''r'']
      else if c = CHR 0x09 then [CHR 0x5C, CHR ''t'']
      else if c = CHR 0x0B then [CHR 0x5C, CHR ''v'']
      else if (of_char c :: nat) < 32 \<or> c = CHR 0x7F
      then [CHR 0x5C, CHR ''x'', hex_digit (of_char c div 16), hex_digit (of_char c mod 16)]
      else [c])"

definition quote :: "string \<Rightarrow> string" where
  "quote s = CHR 0x22 # concat (map quote_char s) @ [CHR 0x22]"

end
