(* ===== verification/Go_Strconv.thy ===== *)
theory Go_Strconv
  imports Go_Strings
begin

text \<open>
  The conversions of Go's package \<open>strconv\<close> the agent calls: \<open>ParseUint\<close> and \<open>ParseInt\<close>/\<open>Atoi\<close>
  in base 10 at 64 bits, with their two error kinds, and decimal printing. Printing followed by
  parsing gives the number back. Numbers are \<open>int\<close>s with the 64-bit limits tested as Go tests them.
\<close>

datatype num_error = ErrSyntax | ErrRange

definition is_digit :: "char \<Rightarrow> bool" where
  "is_digit c \<longleftrightarrow> 48 \<le> (of_char c :: int) \<and> (of_char c :: int) \<le> 57"

definition digit_val :: "char \<Rightarrow> int" where
  "digit_val c = of_char c - 48"

definition digit_char :: "int \<Rightarrow> char" where
  "digit_char d = char_of (48 + d)"

fun parse_uint_loop :: "int \<Rightarrow> string \<Rightarrow> num_error + int" where
  "parse_uint_loop acc [] = Inr acc"
| "parse_uint_loop acc (c # cs) =
     (if \<not> is_digit c then Inl ErrSyntax
      else if 18446744073709551616 \<le> acc * 10 + digit_val c then Inl ErrRange
      else parse_uint_loop (acc * 10 + digit_val c) cs)"

text \<open>\<open>strconv.ParseUint(s, 10, 64)\<close>.\<close>

definition parse_uint :: "string \<Rightarrow> num_error + int" where
  "parse_uint s = (if s = [] then Inl ErrSyntax else parse_uint_loop 0 s)"

text \<open>\<open>strconv.ParseInt(s, 10, 64)\<close>, which is also \<open>strconv.Atoi\<close> on a 64-bit platform.\<close>

definition parse_int :: "string \<Rightarrow> num_error + int64" where
  "parse_int s =
     (let neg = (s \<noteq> [] \<and> hd s = CHR ''-'');
          t = (if s \<noteq> [] \<and> (hd s = CHR ''-'' \<or> hd s = CHR ''+'') then tl s else s)
      in case parse_uint t of
           Inl e \<Rightarrow> Inl e
         | Inr n \<Rightarrow>
             if \<not> neg \<and> 9223372036854775808 \<le> n then Inl ErrRange
             else if neg \<and> 9223372036854775808 < n then Inl ErrRange
             else Inr (if neg then - n else n))"

text \<open>Decimal digits of a non-negative number, and \<open>strconv.Itoa\<close> (\<open>%d\<close>).\<close>

function uint_digits :: "int \<Rightarrow> string" where
  "uint_digits n =
     (if n < 10 then [digit_char n] else uint_digits (n div 10) @ [digit_char (n mod 10)])"
  by pat_completeness auto
termination by (relation "measure nat") auto

declare uint_digits.simps [simp del]

definition itoa :: "int \<Rightarrow> string" where
  "itoa i = (if i < 0 then CHR ''-'' # uint_digits (- i) else uint_digits i)"

subsection \<open>Digits\<close>

lemma of_digit_char: "0 \<le> d \<Longrightarrow> d < 10 \<Longrightarrow> (of_char (digit_char d) :: int) = 48 + d"
  by (simp add: digit_char_def of_char_of take_bit_int_def)

lemma is_digit_digit_char [simp]: "0 \<le> d \<Longrightarrow> d < 10 \<Longrightarrow> is_digit (digit_char d)"
  by (simp add: is_digit_def of_digit_char)

lemma digit_val_digit_char [simp]: "0 \<le> d \<Longrightarrow> d < 10 \<Longrightarrow> digit_val (digit_char d) = d"
  by (simp add: digit_val_def of_digit_char)

lemma digit_val_bounds: "is_digit c \<Longrightarrow> 0 \<le> digit_val c \<and> digit_val c < 10"
  unfolding is_digit_def digit_val_def by arith

lemma uint_digits_nonempty [simp]: "uint_digits n \<noteq> []"
  by (subst uint_digits.simps) simp

lemma uint_digits_digits: "0 \<le> n \<Longrightarrow> c \<in> set (uint_digits n) \<Longrightarrow> is_digit c"
proof (induction n rule: uint_digits.induct)
  case (1 n)
  then show ?case by (subst (asm) (2) uint_digits.simps) (auto split: if_splits)
qed

lemma is_digit_not_space: "is_digit c \<Longrightarrow> \<not> ascii_space c"
  by (auto simp: is_digit_def ascii_space_def)

text \<open>The value of a digit string, and the parser's accumulator.\<close>

definition digits_val :: "int \<Rightarrow> string \<Rightarrow> int" where
  "digits_val acc s = foldl (\<lambda>a c. a * 10 + digit_val c) acc s"

lemma digits_val_simps [simp]:
  "digits_val acc [] = acc"
  "digits_val acc (c # s) = digits_val (acc * 10 + digit_val c) s"
  "digits_val acc (s @ t) = digits_val (digits_val acc s) t"
  by (simp_all add: digits_val_def)

lemma digits_val_ge: "list_all is_digit s \<Longrightarrow> 0 \<le> acc \<Longrightarrow> acc \<le> digits_val acc s"
proof (induction s arbitrary: acc)
  case (Cons c s)
  then have "0 \<le> digit_val c" using digit_val_bounds by simp
  with Cons.prems have "acc \<le> acc * 10 + digit_val c" by simp
  also have "\<dots> \<le> digits_val (acc * 10 + digit_val c) s"
    using Cons \<open>0 \<le> digit_val c\<close> by simp
  finally show ?case by simp
qed simp

lemma digits_val_uint_digits: "0 \<le> n \<Longrightarrow> digits_val 0 (uint_digits n) = n"
proof (induction n rule: uint_digits.induct)
  case (1 n)
  then show ?case by (subst uint_digits.simps) auto
qed

lemma parse_uint_loop_digits:
  "list_all is_digit s \<Longrightarrow> 0 \<le> acc \<Longrightarrow> digits_val acc s < 2 ^ 64 \<Longrightarrow>
   parse_uint_loop acc s = Inr (digits_val acc s)"
proof (induction s arbitrary: acc)
  case (Cons c s)
  then have d: "0 \<le> digit_val c" using digit_val_bounds by simp
  have "acc * 10 + digit_val c < 2 ^ 64"
    using Cons.prems d digits_val_ge [of s "acc * 10 + digit_val c"] by simp
  with Cons d show ?case by simp
qed simp

lemma parse_uint_loop_range:
  "parse_uint_loop acc s = Inr n \<Longrightarrow> 0 \<le> acc \<Longrightarrow> acc < 2 ^ 64 \<Longrightarrow>
   0 \<le> n \<and> n < 2 ^ 64 \<and> n = digits_val acc s \<and> list_all is_digit s"
proof (induction s arbitrary: acc)
  case (Cons c s)
  then have "is_digit c" by (auto split: if_splits)
  with Cons digit_val_bounds [of c] show ?case by (auto split: if_splits)
qed simp

lemma parse_uint_Inr:
  "parse_uint s = Inr n \<Longrightarrow>
   0 \<le> n \<and> n < 2 ^ 64 \<and> n = digits_val 0 s \<and> s \<noteq> [] \<and> list_all is_digit s"
  by (auto simp: parse_uint_def dest!: parse_uint_loop_range split: if_splits)

lemma uint_digits_all: "0 \<le> n \<Longrightarrow> list_all is_digit (uint_digits n)"
  by (simp add: list_all_iff uint_digits_digits)

lemma parse_uint_uint_digits:
  "0 \<le> n \<Longrightarrow> n < 2 ^ 64 \<Longrightarrow> parse_uint (uint_digits n) = Inr n"
  by (simp add: parse_uint_def parse_uint_loop_digits uint_digits_all digits_val_uint_digits)

lemma uint_digits_hd:
  assumes "0 \<le> n"
  shows "hd (uint_digits n) \<noteq> CHR ''-''" "hd (uint_digits n) \<noteq> CHR ''+''"
proof -
  have "is_digit (hd (uint_digits n))" using assms by (simp add: uint_digits_digits [of n])
  then show "hd (uint_digits n) \<noteq> CHR ''-''" "hd (uint_digits n) \<noteq> CHR ''+''"
    by (auto simp: is_digit_def)
qed

lemma parse_int_itoa: "in_int64 i \<Longrightarrow> parse_int (itoa i) = Inr i"
  by (auto simp: parse_int_def itoa_def Let_def uint_digits_hd parse_uint_uint_digits go_num)

lemma parse_int_range: "parse_int s = Inr i \<Longrightarrow> in_int64 i"
  by (auto simp: parse_int_def Let_def go_num dest!: parse_uint_Inr split: sum.splits if_splits)

end
