(* ===== verification/Go_Float.thy ===== *)
theory Go_Float
  imports Go_Strconv
begin

text \<open>
  Go's \<open>float64\<close>: IEEE-754 binary64 with the rounding written out. A finite value is the exact
  rational it denotes; every operation rounds its exact result to nearest, ties to even, with
  gradual underflow and overflow to infinity. Infinities and NaN are values. The two zeros are
  one value (the agent never divides by a negative zero nor prints one). The lemmas show that
  rounding is monotone and is the identity on the 53-bit integers.
\<close>

datatype float64 = Fin rat | PInf | NInf | NaN

subsection \<open>Rounding\<close>

definition round_half_even :: "rat \<Rightarrow> int" where
  "round_half_even x =
     (let f = \<lfloor>x\<rfloor>; r = x - of_int f
      in if r < 1 / 2 then f else if 1 / 2 < r then f + 1
         else if even f then f else f + 1)"

function log2_int :: "int \<Rightarrow> int" where
  "log2_int n = (if n < 2 then 0 else 1 + log2_int (n div 2))"
  by pat_completeness auto
termination by (relation "measure nat") auto

declare log2_int.simps [simp del]

text \<open>The binary exponent of a positive rational: the floor of its base-2 logarithm.\<close>

definition ilog2 :: "rat \<Rightarrow> int" where
  "ilog2 x =
     (if 1 \<le> x then log2_int \<lfloor>x\<rfloor>
      else (let n = \<lceil>1 / x\<rceil> in - (if n \<le> 1 then 0 else 1 + log2_int (n - 1))))"

text \<open>\<open>max_finite\<close> is \<open>(2 ^ 53 - 1) * 2 ^ 971\<close> (lemma \<open>max_finite_eq\<close>).\<close>

text \<open>The unit in the last place of the binade, never below the subnormal spacing.\<close>

definition ulp :: "rat \<Rightarrow> rat" where
  "ulp x = 2 powi (max (ilog2 x - 52) (- 1074))"

definition round_pos :: "rat \<Rightarrow> rat" where
  "round_pos x = of_int (round_half_even (x / ulp x)) * ulp x"

definition round_rat :: "rat \<Rightarrow> rat" where
  "round_rat x = (if x = 0 then 0 else if 0 < x then round_pos x else - round_pos (- x))"

definition max_finite :: rat where
  "max_finite = 179769313486231570814527423731704356798070567525844996598917476803157260780028538760589558632766878171540458953514382464234321326889464182768467546703537516986049910576551282076245490090389328944075868508455133942304583236903222948165808559332123348274797826204144723168738177180919299881250404026184124858368"

definition f64 :: "rat \<Rightarrow> float64" where
  "f64 x = (let r = round_rat x in
     if max_finite < r then PInf else if r < - max_finite then NInf else Fin r)"

subsection \<open>Operations\<close>

definition f_of_int :: "int \<Rightarrow> float64" where
  "f_of_int i = f64 (of_int i)"

fun f_neg :: "float64 \<Rightarrow> float64" where
  "f_neg (Fin a) = Fin (- a)"
| "f_neg PInf = NInf"
| "f_neg NInf = PInf"
| "f_neg NaN = NaN"

fun f_add :: "float64 \<Rightarrow> float64 \<Rightarrow> float64" where
  "f_add NaN _ = NaN"
| "f_add _ NaN = NaN"
| "f_add (Fin a) (Fin b) = f64 (a + b)"
| "f_add (Fin a) y = y"
| "f_add x (Fin b) = x"
| "f_add PInf PInf = PInf"
| "f_add NInf NInf = NInf"
| "f_add _ _ = NaN"

definition f_sub :: "float64 \<Rightarrow> float64 \<Rightarrow> float64" where
  "f_sub x y = f_add x (f_neg y)"

definition f_inf :: "bool \<Rightarrow> float64" where
  "f_inf pos = (if pos then PInf else NInf)"

fun f_mul :: "float64 \<Rightarrow> float64 \<Rightarrow> float64" where
  "f_mul NaN _ = NaN"
| "f_mul _ NaN = NaN"
| "f_mul (Fin a) (Fin b) = f64 (a * b)"
| "f_mul (Fin a) PInf = (if a = 0 then NaN else f_inf (0 < a))"
| "f_mul (Fin a) NInf = (if a = 0 then NaN else f_inf (a < 0))"
| "f_mul PInf (Fin b) = (if b = 0 then NaN else f_inf (0 < b))"
| "f_mul NInf (Fin b) = (if b = 0 then NaN else f_inf (b < 0))"
| "f_mul PInf PInf = PInf"
| "f_mul NInf NInf = PInf"
| "f_mul PInf NInf = NInf"
| "f_mul NInf PInf = NInf"

fun f_div :: "float64 \<Rightarrow> float64 \<Rightarrow> float64" where
  "f_div NaN _ = NaN"
| "f_div _ NaN = NaN"
| "f_div (Fin a) (Fin b) =
     (if b = 0 then (if a = 0 then NaN else f_inf (0 < a)) else f64 (a / b))"
| "f_div (Fin a) _ = Fin 0"
| "f_div PInf (Fin b) = f_inf (0 \<le> b)"
| "f_div NInf (Fin b) = f_inf (b < 0)"
| "f_div _ _ = NaN"

text \<open>The comparisons; each is false when an operand is NaN.\<close>

fun f_lt :: "float64 \<Rightarrow> float64 \<Rightarrow> bool" where
  "f_lt NaN _ = False"
| "f_lt _ NaN = False"
| "f_lt (Fin a) (Fin b) = (a < b)"
| "f_lt NInf y = (y \<noteq> NInf)"
| "f_lt x NInf = False"
| "f_lt PInf y = False"
| "f_lt x PInf = True"

definition f_gt :: "float64 \<Rightarrow> float64 \<Rightarrow> bool" where
  "f_gt x y = f_lt y x"

definition f_eq :: "float64 \<Rightarrow> float64 \<Rightarrow> bool" where
  "f_eq x y \<longleftrightarrow> x \<noteq> NaN \<and> x = y"

definition f_le :: "float64 \<Rightarrow> float64 \<Rightarrow> bool" where
  "f_le x y \<longleftrightarrow> f_lt x y \<or> f_eq x y"

text \<open>\<open>math.Round\<close>: to the nearest integer, halves away from zero.\<close>

fun math_round :: "float64 \<Rightarrow> float64" where
  "math_round (Fin x) =
     Fin (of_int (if 0 \<le> x then \<lfloor>x + 1 / 2\<rfloor> else \<lceil>x - 1 / 2\<rceil>))"
| "math_round y = y"

text \<open>
  Conversion to \<open>int64\<close> truncates towards zero. Out of range (and for NaN and the infinities) Go
  leaves the value to the implementation; this is the amd64 one.
\<close>

fun f_to_int64 :: "float64 \<Rightarrow> int64" where
  "f_to_int64 (Fin x) =
     (let t = (if 0 \<le> x then \<lfloor>x\<rfloor> else \<lceil>x\<rceil>) in if in_int64 t then t else min_int64)"
| "f_to_int64 _ = min_int64"

subsection \<open>Text\<close>

text \<open>\<open>fmt\<close>'s \<open>%.1f\<close>: the exact value rounded half-even to one decimal.\<close>

fun fmt_1f :: "float64 \<Rightarrow> string" where
  "fmt_1f (Fin x) =
     (let t = round_half_even (\<bar>x\<bar> * 10);
          s = uint_digits (t div 10) @ [CHR ''.'', digit_char (t mod 10)]
      in if x < 0 then CHR ''-'' # s else s)"
| "fmt_1f PInf = ''+Inf''"
| "fmt_1f NInf = ''-Inf''"
| "fmt_1f NaN = ''NaN''"

text \<open>
  \<open>strconv.ParseFloat(s, 64)\<close> on decimal and special-value syntax (hexadecimal floats are not
  modelled: they are a syntax error here). \<open>mant\<close> collects digits, \<open>places\<close> counts those after the
  point.
\<close>

fun scan_mantissa :: "int \<Rightarrow> int \<Rightarrow> bool \<Rightarrow> bool \<Rightarrow> string \<Rightarrow> int \<times> int \<times> bool \<times> string" where
  "scan_mantissa mant places dot dig [] = (mant, places, dig, [])"
| "scan_mantissa mant places dot dig (c # cs) =
     (if c = CHR ''.'' \<and> \<not> dot then scan_mantissa mant places True dig cs
      else if is_digit c
      then scan_mantissa (mant * 10 + digit_val c) (if dot then places + 1 else places) dot True cs
      else (mant, places, dig, c # cs))"

definition strip_sign :: "string \<Rightarrow> bool \<times> string" where
  "strip_sign s = (case s of [] \<Rightarrow> (False, [])
     | c # cs \<Rightarrow> if c = CHR ''-'' then (True, cs) else if c = CHR ''+'' then (False, cs) else (False, s))"

definition parse_exponent :: "string \<Rightarrow> int option" where
  "parse_exponent s =
     (case s of [] \<Rightarrow> Some 0
      | c # cs \<Rightarrow>
          if c = CHR ''e'' \<or> c = CHR ''E'' then
            (let (neg, ds) = strip_sign cs
             in if ds \<noteq> [] \<and> list_all is_digit ds
                then Some (let e = min 100000 (digits_val 0 ds) in if neg then - e else e)
                else None)
          else None)"

definition parse_float :: "string \<Rightarrow> num_error + float64" where
  "parse_float s =
     (let (neg, t) = strip_sign s; l = to_lower t
      in if l = ''inf'' \<or> l = ''infinity'' then Inr (f_inf (\<not> neg))
         else if to_lower s = ''nan'' then Inr NaN
         else (let (mant, places, dig, rest) = scan_mantissa 0 0 False False t
               in if \<not> dig then Inl ErrSyntax
                  else (case parse_exponent rest of
                          None \<Rightarrow> Inl ErrSyntax
                        | Some e \<Rightarrow>
                            (let v = of_int mant * 10 powi (e - places);
                                 r = f64 (if neg then - v else v)
                             in case r of Fin _ \<Rightarrow> Inr r | _ \<Rightarrow> Inl ErrRange))))"

subsection \<open>Lemmas on rounding\<close>

lemma round_half_even_int [simp]: "round_half_even (of_int i) = i"
  by (simp add: round_half_even_def)

lemma round_half_even_cases: "round_half_even x = \<lfloor>x\<rfloor> \<or> round_half_even x = \<lfloor>x\<rfloor> + 1"
  by (simp add: round_half_even_def Let_def)

lemma round_half_even_mono:
  assumes "x \<le> y"
  shows "round_half_even x \<le> round_half_even y"
proof (cases "\<lfloor>x\<rfloor> = \<lfloor>y\<rfloor>")
  case True
  then show ?thesis using assms unfolding round_half_even_def Let_def by auto
next
  case False
  with assms have "\<lfloor>x\<rfloor> + 1 \<le> \<lfloor>y\<rfloor>" using floor_mono [of x y] by simp
  then show ?thesis using round_half_even_cases [of x] round_half_even_cases [of y] by linarith
qed

lemma log2_int_spec: "1 \<le> n \<Longrightarrow> 2 powi (log2_int n) \<le> (of_int n :: rat) \<and>
   (of_int n :: rat) < 2 powi (log2_int n + 1) \<and> 0 \<le> log2_int n"
proof (induction n rule: log2_int.induct)
  case (1 n)
  show ?case
  proof (cases "n < 2")
    case True
    with 1 have "n = 1" by simp
    then show ?thesis by (simp add: log2_int.simps)
  next
    case False
    let ?k = "log2_int (n div 2)"
    have IH: "2 powi ?k \<le> (of_int (n div 2) :: rat)"
      "(of_int (n div 2) :: rat) < 2 powi (?k + 1)" "0 \<le> ?k"
      using 1 False by simp_all
    have e: "log2_int n = 1 + ?k" using False by (subst log2_int.simps) simp
    have p: "(2 :: rat) powi (1 + ?k) = 2 * 2 powi ?k" by (simp add: power_int_add)
    have "2 * (n div 2) \<le> n" "n \<le> 2 * (n div 2) + 1" by presburger+
    then have "(of_int (2 * (n div 2)) :: rat) \<le> of_int n"
      "(of_int n :: rat) \<le> of_int (2 * (n div 2) + 1)"
      by (simp_all only: of_int_le_iff)
    then have b: "2 * of_int (n div 2) \<le> (of_int n :: rat)"
      "(of_int n :: rat) \<le> 2 * of_int (n div 2) + 1" by simp_all
    have i: "(of_int (n div 2) :: rat) + 1 \<le> 2 powi (?k + 1)"
    proof -
      have "(2 :: rat) powi (?k + 1) = of_int (2 ^ nat (?k + 1))"
        using IH(3) by (simp add: power_int_def)
      with IH(2) have "n div 2 < 2 ^ nat (?k + 1)" by (simp only: of_int_less_iff)
      then have "(of_int (n div 2 + 1) :: rat) \<le> of_int (2 ^ nat (?k + 1))"
        by (simp only: of_int_le_iff)
      then show ?thesis using \<open>(2 :: rat) powi (?k + 1) = of_int (2 ^ nat (?k + 1))\<close> by simp
    qed
    have q: "(2 :: rat) powi (1 + ?k + 1) = 2 * 2 powi (?k + 1)"
      by (simp add: power_int_add)
    have "(of_int n :: rat) < 2 * (of_int (n div 2) + 1)" using b by simp
    also have "\<dots> \<le> 2 * 2 powi (?k + 1)" using i by simp
    finally show ?thesis using IH b p q e by simp
  qed
qed

lemma powi2_recip:
  fixes x :: rat
  assumes "0 < x"
  shows "1 / x \<le> 2 powi j \<Longrightarrow> 2 powi (- j) \<le> x" "2 powi j < 1 / x \<Longrightarrow> x < 2 powi (- j)"
  using assms by (simp_all add: power_int_minus field_simps)

lemma ilog2_spec:
  assumes "0 < x"
  shows "2 powi (ilog2 x) \<le> x \<and> x < 2 powi (ilog2 x + 1)"
proof (cases "1 \<le> x")
  case True
  then have k: "2 powi (log2_int \<lfloor>x\<rfloor>) \<le> (of_int \<lfloor>x\<rfloor> :: rat)"
    "(of_int \<lfloor>x\<rfloor> :: rat) < 2 powi (log2_int \<lfloor>x\<rfloor> + 1)" "0 \<le> log2_int \<lfloor>x\<rfloor>"
    using log2_int_spec [of "\<lfloor>x\<rfloor>"] by simp_all
  have "(2 :: rat) powi (log2_int \<lfloor>x\<rfloor> + 1) = of_int (2 ^ nat (log2_int \<lfloor>x\<rfloor> + 1))"
    using k(3) by (simp add: power_int_def)
  then have "x < 2 powi (log2_int \<lfloor>x\<rfloor> + 1)"
    using k(2) by (metis floor_less_iff of_int_less_iff)
  moreover have "2 powi (log2_int \<lfloor>x\<rfloor>) \<le> x" using k(1) by linarith
  ultimately show ?thesis using True by (simp add: ilog2_def)
next
  case False
  let ?n = "\<lceil>1 / x\<rceil>" and ?k = "log2_int (\<lceil>1 / x\<rceil> - 1)"
  have "1 < 1 / x" using assms False by simp
  then have n: "2 \<le> ?n" by linarith
  then have k: "2 powi ?k \<le> (of_int (?n - 1) :: rat)" "(of_int (?n - 1) :: rat) < 2 powi (?k + 1)"
    "0 \<le> ?k"
    using log2_int_spec [of "?n - 1"] by simp_all
  have p: "(2 :: rat) powi (?k + 1) = of_int (2 ^ nat (?k + 1))"
    using k(3) by (simp add: power_int_def)
  then have "?n - 1 < 2 ^ nat (?k + 1)" using k(2) by (simp only: of_int_less_iff)
  then have "(of_int ?n :: rat) \<le> of_int (2 ^ nat (?k + 1))" by (simp only: of_int_le_iff)
  then have "(of_int ?n :: rat) \<le> 2 powi (?k + 1)" by (simp only: p)
  then have "1 / x \<le> 2 powi (?k + 1)" by linarith
  then have lo: "2 powi (- (?k + 1)) \<le> x" by (rule powi2_recip(1) [OF assms])
  have "2 powi ?k < 1 / x" using k(1) by linarith
  then have hi: "x < 2 powi (- ?k)" by (rule powi2_recip(2) [OF assms])
  have "ilog2 x = - (?k + 1)" using False n by (simp add: ilog2_def Let_def)
  then show ?thesis using lo hi by simp
qed

lemma powi2_le_iff: "(2 :: rat) powi a \<le> 2 powi b \<longleftrightarrow> a \<le> b"
  by (metis linorder_not_less one_less_numeral_iff power_int_increasing
      power_int_strict_increasing semiring_norm(76) order_less_imp_le)

lemma powi2_less_iff: "(2 :: rat) powi a < 2 powi b \<longleftrightarrow> a < b"
  using powi2_le_iff [of b a] by (simp add: not_le [symmetric])

lemma ilog2_mono: "0 < x \<Longrightarrow> x \<le> y \<Longrightarrow> ilog2 x \<le> ilog2 y"
proof -
  assume "0 < x" "x \<le> y"
  then have "2 powi (ilog2 x) < (2 :: rat) powi (ilog2 y + 1)"
    using ilog2_spec [of x] ilog2_spec [of y] by linarith
  then show ?thesis by (simp add: powi2_less_iff)
qed

lemma ulp_pos [simp]: "0 < ulp x"
  by (simp add: ulp_def)

lemma powi2_multiple:
  assumes "0 \<le> k"
  shows "\<exists>m. (2 :: rat) powi (e + k) = of_int m * 2 powi e"
proof
  have "(2 :: rat) powi k = of_int (2 ^ nat k)" using assms by (simp add: power_int_def)
  then show "(2 :: rat) powi (e + k) = of_int (2 ^ nat k) * 2 powi e"
    by (simp add: power_int_add)
qed

lemma round_pos_le:
  assumes "x \<le> of_int m * ulp x"
  shows "round_pos x \<le> of_int m * ulp x"
proof -
  have "x / ulp x \<le> of_int m" using assms by (simp add: field_simps)
  then have "round_half_even (x / ulp x) \<le> m"
    using round_half_even_mono [of "x / ulp x" "of_int m"] by simp
  then show ?thesis by (simp add: round_pos_def)
qed

lemma round_pos_ge:
  assumes "of_int m * ulp x \<le> x"
  shows "of_int m * ulp x \<le> round_pos x"
proof -
  have "of_int m \<le> x / ulp x" using assms by (simp add: field_simps)
  then have "m \<le> round_half_even (x / ulp x)"
    using round_half_even_mono [of "of_int m" "x / ulp x"] by simp
  then show ?thesis by (simp add: round_pos_def)
qed

lemma round_pos_nonneg: "0 < x \<Longrightarrow> 0 \<le> round_pos x"
  using round_pos_ge [of 0 x] by simp

lemma round_pos_exact: "x = of_int m * ulp x \<Longrightarrow> round_pos x = x"
  by (metis order_antisym order_refl round_pos_ge round_pos_le)

lemma round_pos_mono:
  assumes "0 < x" "x \<le> y"
  shows "round_pos x \<le> round_pos y"
proof (cases "ulp x = ulp y")
  case True
  then have "x / ulp x \<le> y / ulp y" using assms(2) divide_right_mono [of x y "ulp y"] ulp_pos [of y] by simp
  then have "round_half_even (x / ulp x) \<le> round_half_even (y / ulp y)"
    by (rule round_half_even_mono)
  then show ?thesis using True by (simp add: round_pos_def)
next
  case False
  define a where "a = max (ilog2 x - 52) (- 1074)"
  define b where "b = max (ilog2 y - 52) (- 1074)"
  have ul: "ulp x = 2 powi a" "ulp y = 2 powi b" by (simp_all add: ulp_def a_def b_def)
  have "ilog2 x \<le> ilog2 y" using assms by (rule ilog2_mono)
  moreover have "a \<noteq> b" using False ul by auto
  ultimately have ab: "ilog2 x < ilog2 y" "a < b" "b = ilog2 y - 52"
    by (auto simp: a_def b_def max_def split: if_splits)
  let ?Y = "(2 :: rat) powi (ilog2 y)"
  obtain m where m: "?Y = of_int m * ulp x"
    using powi2_multiple [of "ilog2 y - a" a] ab by (auto simp: ul)
  obtain m' where m': "?Y = of_int m' * ulp y"
    using powi2_multiple [of "ilog2 y - b" b] ab by (auto simp: ul)
  have "2 powi (ilog2 x + 1) \<le> ?Y" using ab by (simp add: powi2_le_iff)
  then have "x \<le> ?Y" using ilog2_spec [of x] assms by linarith
  then have "round_pos x \<le> ?Y" using round_pos_le [of x m] m by simp
  moreover have "?Y \<le> y" using ilog2_spec [of y] assms by simp
  then have "?Y \<le> round_pos y" using round_pos_ge [of m' y] m' by simp
  ultimately show ?thesis by simp
qed

lemma round_rat_mono: "x \<le> y \<Longrightarrow> round_rat x \<le> round_rat y"
  using round_pos_mono [of x y] round_pos_mono [of "- y" "- x"]
    round_pos_nonneg [of y] round_pos_nonneg [of "- x"]
  by (auto simp: round_rat_def)

lemma round_rat_0 [simp]: "round_rat 0 = 0"
  by (simp add: round_rat_def)

lemma round_rat_neg: "round_rat (- x) = - round_rat x"
  by (auto simp: round_rat_def)

lemma round_rat_dyadic_pos:
  assumes "0 < m" "m < 2 ^ 53" "- 1074 \<le> e"
  shows "round_rat (of_int m * 2 powi e) = of_int m * 2 powi e"
proof -
  let ?x = "of_int m * (2 :: rat) powi e"
  have x0: "0 < ?x" using assms by simp
  have "(of_int m :: rat) < of_int (2 ^ 53)" using assms(2) by (simp only: of_int_less_iff)
  then have "?x < 2 powi 53 * 2 powi e" by simp
  also have "\<dots> = 2 powi (e + 53)" by (simp add: power_int_add)
  finally have "2 powi (ilog2 ?x) < (2 :: rat) powi (e + 53)"
    using ilog2_spec [OF x0] by linarith
  then have "ilog2 ?x < e + 53" by (simp add: powi2_less_iff)
  define a where "a = max (ilog2 ?x - 52) (- 1074)"
  have u: "ulp ?x = 2 powi a" by (simp add: ulp_def a_def)
  have "a \<le> e" using \<open>ilog2 ?x < e + 53\<close> assms(3) by (simp add: a_def)
  then obtain k where k: "(2 :: rat) powi e = of_int k * 2 powi a"
    using powi2_multiple [of "e - a" a] by auto
  have "?x = of_int (m * k) * 2 powi a" by (simp only: k of_int_mult mult.assoc)
  with u have "?x = of_int (m * k) * ulp ?x" by argo
  then have "round_pos ?x = ?x" by (rule round_pos_exact)
  then show ?thesis using x0 by (simp add: round_rat_def)
qed

lemma round_rat_dyadic:
  assumes "\<bar>m\<bar> < 2 ^ 53" "- 1074 \<le> e"
  shows "round_rat (of_int m * 2 powi e) = of_int m * 2 powi e"
proof -
  consider "m = 0" | "0 < m" | "0 < - m" by linarith
  then show ?thesis
  proof cases
    case 3
    then show ?thesis
      using round_rat_dyadic_pos [of "- m" e] round_rat_neg [of "of_int m * 2 powi e"] assms by simp
  qed (use assms round_rat_dyadic_pos in auto)
qed

lemma round_rat_int: "\<bar>i\<bar> < 2 ^ 53 \<Longrightarrow> round_rat (of_int i) = of_int i"
  using round_rat_dyadic [of i 0] by simp

lemma max_finite_eq: "max_finite = (2 ^ 53 - 1) * 2 ^ 971"
  by (simp add: max_finite_def)

lemma max_finite_ge: "(2 :: rat) powi 1000 \<le> max_finite"
proof -
  have "(2 :: rat) powi 1000 = 2 ^ 29 * 2 ^ 971"
    by (simp only: power_int_numeral flip: power_add) simp
  also have "\<dots> \<le> (2 ^ 53 - 1) * 2 ^ 971" by (intro mult_right_mono) simp_all
  finally show ?thesis by (simp only: max_finite_eq)
qed

lemma f64_fin:
  assumes "\<bar>x\<bar> \<le> 2 powi 1000"
  shows "f64 x = Fin (round_rat x)"
proof -
  let ?b = "(2 :: rat) powi 1000"
  have r: "round_rat ?b = ?b" using round_rat_dyadic [of 1 1000] by simp
  have "round_rat x \<le> round_rat ?b" "round_rat (- x) \<le> round_rat ?b"
    using assms by (intro round_rat_mono; linarith)+
  then have "\<not> max_finite < round_rat x" "\<not> round_rat x < - max_finite"
    unfolding r round_rat_neg using max_finite_ge by linarith+
  then show ?thesis by (simp add: f64_def Let_def)
qed

lemma of_int_le_big: "\<bar>i\<bar> \<le> 2 ^ 900 \<Longrightarrow> \<bar>of_int i :: rat\<bar> \<le> 2 powi 1000"
proof -
  assume "\<bar>i\<bar> \<le> 2 ^ 900"
  then have "(of_int \<bar>i\<bar> :: rat) \<le> of_int (2 ^ 900)" by (simp only: of_int_le_iff)
  also have "\<dots> = 2 powi 900" by (simp only: of_int_power of_int_numeral power_int_numeral)
  also have "\<dots> \<le> 2 powi 1000" by (simp only: powi2_le_iff)
  finally show ?thesis by (simp only: of_int_abs)
qed

lemma f_of_int_fin: "\<bar>i\<bar> \<le> 2 ^ 900 \<Longrightarrow> f_of_int i = Fin (round_rat (of_int i))"
  unfolding f_of_int_def by (rule f64_fin [OF of_int_le_big])

lemma f_of_int_exact: "\<bar>i\<bar> < 2 ^ 53 \<Longrightarrow> f_of_int i = Fin (of_int i)"
proof -
  assume i: "\<bar>i\<bar> < 2 ^ 53"
  have "(2 :: int) ^ 53 \<le> 2 ^ 900" by (rule power_increasing) simp_all
  with i have "\<bar>i\<bar> \<le> 2 ^ 900" by linarith
  with i show ?thesis by (simp only: f_of_int_fin round_rat_int)
qed

end
