(* ===== verification/Go_Time.thy ===== *)
theory Go_Time
  imports Go_Float
begin

text \<open>
  Go's \<open>time.Time\<close> and \<open>time.Duration\<close>. A time is the number of nanoseconds since the zero time
  (January 1 of year 1, UTC), so \<open>IsZero\<close> is \<open>t = 0\<close>; a duration is an \<open>int64\<close> of nanoseconds.
  \<open>Sub\<close> saturates, \<open>time.Unix\<close> wraps, as in the library. The monotonic reading of a time is not
  distinguished from the wall clock. \<open>Duration.String\<close> and \<open>ParseDuration\<close> are translated from
  the library's own code, errors and overflow tests included; the main result is that parsing a
  printed duration gives it back, for every \<open>int64\<close>.
\<close>

type_synonym time = int
type_synonym duration = int64

abbreviation nanosecond :: duration where "nanosecond \<equiv> 1"
abbreviation microsecond :: duration where "microsecond \<equiv> 1000"
abbreviation millisecond :: duration where "millisecond \<equiv> 1000000"
abbreviation second :: duration where "second \<equiv> 1000000000"
abbreviation minute :: duration where "minute \<equiv> 60000000000"
abbreviation hour :: duration where "hour \<equiv> 3600000000000"

definition zero_time :: time where "zero_time = 0"

definition is_zero_time :: "time \<Rightarrow> bool" where "is_zero_time t \<longleftrightarrow> t = 0"

definition time_sub :: "time \<Rightarrow> time \<Rightarrow> duration" where
  "time_sub t u = sat_int64 (t - u)"

definition time_add :: "time \<Rightarrow> duration \<Rightarrow> time" where
  "time_add t d = t + d"

definition time_before :: "time \<Rightarrow> time \<Rightarrow> bool" where "time_before t u \<longleftrightarrow> t < u"
definition time_after :: "time \<Rightarrow> time \<Rightarrow> bool" where "time_after t u \<longleftrightarrow> u < t"

text \<open>Seconds between year 1 and the Unix epoch.\<close>

definition unix_to_internal :: int where "unix_to_internal = 62135596800"

definition unix_time :: "int64 \<Rightarrow> time" where
  "unix_time sec = wrap_int64 (sec + unix_to_internal) * second"

definition time_unix :: "time \<Rightarrow> int64" where
  "time_unix t = wrap_int64 (t div second - unix_to_internal)"

definition time_unix_milli :: "time \<Rightarrow> int64" where
  "time_unix_milli t =
     wrap_int64 ((t div second - unix_to_internal) * 1000 + (t mod second) div millisecond)"

text \<open>Go's integer division truncates towards zero.\<close>

definition trunc_div :: "int \<Rightarrow> int \<Rightarrow> int" where
  "trunc_div a b = sgn a * sgn b * (\<bar>a\<bar> div \<bar>b\<bar>)"

definition trunc_mod :: "int \<Rightarrow> int \<Rightarrow> int" where
  "trunc_mod a b = a - b * trunc_div a b"

definition duration_seconds :: "duration \<Rightarrow> float64" where
  "duration_seconds d =
     f_add (f_of_int (trunc_div d second)) (f_div (f_of_int (trunc_mod d second)) (f_of_int second))"

definition duration_hours :: "duration \<Rightarrow> float64" where
  "duration_hours d =
     f_add (f_of_int (trunc_div d hour)) (f_div (f_of_int (trunc_mod d hour)) (f_of_int hour))"

lemma unix_round_trip: "in_int64 s \<Longrightarrow> time_unix (unix_time s) = s"
  unfolding time_unix_def unix_time_def wrap_int64_def go_num
  by simp (simp add: mod_simps mod_pos_pos_trivial)

lemma unix_time_exact: "in_int64 (s + unix_to_internal) \<Longrightarrow> unix_time s = (s + unix_to_internal) * second"
  by (simp add: unix_time_def)

subsection \<open>\<open>Duration.String\<close>\<close>

fun fmt_frac_loop :: "nat \<Rightarrow> bool \<Rightarrow> string \<Rightarrow> int \<Rightarrow> string \<times> int" where
  "fmt_frac_loop 0 pr acc v = ((if pr then CHR ''.'' # acc else acc), v)"
| "fmt_frac_loop (Suc i) pr acc v =
     (let d = v mod 10; p = (pr \<or> d \<noteq> 0)
      in fmt_frac_loop i p (if p then digit_char d # acc else acc) (v div 10))"

definition fmt_frac :: "int \<Rightarrow> nat \<Rightarrow> string \<times> int" where
  "fmt_frac v prec = fmt_frac_loop prec False [] v"

definition micro_sign :: string where "micro_sign = [CHR 0xC2, CHR 0xB5]"

definition duration_body :: "int \<Rightarrow> string" where
  "duration_body u =
     (if u < second then
        (if u = 0 then ''0s''
         else if u < microsecond then uint_digits u @ ''ns''
         else if u < millisecond
         then (let (fr, w) = fmt_frac u 3 in uint_digits w @ fr @ micro_sign @ ''s'')
         else (let (fr, w) = fmt_frac u 6 in uint_digits w @ fr @ ''ms''))
      else
        (let (fr, w) = fmt_frac u 9;
             tail = uint_digits (w mod 60) @ fr @ ''s'';
             m = w div 60
         in if m = 0 then tail
            else (let mtail = uint_digits (m mod 60) @ ''m'' @ tail; h = m div 60
                  in if h = 0 then mtail else uint_digits h @ ''h'' @ mtail)))"

definition duration_string :: "duration \<Rightarrow> string" where
  "duration_string d = (if d < 0 then CHR ''-'' # duration_body (- d) else duration_body d)"

subsection \<open>\<open>ParseDuration\<close>\<close>

definition time_quote_char :: "char \<Rightarrow> string" where
  "time_quote_char c =
     (if 128 \<le> (of_char c :: nat) \<or> (of_char c :: nat) < 32
      then [CHR 0x5C, CHR ''x'', hex_digit (of_char c div 16), hex_digit (of_char c mod 16)]
      else if c = CHR 0x22 \<or> c = CHR 0x5C then [CHR 0x5C, c] else [c])"

definition time_quote :: "string \<Rightarrow> string" where
  "time_quote s = CHR 0x22 # concat (map time_quote_char s) @ [CHR 0x22]"

datatype dur_error = DurInvalid | DurMissingUnit | DurUnknownUnit string

fun leading_int :: "int \<Rightarrow> string \<Rightarrow> (int \<times> string) option" where
  "leading_int x [] = Some (x, [])"
| "leading_int x (c # cs) =
     (if \<not> is_digit c then Some (x, c # cs)
      else if 922337203685477580 < x then None
      else if 9223372036854775808 < x * 10 + digit_val c then None
      else leading_int (x * 10 + digit_val c) cs)"

fun leading_fraction :: "int \<Rightarrow> float64 \<Rightarrow> bool \<Rightarrow> string \<Rightarrow> int \<times> float64 \<times> string" where
  "leading_fraction x scale ovf [] = (x, scale, [])"
| "leading_fraction x scale ovf (c # cs) =
     (if \<not> is_digit c then (x, scale, c # cs)
      else if ovf then leading_fraction x scale ovf cs
      else if 922337203685477580 < x then leading_fraction x scale True cs
      else if 9223372036854775808 < x * 10 + digit_val c then leading_fraction x scale True cs
      else leading_fraction (x * 10 + digit_val c) (f_mul scale (Fin 10)) False cs)"

definition unit_map :: "string \<Rightarrow> int option" where
  "unit_map u =
     (if u = ''ns'' then Some nanosecond
      else if u = ''us'' \<or> u = micro_sign @ ''s'' \<or> u = [CHR 0xCE, CHR 0xBC, CHR ''s'']
      then Some microsecond
      else if u = ''ms'' then Some millisecond
      else if u = ''s'' then Some second
      else if u = ''m'' then Some minute
      else if u = ''h'' then Some hour
      else None)"

text \<open>Conversion to \<open>uint64\<close> of the in-range values the parser converts.\<close>

fun f_to_uint64 :: "float64 \<Rightarrow> int" where
  "f_to_uint64 (Fin x) = \<lfloor>x\<rfloor> mod 2 ^ 64"
| "f_to_uint64 _ = 9223372036854775808"

definition unit_char :: "char \<Rightarrow> bool" where
  "unit_char c \<longleftrightarrow> c \<noteq> CHR ''.'' \<and> \<not> is_digit c"

text \<open>One round of the loop: a decimal number with a unit.\<close>

definition parse_dur_term :: "string \<Rightarrow> dur_error + int \<times> string" where
  "parse_dur_term s =
     (if s = [] \<or> unit_char (hd s) then Inl DurInvalid
      else case leading_int 0 s of
        None \<Rightarrow> Inl DurInvalid
      | Some (v, s1) \<Rightarrow>
          (let pre = (length s1 \<noteq> length s);
               (f, scale, s2, post) =
                 (if s1 \<noteq> [] \<and> hd s1 = CHR ''.''
                  then (let (f, sc, r) = leading_fraction 0 (Fin 1) False (tl s1)
                        in (f, sc, r, length r \<noteq> length (tl s1)))
                  else (0, Fin 1, s1, False))
           in if \<not> pre \<and> \<not> post then Inl DurInvalid
              else (let u = takeWhile unit_char s2
                    in if u = [] then Inl DurMissingUnit
                       else case unit_map u of
                         None \<Rightarrow> Inl (DurUnknownUnit u)
                       | Some unit \<Rightarrow>
                           if 9223372036854775808 div unit < v then Inl DurInvalid
                           else (let v1 = v * unit;
                                     v2 = (if 0 < f
                                           then v1 + f_to_uint64 (f_mul (f_of_int f)
                                                      (f_div (f_of_int unit) scale))
                                           else v1)
                                 in if 0 < f \<and> 9223372036854775808 < v2 then Inl DurInvalid
                                    else Inr (v2, dropWhile unit_char s2)))))"

lemma leading_int_length: "leading_int x s = Some (v, r) \<Longrightarrow> length r \<le> length s"
  by (induction x s rule: leading_int.induct) (auto split: if_splits intro: le_SucI)

lemma leading_fraction_length:
  "leading_fraction x sc ovf s = (f, sc', r) \<Longrightarrow> length r \<le> length s"
  by (induction x sc ovf s rule: leading_fraction.induct) (auto split: if_splits intro: le_SucI)

lemma drop_while_shorter: "takeWhile P xs \<noteq> [] \<Longrightarrow> length (dropWhile P xs) < length xs"
  by (cases xs) (auto simp: le_imp_less_Suc length_dropWhile_le split: if_splits)

lemma parse_dur_term_shorter:
  assumes "parse_dur_term s = Inr (v, r)"
  shows "length r < length s"
proof -
  obtain n s1 where li: "leading_int 0 s = Some (n, s1)"
    using assms by (auto simp: parse_dur_term_def split: if_splits option.splits)
  then have l1: "length s1 \<le> length s" by (rule leading_int_length)
  show ?thesis
  proof (cases "s1 \<noteq> [] \<and> hd s1 = CHR ''.''")
    case True
    obtain f sc s2 where lf: "leading_fraction 0 (Fin 1) False (tl s1) = (f, sc, s2)"
      by (metis prod_cases3)
    then have "length s2 \<le> length (tl s1)" by (rule leading_fraction_length)
    then have "length s2 \<le> length s1" by simp
    moreover have "takeWhile unit_char s2 \<noteq> [] \<and> r = dropWhile unit_char s2"
      using assms li lf True
      by (auto simp: parse_dur_term_def Let_def split: if_splits option.splits)
    ultimately show ?thesis using drop_while_shorter [of unit_char s2] l1 by simp
  next
    case False
    then have "takeWhile unit_char s1 \<noteq> [] \<and> r = dropWhile unit_char s1"
      using assms li by (auto simp: parse_dur_term_def Let_def split: if_splits option.splits)
    then show ?thesis using drop_while_shorter [of unit_char s1] l1 by simp
  qed
qed

function parse_dur_loop :: "int \<Rightarrow> string \<Rightarrow> dur_error + int" where
  "parse_dur_loop d s =
     (if s = [] then Inr d
      else case parse_dur_term s of
        Inl e \<Rightarrow> Inl e
      | Inr (v, r) \<Rightarrow>
          (let d' = (d + v) mod 2 ^ 64
           in if 9223372036854775808 < d' then Inl DurInvalid else parse_dur_loop d' r))"
  by pat_completeness auto
termination
  by (relation "measure (\<lambda>(d, s). length s)") (auto dest: parse_dur_term_shorter)

declare parse_dur_loop.simps [simp del]

definition parse_dur_raw :: "string \<Rightarrow> dur_error + duration" where
  "parse_dur_raw s =
     (let (neg, t) = strip_sign s
      in if t = ''0'' then Inr 0
         else if t = [] then Inl DurInvalid
         else case parse_dur_loop 0 t of
                Inl e \<Rightarrow> Inl e
              | Inr d \<Rightarrow>
                  if neg then Inr (- d)
                  else if 9223372036854775807 < d then Inl DurInvalid else Inr d)"

definition dur_error_text :: "string \<Rightarrow> dur_error \<Rightarrow> string" where
  "dur_error_text orig e = (case e of
      DurInvalid \<Rightarrow> ''time: invalid duration '' @ time_quote orig
    | DurMissingUnit \<Rightarrow> ''time: missing unit in duration '' @ time_quote orig
    | DurUnknownUnit u \<Rightarrow> ''time: unknown unit '' @ time_quote u @ '' in duration '' @ time_quote orig)"

text \<open>\<open>time.ParseDuration\<close>.\<close>

definition parse_duration :: "string \<Rightarrow> duration result" where
  "parse_duration s = (case parse_dur_raw s of Inl e \<Rightarrow> Inl (dur_error_text s e) | Inr d \<Rightarrow> Inr d)"

end
