(* ===== verification/Go_Json.thy ===== *)
theory Go_Json
  imports Go_Time
begin

text \<open>
  JSON documents as \<open>encoding/json\<close> sees them once the text is read: a syntax tree with numbers
  as exact rationals and objects as key lists in document order (a repeated key is kept). Decoding
  follows \<open>json.Unmarshal\<close> into an existing variable: keys match exactly or by simple case
  folding, a later key overwrites an earlier one, \<open>null\<close> leaves a scalar or a struct as it was and
  makes a slice nil, an unknown key is ignored, and a value of the wrong type is skipped with the
  error reported at the end, the rest of the document having been decoded.
\<close>

datatype json = JNull | JBool bool | JNum rat | JStr string | JArr "json list"
  | JObj "(string \<times> json) list"

text \<open>A Go slice: \<open>None\<close> is nil.\<close>

type_synonym 'a slice = "'a list option"

definition elems :: "'a slice \<Rightarrow> 'a list" where
  "elems s = (case s of None \<Rightarrow> [] | Some xs \<Rightarrow> xs)"

lemma elems_simps [simp]: "elems None = []" "elems (Some xs) = xs"
  by (simp_all add: elems_def)

text \<open>A decoder takes the value and the variable's content; the flag is "an error was seen".\<close>

type_synonym 'a decoder = "json \<Rightarrow> 'a \<Rightarrow> 'a \<times> bool"

fun dec_string :: "string decoder" where
  "dec_string (JStr s) old = (s, False)"
| "dec_string JNull old = (old, False)"
| "dec_string _ old = (old, True)"

fun dec_bool :: "bool decoder" where
  "dec_bool (JBool b) old = (b, False)"
| "dec_bool JNull old = (old, False)"
| "dec_bool _ old = (old, True)"

fun dec_float :: "float64 decoder" where
  "dec_float (JNum r) old = (case f64 r of Fin x \<Rightarrow> (Fin x, False) | _ \<Rightarrow> (old, True))"
| "dec_float JNull old = (old, False)"
| "dec_float _ old = (old, True)"

type_synonym 's fields = "(string \<times> 's decoder) list"

definition find_field :: "'s fields \<Rightarrow> string \<Rightarrow> 's decoder option" where
  "find_field fs k =
     (case map_of fs k of
        Some d \<Rightarrow> Some d
      | None \<Rightarrow> map_option snd (List.find (\<lambda>(n, d). equal_fold n k) fs))"

lemma find_field_in: "find_field fs k = Some d \<Longrightarrow> \<exists>n. (n, d) \<in> set fs"
  by (fastforce simp: find_field_def find_Some_iff in_set_conv_nth split: option.splits dest!: map_of_SomeD)

fun dec_pairs :: "'s fields \<Rightarrow> (string \<times> json) list \<Rightarrow> 's \<Rightarrow> 's \<times> bool" where
  "dec_pairs fs [] s = (s, False)"
| "dec_pairs fs ((k, v) # kvs) s =
     (let (s1, e1) = (case find_field fs k of None \<Rightarrow> (s, False) | Some d \<Rightarrow> d v s);
          (s2, e2) = dec_pairs fs kvs s1
      in (s2, e1 \<or> e2))"

fun dec_struct :: "'s fields \<Rightarrow> 's decoder" where
  "dec_struct fs (JObj kvs) s = dec_pairs fs kvs s"
| "dec_struct fs JNull s = (s, False)"
| "dec_struct fs _ s = (s, True)"

text \<open>A slice of values decoded from a fresh zero value each.\<close>

fun dec_slice :: "'a decoder \<Rightarrow> 'a \<Rightarrow> 'a slice decoder" where
  "dec_slice d z (JArr js) old =
     (let rs = map (\<lambda>j. d j z) js in (Some (map fst rs), list_ex snd rs))"
| "dec_slice d z JNull old = (None, False)"
| "dec_slice d z _ old = (old, True)"

text \<open>A type with its own \<open>UnmarshalJSON\<close>: an error leaves the value as it was.\<close>

definition dec_custom :: "(json \<Rightarrow> 'a \<Rightarrow> 'a result) \<Rightarrow> 'a decoder" where
  "dec_custom u j old = (case u j old of Inl _ \<Rightarrow> (old, True) | Inr x \<Rightarrow> (x, False))"

text \<open>Field access in a decoded \<open>map[string]any\<close>: the last occurrence of a key counts.\<close>

definition obj_get :: "(string \<times> 'a) list \<Rightarrow> string \<Rightarrow> 'a option" where
  "obj_get kvs k = map_of (rev kvs) k"

text \<open>Storing a key of a \<open>map[string]any\<close>; the order of keys carries no meaning.\<close>

definition obj_set :: "(string \<times> 'a) list \<Rightarrow> string \<Rightarrow> 'a \<Rightarrow> (string \<times> 'a) list" where
  "obj_set kvs k v = filter (\<lambda>p. fst p \<noteq> k) kvs @ [(k, v)]"

lemma obj_get_set [simp]: "obj_get (obj_set kvs k v) k = Some v"
  by (simp add: obj_get_def obj_set_def)

lemma map_of_filter_neq: "k' \<noteq> k \<Longrightarrow> map_of (filter (\<lambda>p. fst p \<noteq> k) ps) k' = map_of ps k'"
  by (induction ps) auto

lemma obj_get_set_other [simp]: "k' \<noteq> k \<Longrightarrow> obj_get (obj_set kvs k v) k' = obj_get kvs k'"
  by (simp add: obj_get_def obj_set_def rev_filter map_of_filter_neq)

definition lift_field :: "('s \<Rightarrow> 'a) \<Rightarrow> ('a \<Rightarrow> 's \<Rightarrow> 's) \<Rightarrow> 'a decoder \<Rightarrow> 's decoder" where
  "lift_field get put d j s = (let (x, e) = d j (get s) in (put x s, e))"

lemma dec_slice_map:
  "(\<And>x. x \<in> set xs \<Longrightarrow> d (enc x) z = (x, False)) \<Longrightarrow>
   dec_slice d z (JArr (map enc xs)) old = (Some xs, False)"
  by (simp add: list_ex_iff comp_def map_idI Let_def)

end
