(* ===== verification/Collector_Types.thy ===== *)
theory Collector_Types
  imports Go_Json
begin

text \<open>The data of \<open>internal/collector/types.go\<close>: one sample of the host and what it is made of.\<close>

record process_info =
  pi_pid :: int
  pi_name :: string
  pi_cpu_percent :: float64
  pi_mem_mb :: float64

text \<open>\<open>ServiceKind\<close> is a string type with five named values.\<close>

type_synonym service_kind = string

definition ServiceKindDocker :: service_kind where "ServiceKindDocker = ''docker''"
definition ServiceKindSystemd :: service_kind where "ServiceKindSystemd = ''systemd''"
definition ServiceKindPM2 :: service_kind where "ServiceKindPM2 = ''pm2''"
definition ServiceKindCron :: service_kind where "ServiceKindCron = ''cron''"
definition ServiceKindUnknown :: service_kind where "ServiceKindUnknown = ''unknown''"

record service_status =
  ss_kind :: service_kind
  ss_name :: string
  ss_running :: bool
  ss_detail :: string
  ss_last_check :: time

record sample =
  timestamp :: time
  cpu_percent :: float64
  mem_used_mb :: float64
  mem_total_mb :: float64
  disk_used_gb :: float64
  disk_total_gb :: float64
  load_avg_1 :: float64
  load_avg_5 :: float64
  load_avg_15 :: float64
  uptime_seconds :: int64
  net_rx_bytes_per_sec :: float64
  net_tx_bytes_per_sec :: float64
  top_processes :: "process_info list"
  services :: "service_status list"

definition zero_sample :: sample where
  "zero_sample = \<lparr>timestamp = zero_time, cpu_percent = Fin 0, mem_used_mb = Fin 0,
     mem_total_mb = Fin 0, disk_used_gb = Fin 0, disk_total_gb = Fin 0, load_avg_1 = Fin 0,
     load_avg_5 = Fin 0, load_avg_15 = Fin 0, uptime_seconds = 0, net_rx_bytes_per_sec = Fin 0,
     net_tx_bytes_per_sec = Fin 0, top_processes = [], services = []\<rparr>"

end
