(* ===== verification/Alerts.thy ===== *)
theory Alerts
  imports Collector_Types
begin

text \<open>
  \<open>internal/alerts/alerts.go\<close>: threshold rules and service rules, their JSON form, and the
  evaluator that turns samples into alert messages. The evaluator's two maps are keyed as in the
  code: threshold state by rule name, service state by service name. A message is a value naming
  the format string it is printed with (\<open>message_text\<close> prints it); publishing is the list of
  messages an evaluation hands to the publisher, in order.
\<close>

subsection \<open>Rules\<close>

type_synonym metric = string
type_synonym comparator = string

definition MetricCPUPercent :: metric where "MetricCPUPercent = ''cpu_percent''"
definition MetricMemPercent :: metric where "MetricMemPercent = ''mem_percent''"
definition MetricDiskPercent :: metric where "MetricDiskPercent = ''disk_percent''"
definition MetricLoadAvg1 :: metric where "MetricLoadAvg1 = ''load_avg_1''"

definition ComparatorGreaterThan :: comparator where "ComparatorGreaterThan = ''gt''"
definition ComparatorLessThan :: comparator where "ComparatorLessThan = ''lt''"

record rule =
  r_name :: string
  r_metric :: metric
  r_comparator :: comparator
  r_threshold :: float64
  r_for :: duration
  r_repeat :: duration

record service_rule =
  sr_name :: string
  sr_service :: string
  sr_notify_recovery :: bool
  sr_repeat :: duration

definition zero_rule :: rule where
  "zero_rule = \<lparr>r_name = [], r_metric = [], r_comparator = [], r_threshold = Fin 0, r_for = 0, r_repeat = 0\<rparr>"

definition zero_service_rule :: service_rule where
  "zero_service_rule = \<lparr>sr_name = [], sr_service = [], sr_notify_recovery = False, sr_repeat = 0\<rparr>"

subsection \<open>JSON form\<close>

record rule_json =
  rj_name :: string
  rj_metric :: string
  rj_comparator :: string
  rj_threshold :: float64
  rj_for :: string
  rj_repeat :: string

definition zero_rule_json :: rule_json where
  "zero_rule_json = \<lparr>rj_name = [], rj_metric = [], rj_comparator = [], rj_threshold = Fin 0,
     rj_for = [], rj_repeat = []\<rparr>"

definition rule_json_fields :: "rule_json fields" where
  "rule_json_fields =
     [(''name'', lift_field rj_name (\<lambda>x s. s\<lparr>rj_name := x\<rparr>) dec_string),
      (''metric'', lift_field rj_metric (\<lambda>x s. s\<lparr>rj_metric := x\<rparr>) dec_string),
      (''comparator'', lift_field rj_comparator (\<lambda>x s. s\<lparr>rj_comparator := x\<rparr>) dec_string),
      (''threshold'', lift_field rj_threshold (\<lambda>x s. s\<lparr>rj_threshold := x\<rparr>) dec_float),
      (''for'', lift_field rj_for (\<lambda>x s. s\<lparr>rj_for := x\<rparr>) dec_string),
      (''repeat_interval'', lift_field rj_repeat (\<lambda>x s. s\<lparr>rj_repeat := x\<rparr>) dec_string)]"

text \<open>\<open>json.Marshal\<close> refuses infinities and NaN; a finite threshold is written as a number.\<close>

definition enc_float :: "float64 \<Rightarrow> json result" where
  "enc_float x = (case x of Fin r \<Rightarrow> Inr (JNum r) | _ \<Rightarrow> Inl ''json: unsupported value'')"

definition repeat_text :: "duration \<Rightarrow> string" where
  "repeat_text d = (if 0 < d then duration_string d else [])"

definition opt_field :: "string \<Rightarrow> string \<Rightarrow> (string \<times> json) list" where
  "opt_field k v = (if v = [] then [] else [(k, JStr v)])"

definition rule_marshal :: "rule \<Rightarrow> json result" where
  "rule_marshal r =
     (case enc_float (r_threshold r) of
        Inl e \<Rightarrow> Inl e
      | Inr t \<Rightarrow> Inr (JObj ([(''name'', JStr (r_name r)), (''metric'', JStr (r_metric r)),
          (''comparator'', JStr (r_comparator r)), (''threshold'', t),
          (''for'', JStr (duration_string (r_for r)))]
          @ opt_field ''repeat_interval'' (repeat_text (r_repeat r)))))"

definition rule_unmarshal :: "json \<Rightarrow> rule \<Rightarrow> rule result" where
  "rule_unmarshal j old =
     (let (raw, bad) = dec_struct rule_json_fields j zero_rule_json
      in if bad then Inl ''json: cannot unmarshal''
         else case parse_duration (rj_for raw) of
           Inl e \<Rightarrow> Inl (''alerts: parsing rule '' @ quote (rj_name raw) @ [CHR 0x27] @ ''s \"for\" duration ''
                         @ quote (rj_for raw) @ '': '' @ e)
         | Inr d \<Rightarrow>
             (let done = (\<lambda>rep. Inr \<lparr>r_name = rj_name raw, r_metric = rj_metric raw,
                r_comparator = rj_comparator raw, r_threshold = rj_threshold raw, r_for = d,
                r_repeat = rep\<rparr>)
              in if rj_repeat raw = [] then done 0
                 else case parse_duration (rj_repeat raw) of
                   Inl e \<Rightarrow> Inl (''alerts: parsing rule '' @ quote (rj_name raw)
                               @ [CHR 0x27] @ ''s \"repeat_interval\" '' @ quote (rj_repeat raw) @ '': '' @ e)
                 | Inr rep \<Rightarrow>
                     if rep < 0
                     then Inl (''alerts: rule '' @ quote (rj_name raw)
                               @ '' has a negative \"repeat_interval\" '' @ quote (rj_repeat raw))
                     else done rep))"

record service_rule_json =
  sj_name :: string
  sj_service :: string
  sj_notify :: bool
  sj_repeat :: string

definition zero_service_rule_json :: service_rule_json where
  "zero_service_rule_json = \<lparr>sj_name = [], sj_service = [], sj_notify = False, sj_repeat = []\<rparr>"

definition service_rule_json_fields :: "service_rule_json fields" where
  "service_rule_json_fields =
     [(''name'', lift_field sj_name (\<lambda>x s. s\<lparr>sj_name := x\<rparr>) dec_string),
      (''service_name'', lift_field sj_service (\<lambda>x s. s\<lparr>sj_service := x\<rparr>) dec_string),
      (''notify_on_recovery'', lift_field sj_notify (\<lambda>x s. s\<lparr>sj_notify := x\<rparr>) dec_bool),
      (''repeat_interval'', lift_field sj_repeat (\<lambda>x s. s\<lparr>sj_repeat := x\<rparr>) dec_string)]"

definition service_rule_marshal :: "service_rule \<Rightarrow> json" where
  "service_rule_marshal r =
     JObj ([(''name'', JStr (sr_name r)), (''service_name'', JStr (sr_service r)),
       (''notify_on_recovery'', JBool (sr_notify_recovery r))]
       @ opt_field ''repeat_interval'' (repeat_text (sr_repeat r)))"

definition service_rule_unmarshal :: "json \<Rightarrow> service_rule \<Rightarrow> service_rule result" where
  "service_rule_unmarshal j old =
     (let (raw, bad) = dec_struct service_rule_json_fields j zero_service_rule_json
      in if bad then Inl ''json: cannot unmarshal''
         else (let done = (\<lambda>rep. Inr \<lparr>sr_name = sj_name raw, sr_service = sj_service raw,
                 sr_notify_recovery = sj_notify raw, sr_repeat = rep\<rparr>)
               in if sj_repeat raw = [] then done 0
                  else case parse_duration (sj_repeat raw) of
                    Inl e \<Rightarrow> Inl (''alerts: parsing service rule '' @ quote (sj_name raw)
                                @ [CHR 0x27] @ ''s \"repeat_interval\" '' @ quote (sj_repeat raw) @ '': '' @ e)
                  | Inr rep \<Rightarrow>
                      if rep < 0
                      then Inl (''alerts: service rule '' @ quote (sj_name raw)
                                @ '' has a negative \"repeat_interval\" '' @ quote (sj_repeat raw))
                      else done rep))"

subsection \<open>The evaluator\<close>

record rule_state =
  condition_since :: time
  firing :: bool
  last_fired :: time

definition zero_rule_state :: rule_state where
  "zero_rule_state = \<lparr>condition_since = zero_time, firing = False, last_fired = zero_time\<rparr>"

record service_state =
  running :: bool
  svc_last_fired :: time

record evaluator =
  e_rules :: "rule slice"
  e_service_rules :: "service_rule slice"
  rule_states :: "string \<rightharpoonup> rule_state"
  service_states :: "string \<rightharpoonup> service_state"

datatype message =
    MsgRecovered string metric float64
  | MsgBreach string metric float64 float64 duration
  | MsgStillOver string metric float64 float64
  | MsgDown string string
  | MsgStillDown string string
  | MsgUp string string

definition message_text :: "message \<Rightarrow> string" where
  "message_text m = (case m of
      MsgRecovered n k v \<Rightarrow> n @ '' recovered ('' @ k @ '' = '' @ fmt_1f v @ '')''
    | MsgBreach n k v t d \<Rightarrow> n @ '': '' @ k @ '' = '' @ fmt_1f v @ '' (threshold '' @ fmt_1f t
        @ '' for '' @ duration_string d @ '')''
    | MsgStillOver n k v t \<Rightarrow> n @ '': '' @ k @ '' = '' @ fmt_1f v @ '' (still over threshold ''
        @ fmt_1f t @ '')''
    | MsgDown n s \<Rightarrow> n @ '': service '' @ quote s @ '' is DOWN''
    | MsgStillDown n s \<Rightarrow> n @ '': service '' @ quote s @ '' is still DOWN''
    | MsgUp n s \<Rightarrow> n @ '': service '' @ quote s @ '' recovered'')"

definition new_evaluator :: evaluator where
  "new_evaluator = \<lparr>e_rules = None, e_service_rules = None, rule_states = Map.empty,
     service_states = Map.empty\<rparr>"

definition set_rules :: "rule slice \<Rightarrow> service_rule slice \<Rightarrow> evaluator \<Rightarrow> evaluator" where
  "set_rules rs srs e = e\<lparr>e_rules := rs, e_service_rules := srs\<rparr>"

definition get_rules :: "evaluator \<Rightarrow> rule slice \<times> service_rule slice" where
  "get_rules e = (e_rules e, e_service_rules e)"

definition metric_value :: "metric \<Rightarrow> sample \<Rightarrow> float64 option" where
  "metric_value m s =
     (if m = MetricCPUPercent then Some (cpu_percent s)
      else if m = MetricMemPercent then
        (if f_eq (mem_total_mb s) (Fin 0) then None
         else Some (f_mul (f_div (mem_used_mb s) (mem_total_mb s)) (Fin 100)))
      else if m = MetricDiskPercent then
        (if f_eq (disk_total_gb s) (Fin 0) then None
         else Some (f_mul (f_div (disk_used_gb s) (disk_total_gb s)) (Fin 100)))
      else if m = MetricLoadAvg1 then Some (load_avg_1 s)
      else None)"

text \<open>The comparison, \<open>None\<close> for a comparator the code does not know.\<close>

definition condition_met :: "rule \<Rightarrow> float64 \<Rightarrow> bool option" where
  "condition_met r v =
     (if r_comparator r = ComparatorGreaterThan then Some (f_gt v (r_threshold r))
      else if r_comparator r = ComparatorLessThan then Some (f_lt v (r_threshold r))
      else None)"

definition evaluate_rule :: "rule \<Rightarrow> sample \<Rightarrow> evaluator \<Rightarrow> evaluator \<times> message list" where
  "evaluate_rule r s e =
     (case metric_value (r_metric r) s of
        None \<Rightarrow> (e, [])
      | Some value \<Rightarrow>
          (case condition_met r value of
             None \<Rightarrow> (e, [])
           | Some met \<Rightarrow>
               (let state = (case rule_states e (r_name r) of None \<Rightarrow> zero_rule_state | Some st \<Rightarrow> st)
                in if \<not> met then
                     (let state' = state\<lparr>condition_since := zero_time, firing := False,
                                         last_fired := zero_time\<rparr>
                      in (e\<lparr>rule_states := (rule_states e)(r_name r \<mapsto> state')\<rparr>,
                          if firing state then [MsgRecovered (r_name r) (r_metric r) value] else []))
                   else
                     (let since = (if is_zero_time (condition_since state) then timestamp s
                                   else condition_since state);
                          first_fire = (\<not> firing state \<and> r_for r \<le> time_sub (timestamp s) since);
                          repeat_fire = (firing state \<and> 0 < r_repeat r
                             \<and> r_repeat r \<le> time_sub (timestamp s) (last_fired state));
                          should = (first_fire \<or> repeat_fire);
                          state1 = state\<lparr>condition_since := since\<rparr>;
                          state' = (if should
                                    then state1\<lparr>firing := True, last_fired := timestamp s\<rparr>
                                    else state1)
                      in (e\<lparr>rule_states := (rule_states e)(r_name r \<mapsto> state')\<rparr>,
                          if should
                          then (if repeat_fire
                                then [MsgStillOver (r_name r) (r_metric r) value (r_threshold r)]
                                else [MsgBreach (r_name r) (r_metric r) value (r_threshold r) (r_for r)])
                          else [])))))"

definition evaluate_service_rule ::
  "service_rule \<Rightarrow> sample \<Rightarrow> evaluator \<Rightarrow> evaluator \<times> message list" where
  "evaluate_service_rule r s e =
     (case List.find (\<lambda>st. ss_name st = sr_service r) (services s) of
        None \<Rightarrow> (e, [])
      | Some current \<Rightarrow>
          (case service_states e (sr_service r) of
             None \<Rightarrow>
               (e\<lparr>service_states := (service_states e)
                    (sr_service r \<mapsto> \<lparr>running = ss_running current, svc_last_fired = zero_time\<rparr>)\<rparr>, [])
           | Some state \<Rightarrow>
               (let previous = running state;
                    now_running = ss_running current;
                    went_down = (previous \<and> \<not> now_running);
                    came_up = (\<not> previous \<and> now_running);
                    still_down = (\<not> previous \<and> \<not> now_running \<and> 0 < sr_repeat r
                       \<and> sr_repeat r \<le> time_sub (timestamp s) (svc_last_fired state));
                    fired = (if went_down \<or> still_down then timestamp s
                             else svc_last_fired state);
                    state' = \<lparr>running = now_running,
                              svc_last_fired = (if came_up then zero_time else fired)\<rparr>
                in (e\<lparr>service_states := (service_states e)(sr_service r \<mapsto> state')\<rparr>,
                    if went_down then [MsgDown (sr_name r) (sr_service r)]
                    else if still_down then [MsgStillDown (sr_name r) (sr_service r)]
                    else if came_up \<and> sr_notify_recovery r then [MsgUp (sr_name r) (sr_service r)]
                    else []))))"

fun evaluate_rules :: "rule list \<Rightarrow> sample \<Rightarrow> evaluator \<Rightarrow> evaluator \<times> message list" where
  "evaluate_rules [] s e = (e, [])"
| "evaluate_rules (r # rs) s e =
     (let (e1, ms) = evaluate_rule r s e; (e2, ms') = evaluate_rules rs s e1 in (e2, ms @ ms'))"

fun evaluate_service_rules ::
  "service_rule list \<Rightarrow> sample \<Rightarrow> evaluator \<Rightarrow> evaluator \<times> message list" where
  "evaluate_service_rules [] s e = (e, [])"
| "evaluate_service_rules (r # rs) s e =
     (let (e1, ms) = evaluate_service_rule r s e; (e2, ms') = evaluate_service_rules rs s e1
      in (e2, ms @ ms'))"

text \<open>\<open>Evaluator.Handle\<close>: the rule set is read once, then every rule sees the sample.\<close>

definition evaluate :: "sample \<Rightarrow> evaluator \<Rightarrow> evaluator \<times> message list" where
  "evaluate s e =
     (let (e1, ms) = evaluate_rules (elems (e_rules e)) s e;
          (e2, ms') = evaluate_service_rules (elems (e_service_rules e)) s e1
      in (e2, ms @ ms'))"

fun evaluate_all :: "sample list \<Rightarrow> evaluator \<Rightarrow> evaluator \<times> message list list" where
  "evaluate_all [] e = (e, [])"
| "evaluate_all (s # ss) e =
     (let (e1, ms) = evaluate s e; (e2, mss) = evaluate_all ss e1 in (e2, ms # mss))"

end
