(* ===== verification/Alert_Episodes.thy ===== *)
theory Alert_Episodes
  imports Alerts
begin

text \<open>
  What the evaluator promises, seen from one rule. \<open>rule_step\<close> is the part of \<open>evaluate_rule\<close>
  that concerns one state; as long as rule names are distinct the evaluator runs one independent
  copy of it per rule (\<open>evaluate_rules_project\<close>), so the properties of a rule's notifications are
  proved about \<open>rule_step\<close> and hold of whole evaluator runs. The same is done for services with
  \<open>service_step\<close>.
\<close>

subsection \<open>One threshold rule\<close>

text \<open>What a rule sees in a sample: the value and whether it is on the wrong side.\<close>

definition observe :: "rule \<Rightarrow> sample \<Rightarrow> (float64 \<times> bool) option" where
  "observe r s =
     (case metric_value (r_metric r) s of
        None \<Rightarrow> None
      | Some v \<Rightarrow> map_option (\<lambda>b. (v, b)) (condition_met r v))"

definition breaching :: "rule \<Rightarrow> sample \<Rightarrow> bool" where
  "breaching r s \<longleftrightarrow> (\<exists>v. observe r s = Some (v, True))"

definition clear :: "rule \<Rightarrow> sample \<Rightarrow> bool" where
  "clear r s \<longleftrightarrow> (\<exists>v. observe r s = Some (v, False))"

definition rule_step :: "rule \<Rightarrow> sample \<Rightarrow> rule_state \<Rightarrow> rule_state \<times> message list" where
  "rule_step r s st =
     (case observe r s of
        None \<Rightarrow> (st, [])
      | Some (v, False) \<Rightarrow>
          (st\<lparr>condition_since := zero_time, firing := False, last_fired := zero_time\<rparr>,
           if firing st then [MsgRecovered (r_name r) (r_metric r) v] else [])
      | Some (v, True) \<Rightarrow>
          (let since = (if is_zero_time (condition_since st) then timestamp s else condition_since st)
           in if firing st then
                (if 0 < r_repeat r \<and> r_repeat r \<le> time_sub (timestamp s) (last_fired st)
                 then (st\<lparr>condition_since := since, firing := True, last_fired := timestamp s\<rparr>,
                       [MsgStillOver (r_name r) (r_metric r) v (r_threshold r)])
                 else (st\<lparr>condition_since := since\<rparr>, []))
              else
                (if r_for r \<le> time_sub (timestamp s) since
                 then (st\<lparr>condition_since := since, firing := True, last_fired := timestamp s\<rparr>,
                       [MsgBreach (r_name r) (r_metric r) v (r_threshold r) (r_for r)])
                 else (st\<lparr>condition_since := since\<rparr>, []))))"

definition get_state :: "evaluator \<Rightarrow> rule \<Rightarrow> rule_state" where
  "get_state e r = (case rule_states e (r_name r) of None \<Rightarrow> zero_rule_state | Some st \<Rightarrow> st)"

lemma get_state_upd:
  "get_state (e\<lparr>rule_states := (rule_states e)(n \<mapsto> st)\<rparr>) r = (if r_name r = n then st else get_state e r)"
  by (simp add: get_state_def)

lemma evaluate_rule_eq:
  "evaluate_rule r s e =
     (if observe r s = None then (e, [])
      else (let (st, ms) = rule_step r s (get_state e r)
            in (e\<lparr>rule_states := (rule_states e)(r_name r \<mapsto> st)\<rparr>, ms)))"
proof (cases "metric_value (r_metric r) s")
  case None
  then show ?thesis by (simp add: evaluate_rule_def observe_def)
next
  case v: (Some v)
  show ?thesis
  proof (cases "condition_met r v")
    case None
    with v show ?thesis by (simp add: evaluate_rule_def observe_def)
  next
    case m: (Some b)
    show ?thesis
    proof (cases b)
      case True
      with v m show ?thesis
        by (cases "firing (get_state e r)")
           (simp_all add: evaluate_rule_def rule_step_def observe_def Let_def flip: get_state_def)
    next
      case False
      with v m show ?thesis
        by (simp add: evaluate_rule_def rule_step_def observe_def Let_def flip: get_state_def)
    qed
  qed
qed

lemma evaluate_rule_step:
  assumes "evaluate_rule r s e = (e', ms)"
  shows "rule_step r s (get_state e r) = (get_state e' r, ms) \<and>
   (\<forall>n. n \<noteq> r_name r \<longrightarrow> rule_states e' n = rule_states e n) \<and>
   service_states e' = service_states e \<and> e_rules e' = e_rules e \<and>
   e_service_rules e' = e_service_rules e"
proof (cases "observe r s = None")
  case True
  with assms show ?thesis by (simp add: evaluate_rule_eq rule_step_def)
next
  case False
  obtain st ms' where "rule_step r s (get_state e r) = (st, ms')" by fastforce
  with assms False show ?thesis by (auto simp: evaluate_rule_eq get_state_def)
qed

text \<open>The messages of the threshold rule called \<open>n\<close>.\<close>

fun msg_rule :: "message \<Rightarrow> string option" where
  "msg_rule (MsgRecovered n _ _) = Some n"
| "msg_rule (MsgBreach n _ _ _ _) = Some n"
| "msg_rule (MsgStillOver n _ _ _) = Some n"
| "msg_rule _ = None"

definition msgs_of :: "string \<Rightarrow> message list \<Rightarrow> message list" where
  "msgs_of n ms = filter (\<lambda>m. msg_rule m = Some n) ms"

lemma msgs_of_simps [simp]:
  "msgs_of n [] = []" "msgs_of n (ms @ ms') = msgs_of n ms @ msgs_of n ms'"
  "msgs_of n (m # ms) = (if msg_rule m = Some n then m # msgs_of n ms else msgs_of n ms)"
  by (simp_all add: msgs_of_def)

lemma rule_step_msgs: "m \<in> set (snd (rule_step r s st)) \<Longrightarrow> msg_rule m = Some (r_name r)"
  by (auto simp: rule_step_def Let_def split: option.splits prod.splits bool.splits if_splits)

lemma msgs_of_all: "(\<And>m. m \<in> set ms \<Longrightarrow> msg_rule m = Some n) \<Longrightarrow> msgs_of n ms = ms"
  by (simp add: msgs_of_def filter_id_conv)

lemma msgs_of_none: "(\<And>m. m \<in> set ms \<Longrightarrow> msg_rule m \<noteq> Some n) \<Longrightarrow> msgs_of n ms = []"
  by (simp add: msgs_of_def filter_empty_conv)

lemma rule_states_other:
  "evaluate_rules rs s e = (e', ms) \<Longrightarrow> n \<notin> r_name ` set rs \<Longrightarrow>
   rule_states e' n = rule_states e n \<and> msgs_of n ms = []"
proof (induction rs arbitrary: e e' ms)
  case Nil
  then show ?case by simp
next
  case (Cons r rs)
  obtain e1 ms1 where 1: "evaluate_rule r s e = (e1, ms1)" by fastforce
  obtain e2 ms2 where 2: "evaluate_rules rs s e1 = (e2, ms2)" by fastforce
  have "msgs_of n ms1 = []"
    using Cons.prems(2) evaluate_rule_step [OF 1] rule_step_msgs [of _ r s "get_state e r"]
    by (intro msgs_of_none) force
  then show ?case
    using Cons.prems Cons.IH [OF 2] 1 2 evaluate_rule_step [OF 1] by auto
qed

lemma evaluate_rules_project:
  assumes "evaluate_rules rs s e = (e', ms)" "distinct (map r_name rs)" "r \<in> set rs"
  shows "rule_step r s (get_state e r) = (get_state e' r, msgs_of (r_name r) ms)"
  using assms
proof (induction rs arbitrary: e e' ms)
  case Nil
  then show ?case by simp
next
  case (Cons r' rs)
  obtain e1 ms1 where 1: "evaluate_rule r' s e = (e1, ms1)" by fastforce
  obtain e2 ms2 where 2: "evaluate_rules rs s e1 = (e2, ms2)" by fastforce
  note st1 = evaluate_rule_step [OF 1]
  have e': "e' = e2" "ms = ms1 @ ms2" using Cons.prems(1) 1 2 by simp_all
  show ?case
  proof (cases "r = r'")
    case True
    then have n: "r_name r \<notin> r_name ` set rs" using Cons.prems(2) by auto
    have "msgs_of (r_name r) ms1 = ms1"
      using st1 rule_step_msgs [of _ r' s "get_state e r'"] True by (intro msgs_of_all) force
    moreover have "get_state e2 r = get_state e1 r" "msgs_of (r_name r) ms2 = []"
      using rule_states_other [OF 2 n] by (simp_all add: get_state_def)
    ultimately show ?thesis using st1 True e' by simp
  next
    case False
    then have r: "r \<in> set rs" using Cons.prems by simp
    then have "r_name r \<in> r_name ` set rs" by simp
    then have ne: "r_name r \<noteq> r_name r'" using Cons.prems(2) by auto
    have "msgs_of (r_name r) ms1 = []"
      using st1 rule_step_msgs [of _ r' s "get_state e r'"] ne by (intro msgs_of_none) force
    moreover have "get_state e1 r = get_state e r" using st1 ne by (simp add: get_state_def)
    ultimately show ?thesis using Cons.IH [OF 2 _ r] Cons.prems(2) e' by simp
  qed
qed

lemma evaluate_rules_frame:
  "evaluate_rules rs s e = (e', ms) \<Longrightarrow>
   service_states e' = service_states e \<and> e_rules e' = e_rules e \<and>
   e_service_rules e' = e_service_rules e \<and> (\<forall>m \<in> set ms. msg_rule m \<noteq> None)"
proof (induction rs arbitrary: e e' ms)
  case (Cons r rs)
  obtain e1 ms1 where 1: "evaluate_rule r s e = (e1, ms1)" by fastforce
  obtain e2 ms2 where 2: "evaluate_rules rs s e1 = (e2, ms2)" by fastforce
  have "\<forall>m \<in> set ms1. msg_rule m \<noteq> None"
    using evaluate_rule_step [OF 1] rule_step_msgs [of _ r s "get_state e r"] by force
  then show ?case using Cons.prems Cons.IH [OF 2] 1 2 evaluate_rule_step [OF 1] by auto
qed simp

lemma evaluate_service_rule_frame:
  "evaluate_service_rule r s e = (e', ms) \<Longrightarrow>
   rule_states e' = rule_states e \<and> e_rules e' = e_rules e \<and>
   e_service_rules e' = e_service_rules e \<and> (\<forall>m \<in> set ms. msg_rule m = None)"
  by (auto simp: evaluate_service_rule_def Let_def split: option.splits if_splits)

lemma evaluate_service_rules_frame:
  "evaluate_service_rules rs s e = (e', ms) \<Longrightarrow>
   rule_states e' = rule_states e \<and> e_rules e' = e_rules e \<and>
   e_service_rules e' = e_service_rules e \<and> (\<forall>m \<in> set ms. msg_rule m = None)"
proof (induction rs arbitrary: e e' ms)
  case (Cons r rs)
  obtain e1 ms1 where 1: "evaluate_service_rule r s e = (e1, ms1)" by fastforce
  obtain e2 ms2 where 2: "evaluate_service_rules rs s e1 = (e2, ms2)" by fastforce
  show ?case
    using Cons.prems Cons.IH [OF 2] 1 2 evaluate_service_rule_frame [OF 1] by auto
qed simp

lemma evaluate_project:
  assumes "evaluate s e = (e', ms)" "distinct (map r_name (elems (e_rules e)))"
    "r \<in> set (elems (e_rules e))"
  shows "rule_step r s (get_state e r) = (get_state e' r, msgs_of (r_name r) ms)"
    and "e_rules e' = e_rules e" and "e_service_rules e' = e_service_rules e"
proof -
  obtain e1 ms1 where 1: "evaluate_rules (elems (e_rules e)) s e = (e1, ms1)" by fastforce
  obtain e2 ms2 where 2: "evaluate_service_rules (elems (e_service_rules e)) s e1 = (e2, ms2)"
    by fastforce
  have e': "e' = e2" "ms = ms1 @ ms2" using assms(1) 1 2 by (simp_all add: evaluate_def)
  note f2 = evaluate_service_rules_frame [OF 2]
  have "msgs_of (r_name r) ms2 = []" using f2 by (intro msgs_of_none) simp
  moreover have "get_state e2 r = get_state e1 r" using f2 by (simp add: get_state_def)
  ultimately show "rule_step r s (get_state e r) = (get_state e' r, msgs_of (r_name r) ms)"
    using evaluate_rules_project [OF 1 assms(2,3)] e' by simp
  show "e_rules e' = e_rules e" "e_service_rules e' = e_service_rules e"
    using f2 evaluate_rules_frame [OF 1] e' by simp_all
qed

subsection \<open>Runs of one rule\<close>

fun rule_run :: "rule \<Rightarrow> sample list \<Rightarrow> rule_state \<Rightarrow> rule_state \<times> message list list" where
  "rule_run r [] st = (st, [])"
| "rule_run r (s # ss) st =
     (let (st1, ms) = rule_step r s st; (st2, mss) = rule_run r ss st1 in (st2, ms # mss))"

lemma evaluate_all_project:
  assumes "evaluate_all ss e = (e', mss)" "distinct (map r_name (elems (e_rules e)))"
    "r \<in> set (elems (e_rules e))"
  shows "rule_run r ss (get_state e r) = (get_state e' r, map (msgs_of (r_name r)) mss)"
  using assms
proof (induction ss arbitrary: e e' mss)
  case Nil
  then show ?case by simp
next
  case (Cons s ss)
  obtain e1 ms where 1: "evaluate s e = (e1, ms)" by fastforce
  obtain e2 mss2 where 2: "evaluate_all ss e1 = (e2, mss2)" by fastforce
  note p = evaluate_project [OF 1 Cons.prems(2,3)]
  have "rule_run r ss (get_state e1 r) = (get_state e2 r, map (msgs_of (r_name r)) mss2)"
    using Cons.IH [OF 2] Cons.prems p by simp
  then show ?case using Cons.prems(1) 1 2 p by auto
qed

lemma rule_run_length: "rule_run r ss st = (st', mss) \<Longrightarrow> length mss = length ss"
  by (induction ss arbitrary: st mss) (auto split: prod.splits)

lemma rule_run_snoc:
  "rule_run r (ss @ [s]) st =
     (let (st1, mss) = rule_run r ss st; (st2, ms) = rule_step r s st1 in (st2, mss @ [ms]))"
  by (induction ss arbitrary: st) (auto simp: Let_def split: prod.splits)

text \<open>
  The history invariant of a rule started afresh. \<open>since_ok\<close>: the recorded start of the breach
  is the time of a sample from which on no sample was clear. \<open>firing_ok\<close>: a firing rule has
  notified at the time recorded, was not clear since, and has not notified again.
\<close>

definition since_ok :: "rule \<Rightarrow> sample list \<Rightarrow> rule_state \<Rightarrow> bool" where
  "since_ok r ss st \<longleftrightarrow> is_zero_time (condition_since st) \<or>
     (\<exists>j < length ss. breaching r (ss ! j) \<and> condition_since st = timestamp (ss ! j)
        \<and> (\<forall>k. j \<le> k \<and> k < length ss \<longrightarrow> \<not> clear r (ss ! k)))"

definition notified :: "message list \<Rightarrow> bool" where
  "notified ms \<longleftrightarrow> (\<exists>m \<in> set ms. case m of MsgBreach _ _ _ _ _ \<Rightarrow> True | MsgStillOver _ _ _ _ \<Rightarrow> True | _ \<Rightarrow> False)"

definition firing_ok :: "rule \<Rightarrow> sample list \<Rightarrow> message list list \<Rightarrow> rule_state \<Rightarrow> bool" where
  "firing_ok r ss mss st \<longleftrightarrow> (firing st \<longrightarrow>
     (\<exists>j < length ss. notified (mss ! j) \<and> last_fired st = timestamp (ss ! j)
        \<and> (\<forall>k. j < k \<and> k < length ss \<longrightarrow> mss ! k = [] \<and> \<not> clear r (ss ! k))))"

definition hist_ok :: "rule \<Rightarrow> sample list \<Rightarrow> message list list \<Rightarrow> rule_state \<Rightarrow> bool" where
  "hist_ok r ss mss st \<longleftrightarrow> length mss = length ss \<and> since_ok r ss st \<and> firing_ok r ss mss st"

lemma hist_ok_init: "hist_ok r [] [] zero_rule_state"
  by (simp add: hist_ok_def since_ok_def firing_ok_def zero_rule_state_def is_zero_time_def zero_time_def)

lemma since_ok_extend:
  assumes "since_ok r ss st" "\<not> clear r s"
  shows "since_ok r (ss @ [s]) st"
proof (cases "is_zero_time (condition_since st)")
  case True
  then show ?thesis by (simp add: since_ok_def)
next
  case False
  then obtain j where "j < length ss" "breaching r (ss ! j)" "condition_since st = timestamp (ss ! j)"
    "\<forall>k. j \<le> k \<and> k < length ss \<longrightarrow> \<not> clear r (ss ! k)"
    using assms(1) by (auto simp: since_ok_def)
  then show ?thesis
    using assms(2) unfolding since_ok_def
    by (intro disjI2 exI [of _ j]) (auto simp: nth_append less_Suc_eq)
qed

lemma since_ok_cong: "condition_since st = condition_since st' \<Longrightarrow> since_ok r ss st = since_ok r ss st'"
  by (simp add: since_ok_def)

lemma firing_ok_extend:
  assumes "firing_ok r ss mss st" "length mss = length ss" "\<not> clear r s"
    "firing st' = firing st" "last_fired st' = last_fired st"
  shows "firing_ok r (ss @ [s]) (mss @ [[]]) st'"
proof (cases "firing st")
  case True
  then obtain j where "j < length ss" "notified (mss ! j)" "last_fired st = timestamp (ss ! j)"
    "\<forall>k. j < k \<and> k < length ss \<longrightarrow> mss ! k = [] \<and> \<not> clear r (ss ! k)"
    using assms(1) by (auto simp: firing_ok_def)
  then show ?thesis
    using assms unfolding firing_ok_def
    by (intro impI exI [of _ j]) (auto simp: nth_append less_Suc_eq)
next
  case False
  then show ?thesis using assms by (simp add: firing_ok_def)
qed

lemma firing_ok_now:
  "length mss = length ss \<Longrightarrow> notified ms \<Longrightarrow> last_fired st = timestamp s \<Longrightarrow>
   firing_ok r (ss @ [s]) (mss @ [ms]) st"
  unfolding firing_ok_def by (intro impI exI [of _ "length ss"]) (auto simp: nth_append)

lemma observe_cases:
  obtains "observe r s = None" "\<not> clear r s" "\<not> breaching r s"
  | v where "observe r s = Some (v, True)" "breaching r s" "\<not> clear r s"
  | v where "observe r s = Some (v, False)" "clear r s" "\<not> breaching r s"
proof (cases "observe r s")
  case None
  then show ?thesis by (intro that(1)) (auto simp: clear_def breaching_def)
next
  case (Some p)
  then obtain v b where "observe r s = Some (v, b)" by (cases p) auto
  then show ?thesis
    by (cases b) (auto simp: clear_def breaching_def intro: that(2,3))
qed

text \<open>The state after the \<open>since\<close> update of a breaching sample, and where that time comes from.\<close>

definition since_now :: "sample \<Rightarrow> rule_state \<Rightarrow> time" where
  "since_now s st = (if is_zero_time (condition_since st) then timestamp s else condition_since st)"

lemma since_now_ok:
  assumes "since_ok r ss st" "breaching r s" "\<not> clear r s"
  shows "\<exists>j \<le> length ss. breaching r ((ss @ [s]) ! j) \<and> since_now s st = timestamp ((ss @ [s]) ! j)
           \<and> (\<forall>k. j \<le> k \<and> k \<le> length ss \<longrightarrow> \<not> clear r ((ss @ [s]) ! k))"
proof (cases "is_zero_time (condition_since st)")
  case True
  then show ?thesis
    using assms by (intro exI [of _ "length ss"]) (auto simp: since_now_def nth_append)
next
  case False
  then obtain j where "j < length ss" "breaching r (ss ! j)" "condition_since st = timestamp (ss ! j)"
    "\<forall>k. j \<le> k \<and> k < length ss \<longrightarrow> \<not> clear r (ss ! k)"
    using assms(1) by (auto simp: since_ok_def)
  then show ?thesis
    using assms(3) False
    by (intro exI [of _ j]) (auto simp: since_now_def nth_append not_less)
qed

lemma since_ok_now:
  assumes "since_ok r ss st" "breaching r s" "\<not> clear r s" "condition_since st' = since_now s st"
  shows "since_ok r (ss @ [s]) st'"
proof -
  obtain j where "j \<le> length ss" "breaching r ((ss @ [s]) ! j)"
    "since_now s st = timestamp ((ss @ [s]) ! j)"
    "\<forall>k. j \<le> k \<and> k \<le> length ss \<longrightarrow> \<not> clear r ((ss @ [s]) ! k)"
    using since_now_ok [OF assms(1-3)] by blast
  then show ?thesis
    using assms(4) unfolding since_ok_def by (intro disjI2 exI [of _ j]) auto
qed

text \<open>The five outcomes of a step.\<close>

lemma rule_step_cases:
  assumes "rule_step r s st = (st', ms)"
  obtains (skip) "observe r s = None" "\<not> clear r s" "st' = st" "ms = []"
  | (clear) v where "observe r s = Some (v, False)" "clear r s" "firing st' = False"
      "condition_since st' = zero_time"
      "ms = (if firing st then [MsgRecovered (r_name r) (r_metric r) v] else [])"
  | (quiet) "breaching r s" "\<not> clear r s" "ms = []" "condition_since st' = since_now s st"
      "firing st' = firing st" "last_fired st' = last_fired st"
      "\<not> firing st \<Longrightarrow> \<not> r_for r \<le> time_sub (timestamp s) (since_now s st)"
      "firing st \<Longrightarrow> \<not> (0 < r_repeat r \<and> r_repeat r \<le> time_sub (timestamp s) (last_fired st))"
  | (fire) v where "breaching r s" "\<not> clear r s" "\<not> firing st" "firing st'"
      "condition_since st' = since_now s st" "last_fired st' = timestamp s"
      "r_for r \<le> time_sub (timestamp s) (since_now s st)"
      "ms = [MsgBreach (r_name r) (r_metric r) v (r_threshold r) (r_for r)]"
  | (repeat) v where "breaching r s" "\<not> clear r s" "firing st" "firing st'"
      "condition_since st' = since_now s st" "last_fired st' = timestamp s"
      "0 < r_repeat r" "r_repeat r \<le> time_sub (timestamp s) (last_fired st)"
      "ms = [MsgStillOver (r_name r) (r_metric r) v (r_threshold r)]"
proof (cases r s rule: observe_cases)
  case 1
  then show ?thesis using assms by (intro skip) (auto simp: rule_step_def)
next
  case (2 v)
  show ?thesis
  proof (cases "firing st")
    case True
    with 2 assms show ?thesis
      by (auto simp: rule_step_def Let_def since_now_def split: if_splits intro: quiet repeat)
  next
    case False
    with 2 assms show ?thesis
      by (auto simp: rule_step_def Let_def since_now_def split: if_splits intro: quiet fire)
  qed
next
  case (3 v)
  then show ?thesis using assms by (intro clear [of v]) (auto simp: rule_step_def)
qed

lemma notified_simps [simp]:
  "notified [MsgBreach a b c d e]" "notified [MsgStillOver a b c d]"
  "\<not> notified []" "\<not> notified [MsgRecovered a b c]"
  by (simp_all add: notified_def)

lemma hist_ok_step:
  assumes h: "hist_ok r ss mss st" and s: "rule_step r s st = (st', ms)"
  shows "hist_ok r (ss @ [s]) (mss @ [ms]) st'"
proof -
  have l: "length mss = length ss" and so: "since_ok r ss st" and fo: "firing_ok r ss mss st"
    using h by (simp_all add: hist_ok_def)
  from s show ?thesis
  proof (cases rule: rule_step_cases)
    case skip
    then show ?thesis
      using l so fo by (simp add: hist_ok_def since_ok_extend firing_ok_extend)
  next
    case (clear v)
    then show ?thesis
      using l by (simp add: hist_ok_def since_ok_def firing_ok_def is_zero_time_def zero_time_def)
  next
    case quiet
    then show ?thesis
      using l so fo by (simp add: hist_ok_def since_ok_now firing_ok_extend)
  next
    case (fire v)
    then show ?thesis
      using l so by (simp add: hist_ok_def since_ok_now firing_ok_now)
  next
    case (repeat v)
    then show ?thesis
      using l so by (simp add: hist_ok_def since_ok_now firing_ok_now)
  qed
qed

lemma rule_run_hist: "rule_run r ss zero_rule_state = (st, mss) \<Longrightarrow> hist_ok r ss mss st"
proof (induction ss arbitrary: st mss rule: rev_induct)
  case Nil
  then show ?case by (simp add: hist_ok_init)
next
  case (snoc s ss)
  obtain st1 mss1 where 1: "rule_run r ss zero_rule_state = (st1, mss1)" by fastforce
  obtain st2 ms where 2: "rule_step r s st1 = (st2, ms)" by fastforce
  show ?case using snoc.prems hist_ok_step [OF snoc.IH [OF 1] 2] 1 2 by (simp add: rule_run_snoc)
qed

lemma rule_run_take:
  assumes "rule_run r ss st = (st', mss)" "i < length ss"
  obtains st1 st2 where "rule_run r (take i ss) st = (st1, take i mss)"
    "rule_step r (ss ! i) st1 = (st2, mss ! i)"
  using assms
proof (induction ss arbitrary: i st mss thesis)
  case Nil
  then show ?case by simp
next
  case (Cons s ss)
  obtain st1 ms where 1: "rule_step r s st = (st1, ms)" by fastforce
  obtain st2 mss2 where 2: "rule_run r ss st1 = (st2, mss2)" by fastforce
  have m: "mss = ms # mss2" "st' = st2" using Cons.prems(2) 1 2 by simp_all
  show ?case
  proof (cases i)
    case 0
    then show ?thesis using 1 m Cons.prems(1) [of st st1] by simp
  next
    case (Suc j)
    obtain sta stb where "rule_run r (take j ss) st1 = (sta, take j mss2)"
      "rule_step r (ss ! j) sta = (stb, mss2 ! j)"
      using Cons.IH [of j st1 mss2] 2 m Cons.prems(3) Suc by auto
    then show ?thesis using 1 m Suc Cons.prems(1) [of sta stb] by simp
  qed
qed

subsection \<open>What a run of one rule tells\<close>

lemma rule_run_at:
  assumes "rule_run r ss zero_rule_state = (st', mss)" "i < length ss"
  obtains st1 st2 where "hist_ok r (take i ss) (take i mss) st1"
    "rule_step r (ss ! i) st1 = (st2, mss ! i)"
    "rule_run r (take i ss) zero_rule_state = (st1, take i mss)"
  using rule_run_take [OF assms] rule_run_hist by metis

text \<open>"An event at some position and no obstacle after it", when one more position is added.\<close>

lemma last_event_snoc:
  assumes "length ys = length xs"
  shows "(\<exists>j < length (xs @ [x]). P ((ys @ [y]) ! j) \<and>
            (\<forall>k. j < k \<and> k < length (xs @ [x]) \<longrightarrow> \<not> C ((xs @ [x]) ! k))) \<longleftrightarrow>
         P y \<or> (\<not> C x \<and> (\<exists>j < length xs. P (ys ! j) \<and> (\<forall>k. j < k \<and> k < length xs \<longrightarrow> \<not> C (xs ! k))))"
    (is "?L \<longleftrightarrow> ?R")
proof
  assume ?L
  then obtain j where j: "j < Suc (length xs)" "P ((ys @ [y]) ! j)"
    "\<And>k. j < k \<Longrightarrow> k < Suc (length xs) \<Longrightarrow> \<not> C ((xs @ [x]) ! k)" by auto
  show ?R
  proof (cases "j = length xs")
    case True
    then show ?thesis using j(2) assms by (simp add: nth_append)
  next
    case False
    then have jl: "j < length xs" using j(1) by simp
    have "\<not> C x" using j(3) [of "length xs"] jl by simp
    moreover have "\<not> C (xs ! k)" if "j < k" "k < length xs" for k
      using j(3) [of k] that by (simp add: nth_append)
    ultimately show ?thesis using j(2) jl assms by (auto simp: nth_append)
  qed
next
  assume ?R
  then consider "P y" | j where "\<not> C x" "j < length xs" "P (ys ! j)"
    "\<And>k. j < k \<Longrightarrow> k < length xs \<Longrightarrow> \<not> C (xs ! k)" by blast
  then show ?L
  proof cases
    case 1
    then show ?thesis using assms by (intro exI [of _ "length xs"]) (auto simp: nth_append)
  next
    case (2 j)
    have "\<not> C ((xs @ [x]) ! k)" if "j < k" "k < Suc (length xs)" for k
      using 2 that by (cases "k = length xs") (simp_all add: nth_append)
    then show ?thesis using 2 assms by (intro exI [of _ j]) (simp add: nth_append)
  qed
qed

text \<open>A rule is firing exactly when it has notified since it was last clear.\<close>

lemma firing_iff:
  assumes "rule_run r ss zero_rule_state = (st, mss)"
  shows "firing st \<longleftrightarrow> (\<exists>j < length ss. notified (mss ! j) \<and>
           (\<forall>k. j < k \<and> k < length ss \<longrightarrow> \<not> clear r (ss ! k)))"
  using assms
proof (induction ss arbitrary: st mss rule: rev_induct)
  case Nil
  then show ?case by (auto simp: zero_rule_state_def)
next
  case (snoc s ss)
  obtain st1 mss1 where 1: "rule_run r ss zero_rule_state = (st1, mss1)" by fastforce
  obtain st2 ms where 2: "rule_step r s st1 = (st2, ms)" by fastforce
  have l: "length mss1 = length ss" using rule_run_length [OF 1] .
  have e: "st = st2" "mss = mss1 @ [ms]" using snoc.prems 1 2 by (simp_all add: rule_run_snoc)
  let ?Q = "\<lambda>xs ys. \<exists>j < length xs. notified (ys ! j) \<and>
           (\<forall>k. j < k \<and> k < length xs \<longrightarrow> \<not> clear r (xs ! k))"
  have keep: "?Q (ss @ [s]) mss \<longleftrightarrow> notified ms \<or> (\<not> clear r s \<and> ?Q ss mss1)"
    unfolding e by (rule last_event_snoc [OF l])
  show ?case using 2 unfolding keep
  proof (cases rule: rule_step_cases)
    case (clear v)
    then show "firing st = (notified ms \<or> \<not> clear r s \<and> ?Q ss mss1)"
      using e by (cases "firing st1") simp_all
  qed (use snoc.IH [OF 1] e in simp_all)
qed

text \<open>The recorded start of a breach is never later than any of its samples.\<close>

definition timely :: "sample list \<Rightarrow> bool" where
  "timely ss \<longleftrightarrow> sorted (map timestamp ss) \<and> (\<forall>s \<in> set ss. \<not> is_zero_time (timestamp s))"

lemma timely_append: "timely (ss @ [s]) \<longleftrightarrow>
    timely ss \<and> (\<forall>t \<in> set ss. timestamp t \<le> timestamp s) \<and> \<not> is_zero_time (timestamp s)"
  by (auto simp: timely_def sorted_append)

lemma since_earliest:
  assumes "rule_run r ss zero_rule_state = (st, mss)" "timely ss"
    "j < length ss" "breaching r (ss ! j)"
    "\<forall>k. j \<le> k \<and> k < length ss \<longrightarrow> \<not> clear r (ss ! k)"
  shows "\<not> is_zero_time (condition_since st) \<and> condition_since st \<le> timestamp (ss ! j)"
  using assms
proof (induction ss arbitrary: st mss j rule: rev_induct)
  case Nil
  then show ?case by simp
next
  case (snoc s ss)
  obtain st1 mss1 where 1: "rule_run r ss zero_rule_state = (st1, mss1)" by fastforce
  obtain st2 ms where 2: "rule_step r s st1 = (st2, ms)" by fastforce
  have e: "st = st2" using snoc.prems 1 2 by (simp add: rule_run_snoc)
  have tm: "timely ss" "\<forall>t \<in> set ss. timestamp t \<le> timestamp s" "\<not> is_zero_time (timestamp s)"
    using snoc.prems(2) by (simp_all add: timely_append)
  have nc: "\<not> clear r s" using snoc.prems(3,5) by (auto simp: nth_append split: if_splits)
  have old: "\<not> is_zero_time (condition_since st1) \<and> condition_since st1 \<le> timestamp (ss ! j)"
    if "j < length ss" using snoc.IH [OF 1 tm(1) that] snoc.prems that
    by (auto simp: nth_append split: if_splits)
  have so: "since_ok r ss st1" using rule_run_hist [OF 1] by (simp add: hist_ok_def)
  have now: "since_now s st1 \<le> timestamp s"
    using so tm(2) by (auto simp: since_now_def since_ok_def)
  have "condition_since st2 = since_now s st1 \<or> j < length ss \<and> condition_since st2 = condition_since st1"
    using 2
  proof (cases rule: rule_step_cases)
    case skip
    then have "\<not> breaching r s" by (auto simp: breaching_def)
    then show ?thesis using snoc.prems(3,4) skip by (auto simp: nth_append split: if_splits)
  qed (use nc in simp_all)
  then show ?case
    using old now e tm(3) snoc.prems(3)
    by (auto simp: since_now_def nth_append less_Suc_eq split: if_splits)
qed

lemma rule_run_breach:
  assumes "rule_run r ss zero_rule_state = (st, mss)" "i < length ss"
    "MsgBreach n m v t d \<in> set (mss ! i)"
  shows "\<exists>j \<le> i. breaching r (ss ! j) \<and> (\<forall>k. j \<le> k \<and> k \<le> i \<longrightarrow> \<not> clear r (ss ! k))
           \<and> r_for r \<le> time_sub (timestamp (ss ! i)) (timestamp (ss ! j))"
proof -
  obtain st1 st2 where h: "hist_ok r (take i ss) (take i mss) st1"
    and s: "rule_step r (ss ! i) st1 = (st2, mss ! i)" using rule_run_at [OF assms(1,2)] by metis
  have tk: "take i ss @ [ss ! i] = take (Suc i) ss" using assms(2) by (simp add: take_Suc_conv_app_nth)
  from s show ?thesis
  proof (cases rule: rule_step_cases)
    case (fire v)
    then obtain j where "j \<le> i" "breaching r (ss ! j)" "since_now (ss ! i) st1 = timestamp (ss ! j)"
      "\<forall>k. j \<le> k \<and> k \<le> i \<longrightarrow> \<not> clear r (ss ! k)"
      using since_now_ok [of r "take i ss" st1 "ss ! i"] h assms(2)
      by (auto simp: hist_ok_def tk min_def)
    then show ?thesis using fire by metis
  qed (use assms(3) in \<open>auto split: if_splits\<close>)
qed

lemma rule_run_still:
  assumes "rule_run r ss zero_rule_state = (st, mss)" "i < length ss"
    "MsgStillOver n m v t \<in> set (mss ! i)"
  shows "0 < r_repeat r \<and> (\<exists>j < i. notified (mss ! j)
           \<and> (\<forall>k. j < k \<and> k < i \<longrightarrow> mss ! k = [] \<and> \<not> clear r (ss ! k))
           \<and> r_repeat r \<le> time_sub (timestamp (ss ! i)) (timestamp (ss ! j)))"
proof -
  obtain st1 st2 where h: "hist_ok r (take i ss) (take i mss) st1"
    and s: "rule_step r (ss ! i) st1 = (st2, mss ! i)" using rule_run_at [OF assms(1,2)] by metis
  have l: "length mss = length ss" using rule_run_length [OF assms(1)] .
  from s show ?thesis
  proof (cases rule: rule_step_cases)
    case (repeat v)
    then obtain j where "j < i" "notified (mss ! j)" "last_fired st1 = timestamp (ss ! j)"
      "\<forall>k. j < k \<and> k < i \<longrightarrow> mss ! k = [] \<and> \<not> clear r (ss ! k)"
      using h assms(2) l by (auto simp: hist_ok_def firing_ok_def)
    then show ?thesis using repeat by metis
  qed (use assms(3) in \<open>auto split: if_splits\<close>)
qed

lemma rule_run_recovered:
  assumes "rule_run r ss zero_rule_state = (st, mss)" "i < length ss"
  shows "(\<exists>m v. MsgRecovered (r_name r) m v \<in> set (mss ! i)) \<longleftrightarrow>
     clear r (ss ! i) \<and> (\<exists>j < i. notified (mss ! j) \<and> (\<forall>k. j < k \<and> k < i \<longrightarrow> \<not> clear r (ss ! k)))"
proof -
  obtain st1 st2 where s: "rule_step r (ss ! i) st1 = (st2, mss ! i)"
    and rr: "rule_run r (take i ss) zero_rule_state = (st1, take i mss)"
    using rule_run_at [OF assms(1,2)] by metis
  have f: "firing st1 \<longleftrightarrow> (\<exists>j < i. notified (mss ! j) \<and> (\<forall>k. j < k \<and> k < i \<longrightarrow> \<not> clear r (ss ! k)))"
    using firing_iff [OF rr] assms(2) by (auto simp: min_def)
  from s show ?thesis unfolding f [symmetric]
    by (cases rule: rule_step_cases) (auto split: if_splits)
qed

lemma rule_run_notifies:
  assumes "rule_run r ss zero_rule_state = (st, mss)" "i < length ss" "timely ss" "j \<le> i"
    "breaching r (ss ! j)" "breaching r (ss ! i)" "\<forall>k. j \<le> k \<and> k \<le> i \<longrightarrow> \<not> clear r (ss ! k)"
    "r_for r \<le> time_sub (timestamp (ss ! i)) (timestamp (ss ! j))"
  shows "\<exists>k \<le> i. notified (mss ! k) \<and> (\<forall>l. k < l \<and> l \<le> i \<longrightarrow> \<not> clear r (ss ! l))"
proof -
  obtain st1 st2 where s: "rule_step r (ss ! i) st1 = (st2, mss ! i)"
    and rr: "rule_run r (take i ss) zero_rule_state = (st1, take i mss)"
    using rule_run_at [OF assms(1,2)] by metis
  have tk: "take (Suc i) ss = take i ss @ [ss ! i]" "take (Suc i) mss = take i mss @ [mss ! i]"
    using assms(2) rule_run_length [OF assms(1)] by (simp_all add: take_Suc_conv_app_nth)
  have r2: "rule_run r (take (Suc i) ss) zero_rule_state = (st2, take (Suc i) mss)"
    using rr s by (simp add: tk rule_run_snoc)
  have tm: "timely (take (Suc i) ss)"
    using assms(3) set_take_subset [of "Suc i" ss] by (auto simp: timely_def take_map [symmetric] sorted_wrt_take)
  have nc: "\<not> clear r (ss ! i)" using assms by blast
  have "condition_since st2 \<le> timestamp (ss ! j)"
    using since_earliest [OF r2 tm, of j] assms by (auto simp: less_Suc_eq_le min_def)
  note since_le = this
  from s have "firing st2"
  proof (cases rule: rule_step_cases)
    case quiet
    have "time_sub (timestamp (ss ! i)) (timestamp (ss ! j))
        \<le> time_sub (timestamp (ss ! i)) (since_now (ss ! i) st1)"
      using quiet since_le unfolding time_sub_def by (intro sat_int64_mono) simp
    then show ?thesis using quiet assms(8) by fastforce
  next
    case skip
    then show ?thesis using assms(6) by (auto simp: breaching_def)
  qed (use nc in simp_all)
  moreover have "length (take (Suc i) ss) = Suc i" using assms(2) by simp
  ultimately obtain k where "k < Suc i" "notified (take (Suc i) mss ! k)"
    "\<forall>l. k < l \<and> l < Suc i \<longrightarrow> \<not> clear r (take (Suc i) ss ! l)"
    using firing_iff [OF r2] by metis
  then show ?thesis by (intro exI [of _ k]) (auto simp: less_Suc_eq_le)
qed

text \<open>
  The shape of a rule's notifications: a breach opens an episode, repeats may follow while it is
  open, a recovery closes it.
\<close>

fun episode_trace :: "bool \<Rightarrow> message list \<Rightarrow> bool" where
  "episode_trace open_ep [] = True"
| "episode_trace open_ep (MsgBreach _ _ _ _ _ # ms) = (\<not> open_ep \<and> episode_trace True ms)"
| "episode_trace open_ep (MsgStillOver _ _ _ _ # ms) = (open_ep \<and> episode_trace True ms)"
| "episode_trace open_ep (MsgRecovered _ _ _ # ms) = (open_ep \<and> episode_trace False ms)"
| "episode_trace open_ep (_ # ms) = False"

lemma rule_run_episode:
  "rule_run r ss st = (st', mss) \<Longrightarrow> episode_trace (firing st) (concat mss)"
proof (induction ss arbitrary: st mss)
  case Nil
  then show ?case by simp
next
  case (Cons s ss)
  obtain st1 ms where 1: "rule_step r s st = (st1, ms)" by fastforce
  obtain st2 mss2 where 2: "rule_run r ss st1 = (st2, mss2)" by fastforce
  have m: "mss = ms # mss2" "st2 = st'" using Cons.prems 1 2 by simp_all
  from 1 show ?case
    by (cases rule: rule_step_cases) (use Cons.IH [OF 2 [unfolded m(2)]] m in \<open>simp_all split: if_splits\<close>)
qed

text \<open>The configured run: rules set once on a new evaluator, then a sequence of samples.\<close>

definition agent_run :: "rule list \<Rightarrow> service_rule list \<Rightarrow> sample list \<Rightarrow> message list list" where
  "agent_run rs srs ss = snd (evaluate_all ss (set_rules (Some rs) (Some srs) new_evaluator))"

lemma agent_run_rule:
  assumes "distinct (map r_name rs)" "r \<in> set rs"
  obtains st where "rule_run r ss zero_rule_state = (st, map (msgs_of (r_name r)) (agent_run rs srs ss))"
proof -
  let ?e = "set_rules (Some rs) (Some srs) new_evaluator"
  obtain e' mss where 1: "evaluate_all ss ?e = (e', mss)" by fastforce
  have "get_state ?e r = zero_rule_state" by (simp add: get_state_def set_rules_def new_evaluator_def)
  then have "rule_run r ss zero_rule_state = (get_state e' r, map (msgs_of (r_name r)) mss)"
    using evaluate_all_project [OF 1, of r] assms by (simp add: set_rules_def)
  then show ?thesis using that 1 by (simp add: agent_run_def)
qed

lemma agent_run_length: "length (agent_run rs srs ss) = length ss"
proof -
  have "evaluate_all ss e = (e', mss) \<Longrightarrow> length mss = length ss" for e e' mss
    by (induction ss arbitrary: e mss) (auto split: prod.splits)
  then show ?thesis unfolding agent_run_def by (metis prod.collapse)
qed

lemma in_msgs_of: "msg_rule m = Some n \<Longrightarrow> m \<in> set ms \<longleftrightarrow> m \<in> set (msgs_of n ms)"
  by (simp add: msgs_of_def)

subsection \<open>One service rule\<close>

text \<open>What a service rule sees in a sample, and the last thing it has seen in a history.\<close>

definition svc_obs :: "string \<Rightarrow> sample \<Rightarrow> bool option" where
  "svc_obs n s = map_option ss_running (List.find (\<lambda>st. ss_name st = n) (services s))"

definition last_obs :: "string \<Rightarrow> sample list \<Rightarrow> bool option" where
  "last_obs n ss = foldl (\<lambda>a s. case svc_obs n s of None \<Rightarrow> a | Some b \<Rightarrow> Some b) None ss"

definition service_step ::
  "service_rule \<Rightarrow> sample \<Rightarrow> service_state option \<Rightarrow> service_state option \<times> message list" where
  "service_step r s st =
     (case svc_obs (sr_service r) s of
        None \<Rightarrow> (st, [])
      | Some now \<Rightarrow>
          (case st of
             None \<Rightarrow> (Some \<lparr>running = now, svc_last_fired = zero_time\<rparr>, [])
           | Some p \<Rightarrow>
               (let still = (\<not> running p \<and> \<not> now \<and> 0 < sr_repeat r
                       \<and> sr_repeat r \<le> time_sub (timestamp s) (svc_last_fired p))
                in if running p \<and> \<not> now
                   then (Some \<lparr>running = now, svc_last_fired = timestamp s\<rparr>,
                         [MsgDown (sr_name r) (sr_service r)])
                   else if still
                   then (Some \<lparr>running = now, svc_last_fired = timestamp s\<rparr>,
                         [MsgStillDown (sr_name r) (sr_service r)])
                   else if \<not> running p \<and> now
                   then (Some \<lparr>running = now, svc_last_fired = zero_time\<rparr>,
                         if sr_notify_recovery r then [MsgUp (sr_name r) (sr_service r)] else [])
                   else (Some \<lparr>running = now, svc_last_fired = svc_last_fired p\<rparr>, []))))"

lemma evaluate_service_rule_eq:
  "evaluate_service_rule r s e =
     (if svc_obs (sr_service r) s = None then (e, [])
      else (let (st, ms) = service_step r s (service_states e (sr_service r))
            in (e\<lparr>service_states := (service_states e)(sr_service r := st)\<rparr>, ms)))"
proof (cases "List.find (\<lambda>st. ss_name st = sr_service r) (services s)")
  case None
  then show ?thesis by (simp add: evaluate_service_rule_def svc_obs_def)
next
  case f: (Some cur)
  show ?thesis
  proof (cases "service_states e (sr_service r)")
    case None
    with f show ?thesis by (simp add: evaluate_service_rule_def service_step_def svc_obs_def)
  next
    case (Some p)
    with f show ?thesis
      by (cases "running p"; cases "ss_running cur")
         (simp_all add: evaluate_service_rule_def service_step_def svc_obs_def Let_def)
  qed
qed

fun msg_service :: "message \<Rightarrow> string option" where
  "msg_service (MsgDown _ n) = Some n"
| "msg_service (MsgStillDown _ n) = Some n"
| "msg_service (MsgUp _ n) = Some n"
| "msg_service _ = None"

definition svc_msgs :: "string \<Rightarrow> message list \<Rightarrow> message list" where
  "svc_msgs n ms = filter (\<lambda>m. msg_service m = Some n) ms"

lemma svc_msgs_simps [simp]:
  "svc_msgs n [] = []" "svc_msgs n (ms @ ms') = svc_msgs n ms @ svc_msgs n ms'"
  by (simp_all add: svc_msgs_def)

lemma svc_msgs_all: "(\<And>m. m \<in> set ms \<Longrightarrow> msg_service m = Some n) \<Longrightarrow> svc_msgs n ms = ms"
  by (simp add: svc_msgs_def filter_id_conv)

lemma svc_msgs_none: "(\<And>m. m \<in> set ms \<Longrightarrow> msg_service m \<noteq> Some n) \<Longrightarrow> svc_msgs n ms = []"
  by (simp add: svc_msgs_def filter_empty_conv)

lemma service_step_msgs: "m \<in> set (snd (service_step r s st)) \<Longrightarrow> msg_service m = Some (sr_service r)"
  by (auto simp: service_step_def Let_def split: option.splits if_splits)

lemma evaluate_service_rule_step:
  assumes "evaluate_service_rule r s e = (e', ms)"
  shows "service_step r s (service_states e (sr_service r)) = (service_states e' (sr_service r), ms)
     \<and> (\<forall>n. n \<noteq> sr_service r \<longrightarrow> service_states e' n = service_states e n)"
proof (cases "svc_obs (sr_service r) s = None")
  case True
  with assms show ?thesis by (simp add: evaluate_service_rule_eq service_step_def)
next
  case False
  obtain st ms' where "service_step r s (service_states e (sr_service r)) = (st, ms')" by fastforce
  with assms False show ?thesis by (auto simp: evaluate_service_rule_eq)
qed

lemma service_states_other:
  "evaluate_service_rules rs s e = (e', ms) \<Longrightarrow> n \<notin> sr_service ` set rs \<Longrightarrow>
   service_states e' n = service_states e n \<and> svc_msgs n ms = []"
proof (induction rs arbitrary: e e' ms)
  case Nil
  then show ?case by simp
next
  case (Cons r rs)
  obtain e1 ms1 where 1: "evaluate_service_rule r s e = (e1, ms1)" by fastforce
  obtain e2 ms2 where 2: "evaluate_service_rules rs s e1 = (e2, ms2)" by fastforce
  have "svc_msgs n ms1 = []"
    using Cons.prems(2) evaluate_service_rule_step [OF 1]
      service_step_msgs [of _ r s "service_states e (sr_service r)"]
    by (intro svc_msgs_none) force
  then show ?case
    using Cons.prems Cons.IH [OF 2] 1 2 evaluate_service_rule_step [OF 1] by auto
qed

lemma evaluate_service_rules_project:
  assumes "evaluate_service_rules rs s e = (e', ms)" "distinct (map sr_service rs)" "r \<in> set rs"
  shows "service_step r s (service_states e (sr_service r)) =
     (service_states e' (sr_service r), svc_msgs (sr_service r) ms)"
  using assms
proof (induction rs arbitrary: e e' ms)
  case Nil
  then show ?case by simp
next
  case (Cons r' rs)
  obtain e1 ms1 where 1: "evaluate_service_rule r' s e = (e1, ms1)" by fastforce
  obtain e2 ms2 where 2: "evaluate_service_rules rs s e1 = (e2, ms2)" by fastforce
  note st1 = evaluate_service_rule_step [OF 1]
  note own = service_step_msgs [of _ r' s "service_states e (sr_service r')"]
  have e': "e' = e2" "ms = ms1 @ ms2" using Cons.prems(1) 1 2 by simp_all
  show ?case
  proof (cases "r = r'")
    case True
    then have n: "sr_service r \<notin> sr_service ` set rs" using Cons.prems(2) by auto
    have "svc_msgs (sr_service r) ms1 = ms1"
      using st1 own True by (intro svc_msgs_all) force
    then show ?thesis using st1 True e' service_states_other [OF 2 n] by simp
  next
    case False
    then have r: "r \<in> set rs" using Cons.prems by simp
    then have "sr_service r \<in> sr_service ` set rs" by simp
    then have ne: "sr_service r \<noteq> sr_service r'" using Cons.prems(2) by auto
    have "svc_msgs (sr_service r) ms1 = []"
      using st1 own ne by (intro svc_msgs_none) force
    then show ?thesis using Cons.IH [OF 2 _ r] Cons.prems(2) e' st1 ne by simp
  qed
qed

lemma evaluate_service_project:
  assumes "evaluate s e = (e', ms)" "distinct (map sr_service (elems (e_service_rules e)))"
    "r \<in> set (elems (e_service_rules e))"
  shows "service_step r s (service_states e (sr_service r)) =
     (service_states e' (sr_service r), svc_msgs (sr_service r) ms)"
proof -
  obtain e1 ms1 where 1: "evaluate_rules (elems (e_rules e)) s e = (e1, ms1)" by fastforce
  obtain e2 ms2 where 2: "evaluate_service_rules (elems (e_service_rules e)) s e1 = (e2, ms2)"
    by fastforce
  have e': "e' = e2" "ms = ms1 @ ms2" using assms(1) 1 2 by (simp_all add: evaluate_def)
  note f1 = evaluate_rules_frame [OF 1]
  have m: "msg_rule m \<noteq> None \<Longrightarrow> msg_service m = None" for m by (cases m) simp_all
  have "svc_msgs (sr_service r) ms1 = []" using f1 m by (intro svc_msgs_none) force
  then show ?thesis
    using evaluate_service_rules_project [OF 2, of r] assms f1 e' by simp
qed

lemma evaluate_keeps_rules:
  "evaluate s e = (e', ms) \<Longrightarrow> e_rules e' = e_rules e \<and> e_service_rules e' = e_service_rules e"
  by (auto simp: evaluate_def split: prod.splits
      dest!: evaluate_rules_frame evaluate_service_rules_frame)

lemma last_obs_snoc: "last_obs n (ss @ [s]) = (case svc_obs n s of None \<Rightarrow> last_obs n ss | Some b \<Rightarrow> Some b)"
  by (simp add: last_obs_def split: option.splits)

lemma last_obs_Nil [simp]: "last_obs n [] = None"
  by (simp add: last_obs_def)

lemma service_step_running:
  "service_step r s st = (st', ms) \<Longrightarrow>
   map_option running st' =
     (case svc_obs (sr_service r) s of None \<Rightarrow> map_option running st | Some b \<Rightarrow> Some b)"
  by (auto simp: service_step_def Let_def split: option.splits if_splits)

lemma evaluate_all_snoc:
  "evaluate_all (ss @ [s]) e =
     (let (e1, mss) = evaluate_all ss e; (e2, ms) = evaluate s e1 in (e2, mss @ [ms]))"
  by (induction ss arbitrary: e) (auto simp: Let_def split: prod.splits)

lemma evaluate_all_take:
  assumes "evaluate_all ss e = (e', mss)" "i < length ss"
  obtains e1 e2 where "evaluate_all (take i ss) e = (e1, take i mss)"
    "evaluate (ss ! i) e1 = (e2, mss ! i)"
  using assms
proof (induction ss arbitrary: i e mss thesis)
  case Nil
  then show ?case by simp
next
  case (Cons s ss)
  obtain e1 ms where 1: "evaluate s e = (e1, ms)" by fastforce
  obtain e2 mss2 where 2: "evaluate_all ss e1 = (e2, mss2)" by fastforce
  have m: "mss = ms # mss2" "e' = e2" using Cons.prems(2) 1 2 by simp_all
  show ?case
  proof (cases i)
    case 0
    then show ?thesis using 1 m Cons.prems(1) [of e e1] by simp
  next
    case (Suc j)
    obtain ea eb where "evaluate_all (take j ss) e1 = (ea, take j mss2)"
      "evaluate (ss ! j) ea = (eb, mss2 ! j)"
      using Cons.IH [of j e1 mss2] 2 m Cons.prems(3) Suc by auto
    then show ?thesis using 1 m Suc Cons.prems(1) [of ea eb] by simp
  qed
qed

lemma evaluate_all_keeps_rules:
  "evaluate_all ss e = (e', mss) \<Longrightarrow> e_rules e' = e_rules e \<and> e_service_rules e' = e_service_rules e"
  by (induction ss arbitrary: e mss) (auto split: prod.splits dest!: evaluate_keeps_rules)

lemma service_run_state:
  assumes "evaluate_all ss e = (e', mss)" "distinct (map sr_service (elems (e_service_rules e)))"
    "r \<in> set (elems (e_service_rules e))" "service_states e (sr_service r) = None"
  shows "map_option running (service_states e' (sr_service r)) = last_obs (sr_service r) ss"
  using assms(1)
proof (induction ss arbitrary: e' mss rule: rev_induct)
  case Nil
  then show ?case using assms(4) by auto
next
  case (snoc s ss)
  obtain e1 mss1 where 1: "evaluate_all ss e = (e1, mss1)" by fastforce
  obtain e2 ms where 2: "evaluate s e1 = (e2, ms)" by fastforce
  have e2: "e' = e2" using snoc.prems 1 2 by (simp add: evaluate_all_snoc)
  have "service_step r s (service_states e1 (sr_service r)) =
      (service_states e2 (sr_service r), svc_msgs (sr_service r) ms)"
    using evaluate_service_project [OF 2, of r] evaluate_all_keeps_rules [OF 1] assms(2,3) by simp
  from service_step_running [OF this] snoc.IH [OF 1] e2 show ?case
    by (simp add: last_obs_snoc split: option.splits)
qed

lemma agent_run_service:
  assumes "distinct (map sr_service srs)" "r \<in> set srs" "i < length ss"
  obtains st st' where "map_option running st = last_obs (sr_service r) (take i ss)"
    "service_step r (ss ! i) st = (st', svc_msgs (sr_service r) (agent_run rs srs ss ! i))"
proof -
  let ?e = "set_rules (Some rs) (Some srs) new_evaluator"
  obtain e' mss where 1: "evaluate_all ss ?e = (e', mss)" by fastforce
  obtain e1 e2 where 2: "evaluate_all (take i ss) ?e = (e1, take i mss)"
    and 3: "evaluate (ss ! i) e1 = (e2, mss ! i)" using evaluate_all_take [OF 1 assms(3)] by metis
  have k: "e_service_rules e1 = Some srs"
    using evaluate_all_keeps_rules [OF 2] by (simp add: set_rules_def)
  have "map_option running (service_states e1 (sr_service r)) = last_obs (sr_service r) (take i ss)"
    using service_run_state [OF 2, of r] assms by (simp add: set_rules_def new_evaluator_def)
  moreover have "service_step r (ss ! i) (service_states e1 (sr_service r)) =
      (service_states e2 (sr_service r), svc_msgs (sr_service r) (mss ! i))"
    using evaluate_service_project [OF 3, of r] assms k by simp
  ultimately show ?thesis using that 1 by (simp add: agent_run_def)
qed

lemma in_svc_msgs: "msg_service m = Some n \<Longrightarrow> m \<in> set ms \<longleftrightarrow> m \<in> set (svc_msgs n ms)"
  by (simp add: svc_msgs_def)

lemma service_step_down:
  "service_step r s st = (st', ms) \<Longrightarrow>
   MsgDown a b \<in> set ms \<longleftrightarrow> a = sr_name r \<and> b = sr_service r \<and>
     svc_obs (sr_service r) s = Some False \<and> map_option running st = Some True"
  by (auto simp: service_step_def Let_def split: option.splits if_splits)

lemma service_step_up:
  "service_step r s st = (st', ms) \<Longrightarrow>
   MsgUp a b \<in> set ms \<longleftrightarrow> a = sr_name r \<and> b = sr_service r \<and> sr_notify_recovery r \<and>
     svc_obs (sr_service r) s = Some True \<and> map_option running st = Some False"
  by (auto simp: service_step_def Let_def split: option.splits if_splits)

text \<open>
  A rule evaluated after another rule on the same service finds the state already moved: whatever
  the sample says, it sees no transition.
\<close>

lemma no_transition_left:
  assumes "evaluate_service_rule r s e = (e', ms)"
    "svc_obs (sr_service r) s = Some b \<Longrightarrow> map_option running (service_states e (sr_service r)) = Some b"
    "svc_obs (sr_service r) s = None \<or> svc_obs (sr_service r) s = Some b"
  shows "MsgDown x y \<notin> set ms \<and> MsgUp x y \<notin> set ms"
proof -
  have step: "service_step r s (service_states e (sr_service r)) = (service_states e' (sr_service r), ms)"
    using evaluate_service_rule_step [OF assms(1)] by blast
  show ?thesis
    using service_step_down [OF step] service_step_up [OF step] assms(2,3) by auto
qed

end
