(* ===== verification/Alert_Claims.thy ===== *)
theory Alert_Claims
  imports Alert_Episodes
begin

text \<open>
  The properties of the alert evaluator, stated of whole evaluator runs: \<open>agent_run rs srs ss\<close> is
  the list of messages published for each of the samples \<open>ss\<close> by an evaluator the rules were set
  on once. Each has a concrete run as its witness.
\<close>

subsection \<open>Inputs of the witnesses\<close>

definition cpu_sample :: "time \<Rightarrow> rat \<Rightarrow> sample" where
  "cpu_sample t v = zero_sample\<lparr>timestamp := t, cpu_percent := Fin v\<rparr>"

definition cpu_rule :: rule where
  "cpu_rule = \<lparr>r_name = ''High CPU'', r_metric = MetricCPUPercent,
     r_comparator = ComparatorGreaterThan, r_threshold = Fin 90, r_for = 2, r_repeat = 3\<rparr>"

definition svc_sample :: "time \<Rightarrow> bool \<Rightarrow> sample" where
  "svc_sample t up = zero_sample\<lparr>timestamp := t, services :=
     [\<lparr>ss_kind = ServiceKindSystemd, ss_name = ''nginx'', ss_running = up, ss_detail = [], ss_last_check = t\<rparr>]\<rparr>"

definition nginx_rule :: "string \<Rightarrow> duration \<Rightarrow> service_rule" where
  "nginx_rule n rep = \<lparr>sr_name = n, sr_service = ''nginx'', sr_notify_recovery = True, sr_repeat = rep\<rparr>"

lemma rule_states_set_rules: "rule_states (set_rules a b new_evaluator) n = None"
  by (simp add: set_rules_def new_evaluator_def)

lemma e_rules_set_rules: "e_rules (set_rules a b e) = a"
  by (simp add: set_rules_def)

lemma e_service_rules_set_rules: "e_service_rules (set_rules a b e) = b"
  by (simp add: set_rules_def)

subsection \<open>Threshold rules\<close>

text \<open>
  C7. Debounce. A breach is announced only after the rule has been breaching, with no clear
  sample in between, from some sample whose time is at least \<open>for\<close> before the announcing one.
\<close>
theorem breach_only_after_for:
  assumes "distinct (map r_name rs)" "r \<in> set rs" "i < length ss"
    "MsgBreach (r_name r) m v t d \<in> set (agent_run rs srs ss ! i)"
  shows "\<exists>j \<le> i. breaching r (ss ! j) \<and> (\<forall>k. j \<le> k \<and> k \<le> i \<longrightarrow> \<not> clear r (ss ! k))
           \<and> r_for r \<le> time_sub (timestamp (ss ! i)) (timestamp (ss ! j))"
proof -
  obtain st where run: "rule_run r ss zero_rule_state = (st, map (msgs_of (r_name r)) (agent_run rs srs ss))"
    using agent_run_rule [OF assms(1,2)] .
  have "MsgBreach (r_name r) m v t d \<in> set (map (msgs_of (r_name r)) (agent_run rs srs ss) ! i)"
    using assms(3,4) by (simp add: agent_run_length in_msgs_of [symmetric])
  then show ?thesis by (rule rule_run_breach [OF run assms(3)])
qed

theorem breach_only_after_for_witness:
  "\<exists>j \<le> 2. breaching cpu_rule ([cpu_sample 10 95, cpu_sample 11 96, cpu_sample 12 97] ! j) \<and>
     r_for cpu_rule \<le> time_sub (timestamp ([cpu_sample 10 95, cpu_sample 11 96, cpu_sample 12 97] ! 2))
        (timestamp ([cpu_sample 10 95, cpu_sample 11 96, cpu_sample 12 97] ! j))"
proof -
  let ?ss = "[cpu_sample 10 95, cpu_sample 11 96, cpu_sample 12 97]"
  have "distinct (map r_name [cpu_rule])" "cpu_rule \<in> set [cpu_rule]" "(2 :: nat) < length ?ss" by simp_all
  moreover have "MsgBreach (r_name cpu_rule) ''cpu_percent'' (Fin 97) (Fin 90) 2
     \<in> set (agent_run [cpu_rule] [] ?ss ! 2)" by code_simp
  ultimately show ?thesis using breach_only_after_for [of "[cpu_rule]" cpu_rule 2 ?ss] by blast
qed

text \<open>
  C8. No missed alert. When a rule is breaching at two samples at least \<open>for\<close> apart with no clear
  sample between them (and the samples' times are set and in order), then by the later sample a
  notification of this episode has been published.
\<close>
theorem breach_eventually_notified:
  assumes "distinct (map r_name rs)" "r \<in> set rs" "i < length ss" "timely ss" "j \<le> i"
    "breaching r (ss ! j)" "breaching r (ss ! i)" "\<forall>k. j \<le> k \<and> k \<le> i \<longrightarrow> \<not> clear r (ss ! k)"
    "r_for r \<le> time_sub (timestamp (ss ! i)) (timestamp (ss ! j))"
  shows "\<exists>k \<le> i. notified (msgs_of (r_name r) (agent_run rs srs ss ! k))
           \<and> (\<forall>l. k < l \<and> l \<le> i \<longrightarrow> \<not> clear r (ss ! l))"
proof -
  obtain st where run: "rule_run r ss zero_rule_state = (st, map (msgs_of (r_name r)) (agent_run rs srs ss))"
    using agent_run_rule [OF assms(1,2)] .
  show ?thesis
    using rule_run_notifies [OF run assms(3-9)] assms(3) agent_run_length [of rs srs ss] by auto
qed

theorem breach_eventually_notified_witness:
  "\<exists>k \<le> 1. notified (msgs_of ''High CPU''
      (agent_run [cpu_rule] [] [cpu_sample 10 95, cpu_sample 12 97] ! k))"
proof -
  let ?ss = "[cpu_sample 10 95, cpu_sample 12 97]"
  have b: "observe cpu_rule (cpu_sample 10 95) = Some (Fin 95, True)"
    "observe cpu_rule (cpu_sample 12 97) = Some (Fin 97, True)" by code_simp+
  then have "breaching cpu_rule (?ss ! 0)" "breaching cpu_rule (?ss ! 1)" by (simp_all add: breaching_def)
  moreover have "\<forall>k. 0 \<le> k \<and> k \<le> 1 \<longrightarrow> \<not> clear cpu_rule (?ss ! k)"
    using b by (auto simp: clear_def le_Suc_eq)
  moreover have "timely ?ss" unfolding timely_def by code_simp
  moreover have "r_for cpu_rule \<le> time_sub (timestamp (?ss ! 1)) (timestamp (?ss ! 0))" by code_simp
  moreover have "r_name cpu_rule = ''High CPU''" by code_simp
  ultimately show ?thesis
    using breach_eventually_notified [of "[cpu_rule]" cpu_rule 1 ?ss 0 "[]"] by auto
qed

text \<open>
  C9. Order of a rule's notifications. Over any run the messages of a rule form episodes: one
  breach message, then only repeats, then at most one recovery that closes the episode before the
  next breach message.
\<close>
theorem notifications_form_episodes:
  assumes "distinct (map r_name rs)" "r \<in> set rs"
  shows "episode_trace False (concat (map (msgs_of (r_name r)) (agent_run rs srs ss)))"
proof -
  obtain st where run: "rule_run r ss zero_rule_state = (st, map (msgs_of (r_name r)) (agent_run rs srs ss))"
    using agent_run_rule [OF assms] .
  from rule_run_episode [OF this] show ?thesis by (simp add: zero_rule_state_def)
qed

theorem notifications_form_episodes_witness:
  "agent_run [cpu_rule] [] [cpu_sample 10 95, cpu_sample 12 95, cpu_sample 15 95, cpu_sample 16 80]
     = [[], [MsgBreach ''High CPU'' ''cpu_percent'' (Fin 95) (Fin 90) 2],
        [MsgStillOver ''High CPU'' ''cpu_percent'' (Fin 95) (Fin 90)],
        [MsgRecovered ''High CPU'' ''cpu_percent'' (Fin 80)]] \<and>
   episode_trace False (concat (map (msgs_of ''High CPU'') (agent_run [cpu_rule] []
     [cpu_sample 10 95, cpu_sample 12 95, cpu_sample 15 95, cpu_sample 16 80])))"
proof
  let ?ss = "[cpu_sample 10 95, cpu_sample 12 95, cpu_sample 15 95, cpu_sample 16 80]"
  show "agent_run [cpu_rule] [] ?ss
     = [[], [MsgBreach ''High CPU'' ''cpu_percent'' (Fin 95) (Fin 90) 2],
        [MsgStillOver ''High CPU'' ''cpu_percent'' (Fin 95) (Fin 90)],
        [MsgRecovered ''High CPU'' ''cpu_percent'' (Fin 80)]]" by code_simp
  have "r_name cpu_rule = ''High CPU''" by code_simp
  then show "episode_trace False (concat (map (msgs_of ''High CPU'') (agent_run [cpu_rule] [] ?ss)))"
    using notifications_form_episodes [of "[cpu_rule]" cpu_rule "[]" ?ss] by simp
qed

text \<open>
  Repeat interval. A repeat is sent only by a rule with a positive \<open>repeat\_interval\<close>, and the
  rule's previous notification, with no message and no clear sample since, is at least that
  interval older.
\<close>
theorem repeat_spacing:
  assumes "distinct (map r_name rs)" "r \<in> set rs" "i < length ss"
    "MsgStillOver (r_name r) m v t \<in> set (agent_run rs srs ss ! i)"
  shows "0 < r_repeat r \<and> (\<exists>j < i. notified (msgs_of (r_name r) (agent_run rs srs ss ! j))
           \<and> (\<forall>k. j < k \<and> k < i \<longrightarrow> msgs_of (r_name r) (agent_run rs srs ss ! k) = []
                \<and> \<not> clear r (ss ! k))
           \<and> r_repeat r \<le> time_sub (timestamp (ss ! i)) (timestamp (ss ! j)))"
proof -
  obtain st where run: "rule_run r ss zero_rule_state = (st, map (msgs_of (r_name r)) (agent_run rs srs ss))"
    using agent_run_rule [OF assms(1,2)] .
  have "MsgStillOver (r_name r) m v t \<in> set (map (msgs_of (r_name r)) (agent_run rs srs ss) ! i)"
    using assms(3,4) by (simp add: agent_run_length in_msgs_of [symmetric])
  from rule_run_still [OF run assms(3) this] show ?thesis
    using assms(3) agent_run_length [of rs srs ss] by auto
qed

theorem repeat_spacing_witness:
  "0 < r_repeat cpu_rule \<and> (\<exists>j < 2. r_repeat cpu_rule \<le>
     time_sub (timestamp ([cpu_sample 10 95, cpu_sample 12 95, cpu_sample 15 95] ! 2))
       (timestamp ([cpu_sample 10 95, cpu_sample 12 95, cpu_sample 15 95] ! j)))"
proof -
  let ?ss = "[cpu_sample 10 95, cpu_sample 12 95, cpu_sample 15 95]"
  have "distinct (map r_name [cpu_rule])" "cpu_rule \<in> set [cpu_rule]" "(2 :: nat) < length ?ss" by simp_all
  moreover have "MsgStillOver (r_name cpu_rule) ''cpu_percent'' (Fin 95) (Fin 90)
     \<in> set (agent_run [cpu_rule] [] ?ss ! 2)" by code_simp
  ultimately show ?thesis using repeat_spacing [of "[cpu_rule]" cpu_rule 2 ?ss] by blast
qed

text \<open>
  C11. Recovery. A recovery is published at a sample exactly when the sample is clear and the rule
  has notified since it was last clear: every announced episode is closed, and no other is.
\<close>
theorem recovery_iff_announced:
  assumes "distinct (map r_name rs)" "r \<in> set rs" "i < length ss"
  shows "(\<exists>m v. MsgRecovered (r_name r) m v \<in> set (agent_run rs srs ss ! i)) \<longleftrightarrow>
     clear r (ss ! i) \<and> (\<exists>j < i. notified (msgs_of (r_name r) (agent_run rs srs ss ! j))
        \<and> (\<forall>k. j < k \<and> k < i \<longrightarrow> \<not> clear r (ss ! k)))"
proof -
  obtain st where run: "rule_run r ss zero_rule_state = (st, map (msgs_of (r_name r)) (agent_run rs srs ss))"
    using agent_run_rule [OF assms(1,2)] .
  have "MsgRecovered (r_name r) m v \<in> set (agent_run rs srs ss ! i) \<longleftrightarrow>
      MsgRecovered (r_name r) m v \<in> set (map (msgs_of (r_name r)) (agent_run rs srs ss) ! i)" for m v
    using assms(3) by (simp add: agent_run_length in_msgs_of [symmetric])
  then show ?thesis
    using rule_run_recovered [OF run assms(3)] assms(3) agent_run_length [of rs srs ss] by auto
qed

theorem recovery_iff_announced_witness:
  "\<exists>m v. MsgRecovered ''High CPU'' m v
     \<in> set (agent_run [cpu_rule] [] [cpu_sample 10 95, cpu_sample 12 95, cpu_sample 16 80] ! 2)"
proof -
  let ?ss = "[cpu_sample 10 95, cpu_sample 12 95, cpu_sample 16 80]"
  have n: "r_name cpu_rule = ''High CPU''" by code_simp
  have o: "observe cpu_rule (cpu_sample 16 80) = Some (Fin 80, False)" by code_simp
  have a: "agent_run [cpu_rule] [] ?ss ! 1 = [MsgBreach ''High CPU'' ''cpu_percent'' (Fin 95) (Fin 90) 2]"
    by code_simp
  have "clear cpu_rule (?ss ! 2)" using o by (simp add: clear_def)
  moreover have "notified (msgs_of (r_name cpu_rule) (agent_run [cpu_rule] [] ?ss ! 1))"
    by (simp only: a n) simp
  moreover have "\<forall>k. 1 < k \<and> k < (2 :: nat) \<longrightarrow> \<not> clear cpu_rule (?ss ! k)" by auto
  ultimately have e: "clear cpu_rule (?ss ! 2) \<and> (\<exists>j < 2. notified (msgs_of (r_name cpu_rule)
      (agent_run [cpu_rule] [] ?ss ! j)) \<and> (\<forall>k. j < k \<and> k < 2 \<longrightarrow> \<not> clear cpu_rule (?ss ! k)))"
    by (metis one_less_numeral_iff semiring_norm(76))
  have p: "distinct (map r_name [cpu_rule])" "cpu_rule \<in> set [cpu_rule]" "(2 :: nat) < length ?ss" by simp_all
  have "\<exists>m v. MsgRecovered (r_name cpu_rule) m v \<in> set (agent_run [cpu_rule] [] ?ss ! 2)"
    by (rule recovery_iff_announced [OF p, THEN iffD2, OF e])
  then show ?thesis by (simp only: n)
qed

subsection \<open>Service rules\<close>

text \<open>
  C12. Service outages. With one rule per service, a rule announces DOWN at a sample exactly when the
  sample shows the service stopped and the last earlier sample that showed it had it running; it
  announces the recovery exactly on the reverse change, if it asks for recoveries.
\<close>
theorem service_transitions:
  assumes "distinct (map sr_service srs)" "r \<in> set srs" "i < length ss"
  shows "((\<exists>n. MsgDown n (sr_service r) \<in> set (agent_run rs srs ss ! i)) \<longleftrightarrow>
       svc_obs (sr_service r) (ss ! i) = Some False \<and> last_obs (sr_service r) (take i ss) = Some True) \<and>
     ((\<exists>n. MsgUp n (sr_service r) \<in> set (agent_run rs srs ss ! i)) \<longleftrightarrow> sr_notify_recovery r \<and>
       svc_obs (sr_service r) (ss ! i) = Some True \<and> last_obs (sr_service r) (take i ss) = Some False)"
proof -
  obtain st st' where l: "map_option running st = last_obs (sr_service r) (take i ss)"
    and s: "service_step r (ss ! i) st = (st', svc_msgs (sr_service r) (agent_run rs srs ss ! i))"
    using agent_run_service [OF assms] .
  have d: "MsgDown n (sr_service r) \<in> set (agent_run rs srs ss ! i) \<longleftrightarrow>
      MsgDown n (sr_service r) \<in> set (svc_msgs (sr_service r) (agent_run rs srs ss ! i))" for n
    by (rule in_svc_msgs) simp
  have u: "MsgUp n (sr_service r) \<in> set (agent_run rs srs ss ! i) \<longleftrightarrow>
      MsgUp n (sr_service r) \<in> set (svc_msgs (sr_service r) (agent_run rs srs ss ! i))" for n
    by (rule in_svc_msgs) simp
  show ?thesis
    unfolding l [symmetric] d u service_step_down [OF s] service_step_up [OF s] by blast
qed

theorem service_transitions_witness:
  "\<exists>n. MsgDown n ''nginx'' \<in> set (agent_run [] [nginx_rule ''web'' 0]
      [svc_sample 10 True, zero_sample, svc_sample 12 False] ! 2)"
proof -
  let ?ss = "[svc_sample 10 True, zero_sample, svc_sample 12 False]" and ?r = "nginx_rule ''web'' 0"
  have n: "sr_service ?r = ''nginx''" by code_simp
  have "svc_obs (sr_service ?r) (?ss ! 2) = Some False" "last_obs (sr_service ?r) (take 2 ?ss) = Some True"
    by code_simp+
  then have "\<exists>n. MsgDown n (sr_service ?r) \<in> set (agent_run [] [?r] ?ss ! 2)"
    using service_transitions [of "[?r]" ?r 2 ?ss "[]"] by simp
  then show ?thesis by (simp only: n)
qed

text \<open>
  A second rule on a service never reports a change. Service state is shared by all rules on the
  same service, so in one evaluation a rule that comes after another rule on its service finds no
  transition: it announces neither DOWN nor a recovery, whatever the sample.
\<close>
theorem second_service_rule_is_silent:
  assumes "evaluate_service_rule r1 s e = (e1, ms1)" "evaluate_service_rule r2 s e1 = (e2, ms2)"
    "sr_service r1 = sr_service r2"
  shows "MsgDown x y \<notin> set ms2 \<and> MsgUp x y \<notin> set ms2"
proof (cases "svc_obs (sr_service r2) s")
  case None
  then show ?thesis using assms(2) by (auto simp: evaluate_service_rule_eq)
next
  case (Some b)
  have "service_step r1 s (service_states e (sr_service r1)) = (service_states e1 (sr_service r1), ms1)"
    using evaluate_service_rule_step [OF assms(1)] by blast
  from service_step_running [OF this] have "map_option running (service_states e1 (sr_service r2)) = Some b"
    using Some assms(3) by simp
  then show ?thesis using no_transition_left [OF assms(2), of b x y] Some by simp
qed

theorem second_service_rule_is_silent_witness:
  "agent_run [] [nginx_rule ''web'' 0, nginx_rule ''on-call'' 0] [svc_sample 10 True, svc_sample 12 False]
     = [[], [MsgDown ''web'' ''nginx'']] \<and>
   (\<forall>x y. MsgDown x y \<notin> set (snd (evaluate_service_rule (nginx_rule ''on-call'' 0) (svc_sample 12 False)
      (fst (evaluate_service_rule (nginx_rule ''web'' 0) (svc_sample 12 False) new_evaluator)))))"
proof
  show "agent_run [] [nginx_rule ''web'' 0, nginx_rule ''on-call'' 0]
     [svc_sample 10 True, svc_sample 12 False] = [[], [MsgDown ''web'' ''nginx'']]" by code_simp
  have "sr_service (nginx_rule ''web'' 0) = sr_service (nginx_rule ''on-call'' 0)" by code_simp
  then show "\<forall>x y. MsgDown x y \<notin> set (snd (evaluate_service_rule (nginx_rule ''on-call'' 0)
      (svc_sample 12 False)
      (fst (evaluate_service_rule (nginx_rule ''web'' 0) (svc_sample 12 False) new_evaluator))))"
    using second_service_rule_is_silent by (metis prod.collapse)
qed

text \<open>
  Two threshold rules with one name flap. They share one state: while the first is breaching and
  the second clear, every single sample publishes a breach of the first and a recovery of the
  second, however often the pair has been announced before.
\<close>
theorem duplicate_rule_names_flap:
  assumes "r_name r1 = r_name r2" "r_for r1 \<le> 0"
    "\<forall>s \<in> set ss. breaching r1 s \<and> clear r2 s" "i < length ss"
  shows "\<exists>v w. agent_run [r1, r2] [] ss ! i =
     [MsgBreach (r_name r1) (r_metric r1) v (r_threshold r1) (r_for r1),
      MsgRecovered (r_name r2) (r_metric r2) w]"
proof -
  let ?calm = "\<lambda>e. rule_states e (r_name r1) = None
     \<or> rule_states e (r_name r1) = Some zero_rule_state"
  have one: "\<exists>e' v w. evaluate s e = (e', [MsgBreach (r_name r1) (r_metric r1) v (r_threshold r1) (r_for r1),
      MsgRecovered (r_name r2) (r_metric r2) w]) \<and> ?calm e' \<and> e_rules e' = Some [r1, r2]
      \<and> e_service_rules e' = Some []"
    if b: "breaching r1 s" and c: "clear r2 s" and e: "?calm e" "e_rules e = Some [r1, r2]"
      "e_service_rules e = Some []" for s e
  proof -
    obtain v w where v: "observe r1 s = Some (v, True)" and w: "observe r2 s = Some (w, False)"
      using b c by (auto simp: breaching_def clear_def)
    have g: "get_state e r1 = zero_rule_state" using e(1) by (auto simp: get_state_def)
    have z: "time_sub (timestamp s) (timestamp s) = 0"
      by (simp add: time_sub_def sat_int64_def int64_limits)
    show ?thesis
      using e(2,3) v w g z assms(1,2)
      by (simp add: evaluate_def evaluate_rule_eq rule_step_def Let_def get_state_upd get_state_def
          zero_rule_state_def is_zero_time_def zero_time_def)
  qed
  have "?calm e \<Longrightarrow> e_rules e = Some [r1, r2] \<Longrightarrow> e_service_rules e = Some [] \<Longrightarrow>
     evaluate_all ss e = (e', mss) \<Longrightarrow> \<forall>s \<in> set ss. breaching r1 s \<and> clear r2 s \<Longrightarrow> i < length ss \<Longrightarrow>
     \<exists>v w. mss ! i = [MsgBreach (r_name r1) (r_metric r1) v (r_threshold r1) (r_for r1),
        MsgRecovered (r_name r2) (r_metric r2) w]" for e e' mss
    using assms(4)
  proof (induction ss arbitrary: e mss i)
    case (Cons s ss)
    obtain e1 v w where 1: "evaluate s e = (e1, [MsgBreach (r_name r1) (r_metric r1) v (r_threshold r1)
        (r_for r1), MsgRecovered (r_name r2) (r_metric r2) w])" "?calm e1" "e_rules e1 = Some [r1, r2]"
        "e_service_rules e1 = Some []"
      using one [of s e] Cons.prems by auto
    obtain e2 mss2 where 2: "evaluate_all ss e1 = (e2, mss2)" by fastforce
    have m: "e' = e2" "mss = [MsgBreach (r_name r1) (r_metric r1) v (r_threshold r1)
        (r_for r1), MsgRecovered (r_name r2) (r_metric r2) w] # mss2" using Cons.prems(4) 1(1) 2 by simp_all
    show ?case
    proof (cases i)
      case 0
      then show ?thesis using m by simp
    next
      case (Suc j)
      then show ?thesis
        using Cons.IH [OF 1(2,3,4), of mss2 j] 2 m Cons.prems by simp
    qed
  qed simp
  then show ?thesis
    using assms(3,4) by (metis (no_types, lifting) agent_run_def e_rules_set_rules e_service_rules_set_rules
        prod.collapse rule_states_set_rules)
qed

theorem duplicate_rule_names_flap_witness:
  "\<exists>v w. agent_run [cpu_rule\<lparr>r_for := 0\<rparr>, cpu_rule\<lparr>r_for := 0, r_threshold := Fin 99\<rparr>] []
       [cpu_sample 10 95, cpu_sample 11 95] ! 1 =
     [MsgBreach ''High CPU'' ''cpu_percent'' v (Fin 90) 0, MsgRecovered ''High CPU'' ''cpu_percent'' w]"
proof -
  let ?r1 = "cpu_rule\<lparr>r_for := 0\<rparr>" and ?r2 = "cpu_rule\<lparr>r_for := 0, r_threshold := Fin 99\<rparr>"
  let ?ss = "[cpu_sample 10 95, cpu_sample 11 95]"
  have f: "r_name ?r1 = ''High CPU''" "r_name ?r2 = ''High CPU''" "r_metric ?r1 = ''cpu_percent''"
    "r_metric ?r2 = ''cpu_percent''" "r_threshold ?r1 = Fin 90" "r_for ?r1 = 0" by code_simp+
  have o: "observe ?r1 (cpu_sample 10 95) = Some (Fin 95, True)" "observe ?r1 (cpu_sample 11 95) = Some (Fin 95, True)"
    "observe ?r2 (cpu_sample 10 95) = Some (Fin 95, False)" "observe ?r2 (cpu_sample 11 95) = Some (Fin 95, False)"
    by code_simp+
  have a: "\<forall>s \<in> set ?ss. breaching ?r1 s \<and> clear ?r2 s" using o by (simp add: breaching_def clear_def)
  have n: "r_name ?r1 = r_name ?r2" "r_for ?r1 \<le> 0" "(1 :: nat) < length ?ss" by simp_all
  show ?thesis using duplicate_rule_names_flap [OF n(1,2) a n(3)] by (simp only: f)
qed

end
