(* ===== verification/Go_Duration.thy ===== *)
theory Go_Duration
  imports Go_Time
begin

text \<open>
  Durations survive printing: \<open>parse_duration (duration_string d) = Inr d\<close> for every \<open>int64\<close>
  duration, the extremes included. The configuration file, the API and the rules' JSON all carry
  durations as text and rest on this.
\<close>

lemma f64_int: "\<bar>i\<bar> < 2 ^ 53 \<Longrightarrow> f64 (of_int i) = Fin (of_int i)"
  using f_of_int_exact [of i] by (simp add: f_of_int_def)

definition stops :: "string \<Rightarrow> bool" where
  "stops r \<longleftrightarrow> r = [] \<or> \<not> is_digit (hd r)"

lemma leading_int_digits:
  "list_all is_digit ds \<Longrightarrow> stops r \<Longrightarrow> 0 \<le> acc \<Longrightarrow> digits_val acc ds \<le> 9223372036854775808 \<Longrightarrow>
   leading_int acc (ds @ r) = Some (digits_val acc ds, r)"
proof (induction ds arbitrary: acc)
  case Nil
  then show ?case by (cases r) (auto simp: stops_def)
next
  case (Cons c ds)
  then have d: "0 \<le> digit_val c" "digit_val c < 10" using digit_val_bounds by simp_all
  have "acc * 10 + digit_val c \<le> digits_val (acc * 10 + digit_val c) ds"
    using Cons.prems d digits_val_ge [of ds "acc * 10 + digit_val c"] by simp
  with Cons d show ?case by simp
qed

lemma leading_fraction_digits:
  "list_all is_digit ds \<Longrightarrow> stops r \<Longrightarrow> 0 \<le> acc \<Longrightarrow> digits_val acc ds \<le> 922337203685477580 \<Longrightarrow>
   k + length ds \<le> 9 \<Longrightarrow>
   leading_fraction acc (Fin (10 ^ k)) False (ds @ r) = (digits_val acc ds, Fin (10 ^ (k + length ds)), r)"
proof (induction ds arbitrary: acc k)
  case Nil
  then show ?case by (cases r) (auto simp: stops_def)
next
  case (Cons c ds)
  then have d: "0 \<le> digit_val c" "digit_val c < 10" using digit_val_bounds by simp_all
  have le: "acc * 10 + digit_val c \<le> digits_val (acc * 10 + digit_val c) ds"
    using Cons.prems d digits_val_ge [of ds "acc * 10 + digit_val c"] by simp
  have "k + 1 \<le> 9" using Cons.prems(5) by simp
  then have "(10 :: int) ^ (k + 1) \<le> 10 ^ 9" by (intro power_increasing) simp_all
  then have "f64 (of_int (10 ^ (k + 1))) = Fin (of_int (10 ^ (k + 1)))" by (intro f64_int) simp
  then have m: "f_mul (Fin (10 ^ k)) (Fin 10) = Fin (10 ^ Suc k)" by (simp add: mult.commute)
  have "leading_fraction (acc * 10 + digit_val c) (Fin (10 ^ Suc k)) False (ds @ r) =
      (digits_val (acc * 10 + digit_val c) ds, Fin (10 ^ (Suc k + length ds)), r)"
    using Cons.prems d by (intro Cons.IH) simp_all
  with Cons.prems d le m show ?case by simp
qed

lemma digits_val_bound:
  assumes "list_all is_digit s"
  shows "digits_val 0 s < 10 ^ length s"
  using assms
proof (induction s rule: rev_induct)
  case (snoc c s)
  then have "digit_val c < 10" using digit_val_bounds by simp
  with snoc show ?case by simp
qed simp

lemma mod_power_Suc: "(v div 10 mod 10 ^ n) * 10 + v mod 10 = (v :: int) mod 10 ^ Suc n"
  using mod_mult2_eq' [of v 10 "10 ^ n"] by simp

lemma fmt_frac_loop_printing:
  "0 \<le> v \<Longrightarrow> \<exists>ds. list_all is_digit ds \<and> length ds = n \<and> digits_val 0 ds = v mod 10 ^ n \<and>
     fmt_frac_loop n True acc v = (CHR ''.'' # ds @ acc, v div 10 ^ n)"
proof (induction n arbitrary: v acc)
  case (Suc n)
  let ?d = "digit_char (v mod 10)"
  obtain ds where "list_all is_digit ds" "length ds = n" "digits_val 0 ds = v div 10 mod 10 ^ n"
    "fmt_frac_loop n True (?d # acc) (v div 10) = (CHR ''.'' # ds @ ?d # acc, v div 10 div 10 ^ n)"
    using Suc.IH [of "v div 10"] Suc.prems by force
  then have "list_all is_digit (ds @ [?d]) \<and> length (ds @ [?d]) = Suc n \<and>
      digits_val 0 (ds @ [?d]) = v mod 10 ^ Suc n \<and>
      fmt_frac_loop (Suc n) True acc v = (CHR ''.'' # (ds @ [?d]) @ acc, v div 10 ^ Suc n)"
    using mod_power_Suc [of v n] by (simp add: zdiv_zmult2_eq)
  then show ?case by blast
qed simp

lemma fmt_frac_digits:
  "0 \<le> v \<Longrightarrow> \<exists>ds. list_all is_digit ds \<and> length ds \<le> n \<and>
     digits_val 0 ds * 10 ^ (n - length ds) = v mod 10 ^ n \<and>
     fmt_frac v n = (if ds = [] then [] else CHR ''.'' # ds, v div 10 ^ n)"
  unfolding fmt_frac_def
proof (induction n arbitrary: v)
  case (Suc n)
  show ?case
  proof (cases "v mod 10 = 0")
    case True
    obtain ds where "list_all is_digit ds" "length ds \<le> n"
      "digits_val 0 ds * 10 ^ (n - length ds) = v div 10 mod 10 ^ n"
      "fmt_frac_loop n False [] (v div 10) = (if ds = [] then [] else CHR ''.'' # ds, v div 10 div 10 ^ n)"
      using Suc.IH [of "v div 10"] Suc.prems by force
    with True mod_power_Suc [of v n] show ?thesis
      by (intro exI [of _ ds]) (simp add: zdiv_zmult2_eq Suc_diff_le)
  next
    case False
    let ?d = "digit_char (v mod 10)"
    obtain ds where "list_all is_digit ds" "length ds = n" "digits_val 0 ds = v div 10 mod 10 ^ n"
      "fmt_frac_loop n True [?d] (v div 10) = (CHR ''.'' # ds @ [?d], v div 10 div 10 ^ n)"
      using fmt_frac_loop_printing [of "v div 10" n "[?d]"] Suc.prems by force
    with False mod_power_Suc [of v n] show ?thesis
      by (intro exI [of _ "ds @ [?d]"]) (simp add: zdiv_zmult2_eq)
  qed
qed simp

lemma exact_fraction:
  assumes "0 \<le> f" "f < 10 ^ k" "k \<le> 9" "U = 10 ^ k * m" "0 \<le> m" "U \<le> 3600000000000" "f * m < 10 ^ 9"
  shows "f_to_uint64 (f_mul (f_of_int f) (f_div (f_of_int U) (Fin (10 ^ k)))) = f * m"
proof -
  have "(10 :: int) ^ k \<le> 10 ^ 9" using assms(3) by (intro power_increasing) simp_all
  then have f: "f_of_int f = Fin (of_int f)" using assms by (intro f_of_int_exact) simp
  have U: "f_of_int U = Fin (of_int U)"
    using assms(4,5,6) by (intro f_of_int_exact) (simp add: abs_le_iff)
  have "m \<le> U" using assms(4,5) mult_right_mono [of 1 "10 ^ k" m] by simp
  then have "f64 (of_int m) = Fin (of_int m)" using assms(5,6) by (intro f64_int) simp
  then have d: "f_div (Fin (of_int U)) (Fin (10 ^ k)) = Fin (of_int m)" using assms(4) by simp
  have "f64 (of_int (f * m)) = Fin (of_int (f * m))" using assms by (intro f64_int) simp
  then have p: "f_mul (Fin (of_int f)) (Fin (of_int m)) = Fin (of_int (f * m))" by simp
  have "0 \<le> f * m" using assms by simp
  then show ?thesis unfolding f U d p using assms(7) by (simp only: f_to_uint64.simps floor_of_int) simp
qed

text \<open>One printed term: digits, a fraction, a unit.\<close>

definition frac_text :: "string \<Rightarrow> string" where
  "frac_text ds = (if ds = [] then [] else CHR ''.'' # ds)"

definition unit_ok :: "string \<Rightarrow> int \<Rightarrow> bool" where
  "unit_ok u U \<longleftrightarrow> u \<noteq> [] \<and> list_all unit_char u \<and> unit_map u = Some U"

lemma unit_okI:
  "unit_ok ''ns'' 1" "unit_ok (micro_sign @ ''s'') 1000" "unit_ok ''ms'' 1000000"
  "unit_ok ''s'' 1000000000" "unit_ok ''m'' 60000000000" "unit_ok ''h'' 3600000000000"
  by code_simp+

definition term_start :: "string \<Rightarrow> bool" where
  "term_start r \<longleftrightarrow> r = [] \<or> is_digit (hd r)"

lemma unit_stops: "unit_ok u U \<Longrightarrow> stops (u @ r) \<and> u @ r \<noteq> [] \<and> hd (u @ r) \<noteq> CHR ''.''"
  by (cases u) (auto simp: unit_ok_def stops_def unit_char_def)

lemma unit_span:
  assumes "unit_ok u U" "term_start r"
  shows "takeWhile unit_char (u @ r) = u" "dropWhile unit_char (u @ r) = r"
proof -
  have "r = [] \<or> \<not> unit_char (hd r)" using assms(2) by (auto simp: term_start_def unit_char_def)
  moreover have "\<forall>c \<in> set u. unit_char c" using assms(1) by (simp add: unit_ok_def list_all_iff)
  ultimately show "takeWhile unit_char (u @ r) = u" "dropWhile unit_char (u @ r) = r"
    by (cases r; simp add: takeWhile_append2 dropWhile_append2)+
qed

lemma uint_digits_start:
  assumes "0 \<le> n"
  shows "uint_digits n @ t \<noteq> [] \<and> is_digit (hd (uint_digits n @ t)) \<and> \<not> unit_char (hd (uint_digits n @ t))"
proof -
  have "is_digit (hd (uint_digits n))" using assms by (simp add: uint_digits_digits [of n])
  then show ?thesis by (simp add: unit_char_def)
qed

lemma parse_dur_term_printed:
  assumes "0 \<le> n" "n \<le> 9223372036854775808 div U" "0 < U" "U \<le> 3600000000000"
    "unit_ok u U" "term_start r" "list_all is_digit ds" "length ds \<le> 9"
    "U = 10 ^ length ds * m" "f = digits_val 0 ds * m" "f < 10 ^ 9" "n * U + f \<le> 9223372036854775808"
  shows "parse_dur_term (uint_digits n @ frac_text ds @ u @ r) = Inr (n * U + f, r)"
proof -
  let ?t = "frac_text ds @ u @ r"
  have U1: "1 \<le> U" using assms(3) by simp
  have "9223372036854775808 div U \<le> 9223372036854775808" using assms(3) zdiv_mono2 [of 9223372036854775808 1 U] by simp
  then have n: "n \<le> 9223372036854775808" using assms(2) by simp
  have st: "stops ?t" using unit_stops [OF assms(5), of r] by (auto simp: frac_text_def stops_def is_digit_def)
  have li: "leading_int 0 (uint_digits n @ ?t) = Some (n, ?t)"
    using leading_int_digits [OF uint_digits_all st, of n 0] assms(1) n by (simp add: digits_val_uint_digits)
  have hd: "uint_digits n @ ?t \<noteq> [] \<and> \<not> unit_char (hd (uint_digits n @ ?t))"
    using uint_digits_start [OF assms(1)] by blast
  have u: "u \<noteq> []" "unit_map u = Some U" using assms(5) by (simp_all add: unit_ok_def)
  have m: "0 \<le> m" using assms(3,9) by (metis linorder_not_le mult_pos_neg order_less_asym zero_less_numeral zero_less_power)
  have dv: "0 \<le> digits_val 0 ds" using digits_val_ge [OF assms(7), of 0] by simp
  show ?thesis
  proof (cases "ds = []")
    case True
    then show ?thesis
      using li hd unit_stops [OF assms(5), of r] unit_span [OF assms(5,6)] u assms(2,10)
      by (simp add: parse_dur_term_def frac_text_def Let_def)
  next
    case False
    have m1: "1 \<le> m" using assms(3,9) m by (cases "m = 0") auto
    then have "digits_val 0 ds * 1 \<le> digits_val 0 ds * m" using dv by (intro mult_left_mono) simp_all
    then have small: "digits_val 0 ds < 10 ^ 9" using assms(10,11) by simp
    have lf: "leading_fraction 0 (Fin 1) False (ds @ u @ r) =
        (digits_val 0 ds, Fin (10 ^ length ds), u @ r)"
      using leading_fraction_digits [OF assms(7), of "u @ r" 0 0] unit_stops [OF assms(5), of r] assms(8) small
      by simp
    have lt: "digits_val 0 ds < 10 ^ length ds" by (rule digits_val_bound [OF assms(7)])
    have ef: "f_to_uint64 (f_mul (f_of_int (digits_val 0 ds)) (f_div (f_of_int U) (Fin (10 ^ length ds)))) = f"
      using exact_fraction [OF dv lt assms(8,9) m assms(4)] assms(10,11) by simp
    show ?thesis
      using li hd lf unit_span [OF assms(5,6)] u assms(2,10,12) ef dv False
      by (simp add: parse_dur_term_def frac_text_def Let_def)
  qed
qed

lemma parse_dur_loop_printed:
  assumes "0 \<le> acc" "acc + (n * U + f) \<le> 9223372036854775808"
    "0 \<le> n" "0 < U" "U \<le> 3600000000000" "unit_ok u U" "term_start r" "list_all is_digit ds"
    "length ds \<le> 9" "U = 10 ^ length ds * m" "f = digits_val 0 ds * m" "0 \<le> f" "f < 10 ^ 9"
  shows "parse_dur_loop acc (uint_digits n @ frac_text ds @ u @ r) = parse_dur_loop (acc + (n * U + f)) r"
proof -
  have le: "n * U + f \<le> 9223372036854775808" using assms(1,2) by simp
  then have "n * U \<le> 9223372036854775808" using assms(12) by simp
  then have "n \<le> 9223372036854775808 div U" using assms(4) by (metis nonzero_mult_div_cancel_right
        order_less_irrefl zdiv_mono1)
  then have t: "parse_dur_term (uint_digits n @ frac_text ds @ u @ r) = Inr (n * U + f, r)"
    by (intro parse_dur_term_printed [OF assms(3) _ assms(4-11,13) le])
  have "0 \<le> n * U" using assms(3,4) by simp
  then have "(acc + (n * U + f)) mod 2 ^ 64 = acc + (n * U + f)"
    using assms(1,2,12) by (intro mod_pos_pos_trivial) simp_all
  with t assms(2) uint_digits_nonempty show ?thesis
    by (subst parse_dur_loop.simps) (simp add: Let_def)
qed

lemma parse_dur_loop_whole:
  assumes "0 \<le> acc" "acc + n * U \<le> 9223372036854775808"
    "0 \<le> n" "0 < U" "U \<le> 3600000000000" "unit_ok u U" "term_start r"
  shows "parse_dur_loop acc (uint_digits n @ u @ r) = parse_dur_loop (acc + n * U) r"
  using parse_dur_loop_printed [of acc n U 0 u r "[]" U] assms by (simp add: frac_text_def)

lemma parse_dur_loop_end: "parse_dur_loop acc [] = Inr acc"
  by (simp add: parse_dur_loop.simps)

lemma fmt_frac_text:
  assumes "0 \<le> u" "p \<le> 9"
  obtains ds where "fmt_frac u p = (frac_text ds, u div 10 ^ p)" "list_all is_digit ds" "length ds \<le> 9"
    "(10 :: int) ^ p = 10 ^ length ds * 10 ^ (p - length ds)"
    "u mod 10 ^ p = digits_val 0 ds * 10 ^ (p - length ds)"
proof -
  obtain ds where d: "list_all is_digit ds" "length ds \<le> p"
    "digits_val 0 ds * 10 ^ (p - length ds) = u mod 10 ^ p"
    "fmt_frac u p = (if ds = [] then [] else CHR ''.'' # ds, u div 10 ^ p)"
    using fmt_frac_digits [OF assms(1), of p] by blast
  moreover have "(10 :: int) ^ p = 10 ^ length ds * 10 ^ (p - length ds)"
    using d(2) by (simp flip: power_add)
  ultimately show ?thesis using that [of ds] assms(2) by (simp add: frac_text_def)
qed

text \<open>The sub-second part of a duration, at the unit \<open>10 ^ p\<close> nanoseconds.\<close>

lemma parse_fraction_part:
  assumes "0 \<le> u" "p \<le> 9" "fmt_frac u p = (fr, w)" "unit_ok s (10 ^ p)" "0 \<le> acc" "0 \<le> n"
    "acc + (n * 10 ^ p + u mod 10 ^ p) \<le> 9223372036854775808"
  shows "parse_dur_loop acc (uint_digits n @ fr @ s) = Inr (acc + (n * 10 ^ p + u mod 10 ^ p))"
proof -
  obtain ds where ds: "fmt_frac u p = (frac_text ds, u div 10 ^ p)" "list_all is_digit ds" "length ds \<le> 9"
    "(10 :: int) ^ p = 10 ^ length ds * 10 ^ (p - length ds)"
    "u mod 10 ^ p = digits_val 0 ds * 10 ^ (p - length ds)"
    using fmt_frac_text [OF assms(1,2)] .
  have p: "(10 :: int) ^ p \<le> 10 ^ 9" using assms(2) by (intro power_increasing) simp_all
  define x where "x = u mod 10 ^ p"
  have "x < 10 ^ p" unfolding x_def by (rule pos_mod_bound) simp
  then have "x < 10 ^ 9" using p by (rule order_less_le_trans)
  then have m: "0 \<le> x" "x < 10 ^ 9" by (simp_all add: x_def)
  have "parse_dur_loop acc (uint_digits n @ frac_text ds @ s @ []) =
      parse_dur_loop (acc + (n * 10 ^ p + x)) []"
  proof (rule parse_dur_loop_printed [where m = "10 ^ (p - length ds)"])
    show "acc + (n * 10 ^ p + x) \<le> 9223372036854775808" using assms(7) by (simp add: x_def)
    show "x = digits_val 0 ds * 10 ^ (p - length ds)" using ds(5) by (simp add: x_def)
    show "(10 :: int) ^ p \<le> 3600000000000" using p by simp
  qed (use m ds(2,3,4) assms in \<open>simp_all add: term_start_def\<close>)
  then show ?thesis using assms(3) ds(1) by (simp add: parse_dur_loop_end x_def)
qed

lemma parse_duration_body:
  assumes "0 \<le> u" "u \<le> 9223372036854775808"
  shows "parse_dur_loop 0 (duration_body u) = Inr u"
proof -
  obtain fr w where fr: "fmt_frac u 3 = (fr, w)" by fastforce
  obtain fm wm where fm: "fmt_frac u 6 = (fm, wm)" by fastforce
  obtain fs ws where fs: "fmt_frac u 9 = (fs, ws)" by fastforce
  have w: "w = u div 10 ^ 3" "wm = u div 10 ^ 6" "ws = u div 10 ^ 9"
    using fmt_frac_digits [OF assms(1)] fr fm fs by (metis prod.inject)+
  consider "u = 0" | "0 < u" "u < 1000" | "1000 \<le> u" "u < 1000000" | "1000000 \<le> u" "u < 1000000000"
    | "1000000000 \<le> u" using assms(1) by linarith
  then show ?thesis
  proof cases
    case 1
    have "parse_dur_loop 0 (duration_body 0) = Inr 0" by code_simp
    with 1 show ?thesis by simp
  next
    case 2
    then show ?thesis
      using parse_dur_loop_whole [of 0 u 1 "''ns''" "[]"] unit_okI
      by (simp add: duration_body_def term_start_def parse_dur_loop_end)
  next
    case 3
    then show ?thesis
      using parse_fraction_part [OF assms(1) _ fr, of "micro_sign @ ''s''" 0 w] unit_okI w
      by (simp add: duration_body_def fr mult.commute [of _ 1000])
  next
    case 4
    then show ?thesis
      using parse_fraction_part [OF assms(1) _ fm, of "''ms''" 0 wm] unit_okI w
      by (simp add: duration_body_def fm mult.commute [of _ 1000000])
  next
    case 5
    define m h where "m = ws div 60" and "h = m div 60"
    let ?f = "u mod 1000000000"
    have ws: "0 \<le> ws" "ws = 60 * m + ws mod 60" "u = ws * 1000000000 + ?f" "0 \<le> m" "m = 60 * h + m mod 60" "0 \<le> h"
      using w assms(1) by (simp_all add: m_def h_def)
    have f: "0 \<le> ?f" "0 \<le> ws mod 60" "0 \<le> m mod 60" by simp_all
    have sec: "parse_dur_loop acc (uint_digits (ws mod 60) @ fs @ ''s'') = Inr u"
      if "acc = m * 60000000000" for acc
      using parse_fraction_part [OF assms(1) _ fs, of "''s''" acc "ws mod 60"] unit_okI ws f that assms(2)
      by simp
    have start: "term_start (uint_digits n @ t)" if "0 \<le> n" for n t
      using uint_digits_start [OF that, of t] by (simp add: term_start_def)
    have min: "parse_dur_loop acc (uint_digits (m mod 60) @ ''m'' @ uint_digits (ws mod 60) @ fs @ ''s'') = Inr u"
      if "acc = h * 3600000000000" for acc
      using parse_dur_loop_whole [of acc "m mod 60" 60000000000 "''m''" "uint_digits (ws mod 60) @ fs @ ''s''"]
        unit_okI start [of "ws mod 60"] ws f that assms(2) sec [of "acc + (m mod 60) * 60000000000"]
      by simp
    have hr: "parse_dur_loop 0 (uint_digits h @ ''h'' @ uint_digits (m mod 60) @ ''m'' @
        uint_digits (ws mod 60) @ fs @ ''s'') = Inr u"
      using parse_dur_loop_whole [of 0 h 3600000000000 "''h''"
          "uint_digits (m mod 60) @ ''m'' @ uint_digits (ws mod 60) @ fs @ ''s''"]
        unit_okI start [of "m mod 60"] ws f assms(2) min [of "h * 3600000000000"] by simp
    show ?thesis
      using 5 sec [of 0] min [of 0] hr by (simp add: duration_body_def fs Let_def flip: m_def h_def)
  qed
qed

lemma digits_and_more:
  "0 \<le> a \<Longrightarrow> \<exists>n \<ge> 0. \<exists>t. t \<noteq> [] \<and> uint_digits a @ c # s = uint_digits n @ t"
  by (intro exI [of _ a] conjI exI [of _ "c # s"]) simp_all

lemma duration_body_start:
  assumes "0 \<le> u"
  shows "duration_body u \<noteq> [] \<and> is_digit (hd (duration_body u)) \<and> length (duration_body u) \<noteq> 1"
proof -
  have z: "''0s'' = uint_digits 0 @ ''s''" by code_simp
  have "\<exists>n t. 0 \<le> n \<and> t \<noteq> [] \<and> duration_body u = uint_digits n @ t"
  proof -
    obtain fr w where fr: "fmt_frac u 3 = (fr, w)" by fastforce
    obtain fm wm where fm: "fmt_frac u 6 = (fm, wm)" by fastforce
    obtain fs ws where fs: "fmt_frac u 9 = (fs, ws)" by fastforce
    have w: "w = u div 10 ^ 3" "wm = u div 10 ^ 6" "ws = u div 10 ^ 9"
      using fmt_frac_digits [OF assms(1)] fr fm fs by (metis prod.inject)+
    then have "0 \<le> w" "0 \<le> wm" "0 \<le> ws" "0 \<le> ws div 60 div 60" "0 \<le> ws div 60 mod 60" "0 \<le> ws mod 60"
      using assms by simp_all
    moreover have "micro_sign @ ''s'' \<noteq> []" by simp
    ultimately show ?thesis
      using assms unfolding duration_body_def fr fm fs Let_def prod.case z
      by (auto split: if_splits intro: exI [of _ 0] exI [of _ u] exI [of _ w] digits_and_more)
  qed
  then obtain n t where n: "0 \<le> n" "t \<noteq> []" "duration_body u = uint_digits n @ t" by blast
  have "length (uint_digits n) > 0" "length t > 0" using n(2) by simp_all
  then have "length (duration_body u) \<noteq> 1" unfolding n(3) by (simp only: length_append)
  then show ?thesis using uint_digits_start [OF n(1), of t] n(3) by simp
qed

lemma parse_duration_string:
  assumes "in_int64 d"
  shows "parse_duration (duration_string d) = Inr d"
proof -
  have b: "- 9223372036854775808 \<le> d" "d \<le> 9223372036854775807" using assms by (simp_all add: go_num)
  let ?u = "\<bar>d\<bar>"
  have body: "parse_dur_loop 0 (duration_body ?u) = Inr ?u" using b by (intro parse_duration_body) simp_all
  note st = duration_body_start [of ?u]
  have s: "strip_sign (duration_string d) = (d < 0, duration_body ?u)"
    using st by (cases "duration_body ?u") (auto simp: strip_sign_def duration_string_def is_digit_def)
  have "duration_body ?u \<noteq> ''0''" using st by auto
  then show ?thesis
    using body st s b by (simp add: parse_duration_def parse_dur_raw_def Let_def)
qed

lemma parse_dur_loop_range:
  "parse_dur_loop acc s = Inr d \<Longrightarrow> 0 \<le> acc \<Longrightarrow> acc \<le> 9223372036854775808 \<Longrightarrow>
   0 \<le> d \<and> d \<le> 9223372036854775808"
proof (induction acc s rule: parse_dur_loop.induct)
  case (1 acc s)
  show ?case
  proof (cases "s = []")
    case True
    then show ?thesis using 1 by (simp add: parse_dur_loop_end)
  next
    case False
    then obtain v r where t: "parse_dur_term s = Inr (v, r)"
      using 1(2) by (subst (asm) parse_dur_loop.simps) (auto split: sum.splits)
    let ?d = "(acc + v) mod 2 ^ 64"
    have l: "\<not> 9223372036854775808 < ?d" "parse_dur_loop ?d r = Inr d"
      using 1(2) False t by (subst (asm) parse_dur_loop.simps, simp add: Let_def split: if_splits)+
    have "0 \<le> ?d" by simp
    with 1(1) [OF False t refl refl l(1) l(2)] l(1) show ?thesis by simp
  qed
qed

lemma parse_duration_range:
  assumes "parse_duration s = Inr d"
  shows "in_int64 d"
proof -
  have "parse_dur_raw s = Inr d" using assms by (simp add: parse_duration_def split: sum.splits)
  then show ?thesis
    by (auto simp: parse_dur_raw_def Let_def go_num dest!: parse_dur_loop_range
        split: prod.splits if_splits sum.splits)
qed

lemma duration_string_nonempty [simp]: "duration_string d \<noteq> []"
  using duration_body_start [of d] by (auto simp: duration_string_def)

end
