(* ===== verification/Float_Bounds.thy ===== *)
theory Float_Bounds
  imports Go_Time
begin

text \<open>
  Bounds on \<open>float64\<close> arithmetic for the components that must not produce infinities or NaN: \<open>fin_le k x\<close>
  says that \<open>x\<close> is finite, not negative and at most \<open>2 ^ k\<close>. Rounding is idempotent, so a bound that
  is itself a float is kept by every operation.
\<close>

lemma round_rat_powi: "- 1000 \<le> k \<Longrightarrow> round_rat (2 powi k) = 2 powi k"
  using round_rat_dyadic [of 1 k] by simp

lemma round_rat_1 [simp]: "round_rat 1 = 1"
  using round_rat_int [of 1] by simp

lemma round_rat_100 [simp]: "round_rat 100 = 100"
  using round_rat_int [of 100] by simp

lemma round_rat_nonneg: "0 \<le> x \<Longrightarrow> 0 \<le> round_rat x"
  using round_rat_mono [of 0 x] by simp

lemma round_pos_dyadic:
  assumes "0 < x"
  shows "\<exists>m e. round_pos x = of_int m * 2 powi e \<and> 0 \<le> m \<and> m \<le> 2 ^ 53 \<and> - 1074 \<le> e"
proof -
  define e where "e = max (ilog2 x - 52) (- 1074)"
  have u: "ulp x = 2 powi e" by (simp add: ulp_def e_def)
  have "x < 2 powi (ilog2 x + 1)" using ilog2_spec [OF assms] by simp
  also have "(2 :: rat) powi (ilog2 x + 1) \<le> 2 powi (53 + e)" by (simp only: powi2_le_iff) (simp add: e_def)
  also have "\<dots> = 2 ^ 53 * 2 powi e" by (simp add: power_int_add)
  finally have "x / ulp x \<le> of_int (2 ^ 53)" by (simp add: u field_simps)
  then have "round_half_even (x / ulp x) \<le> 2 ^ 53"
    using round_half_even_mono [of "x / ulp x" "of_int (2 ^ 53)"] by (simp only: round_half_even_int)
  moreover have "0 \<le> round_half_even (x / ulp x)"
    using round_half_even_mono [of "of_int 0" "x / ulp x"] assms ulp_pos [of x] by (simp only: round_half_even_int) simp
  ultimately show ?thesis
    by (intro exI [of _ "round_half_even (x / ulp x)"] exI [of _ e]) (simp add: round_pos_def u e_def)
qed

lemma round_rat_idem [simp]: "round_rat (round_rat x) = round_rat x"
proof -
  have pos: "round_rat (round_pos y) = round_pos y" if "0 < y" for y
  proof -
    obtain m e where m: "round_pos y = of_int m * 2 powi e" "0 \<le> m" "m \<le> 2 ^ 53" "- 1074 \<le> e"
      using round_pos_dyadic [OF \<open>0 < y\<close>] by blast
    show ?thesis
    proof (cases "m = 2 ^ 53")
      case True
      then have "round_pos y = of_int 1 * 2 powi (e + 53)" using m(1) by (simp add: power_int_add)
      then show ?thesis using round_rat_dyadic [of 1 "e + 53"] m(4) by simp
    next
      case False
      then show ?thesis using round_rat_dyadic [of m e] m by simp
    qed
  qed
  consider "x = 0" | "0 < x" | "0 < - x" by linarith
  then show ?thesis
  proof cases
    case 2
    then show ?thesis using pos [of x] by (simp add: round_rat_def [of x])
  next
    case 3
    then have "round_rat x = - round_pos (- x)" by (simp add: round_rat_def [of x])
    then show ?thesis using pos [OF 3] by (simp add: round_rat_neg)
  qed simp
qed

subsection \<open>Finite, non-negative, bounded\<close>

definition fin_le :: "int \<Rightarrow> float64 \<Rightarrow> bool" where
  "fin_le k x \<longleftrightarrow> (\<exists>r. x = Fin r \<and> 0 \<le> r \<and> r \<le> 2 powi k)"

lemma fin_leI: "0 \<le> r \<Longrightarrow> r \<le> 2 powi k \<Longrightarrow> fin_le k (Fin r)"
  by (simp add: fin_le_def)

lemma fin_le_zero [simp]: "fin_le k (Fin 0)"
  by (simp add: fin_le_def)

lemma fin_le_mono: "fin_le j x \<Longrightarrow> j \<le> k \<Longrightarrow> fin_le k x"
  using powi2_le_iff [of j k] by (auto simp: fin_le_def)

lemma f64_fin_le:
  assumes "0 \<le> x" "x \<le> 2 powi k" "- 1000 \<le> k" "k \<le> 1000"
  shows "f64 x = Fin (round_rat x)" "fin_le k (f64 x)"
proof -
  have "(2 :: rat) powi k \<le> 2 powi 1000" using assms(4) by (simp only: powi2_le_iff)
  then show f: "f64 x = Fin (round_rat x)" using assms(1,2) by (intro f64_fin) simp
  have "round_rat x \<le> 2 powi k" using round_rat_mono [OF assms(2)] round_rat_powi [OF assms(3)] by simp
  then show "fin_le k (f64 x)" unfolding f using round_rat_nonneg [OF assms(1)] by (intro fin_leI)
qed

lemma f_mul_fin_le:
  assumes "fin_le j x" "fin_le k y" "- 1000 \<le> j + k" "j + k \<le> 1000"
  shows "fin_le (j + k) (f_mul x y)"
proof -
  obtain a b where ab: "x = Fin a" "0 \<le> a" "a \<le> 2 powi j" "y = Fin b" "0 \<le> b" "b \<le> 2 powi k"
    using assms(1,2) by (auto simp: fin_le_def)
  have "a * b \<le> 2 powi j * 2 powi k" using ab by (intro mult_mono) simp_all
  then have "a * b \<le> 2 powi (j + k)" by (simp add: power_int_add)
  then show ?thesis using f64_fin_le(2) [of "a * b" "j + k"] ab assms(3,4) by simp
qed

lemma f_div_fin_le:
  assumes "fin_le j x" "2 powi k \<le> b" "- 1000 \<le> j - k" "j - k \<le> 1000"
  shows "fin_le (j - k) (f_div x (Fin b))"
proof -
  obtain a where a: "x = Fin a" "0 \<le> a" "a \<le> 2 powi j" using assms(1) by (auto simp: fin_le_def)
  have k: "(0 :: rat) < 2 powi k" by simp
  then have b: "0 < b" using assms(2) by linarith
  have "a / b \<le> 2 powi j / 2 powi k" using a b assms(2) k by (intro frac_le) simp_all
  then have "a / b \<le> 2 powi (j - k)" by (simp add: power_int_diff)
  moreover have "0 \<le> a / b" using a b by simp
  ultimately show ?thesis using f64_fin_le(2) [of "a / b" "j - k"] a(1) b assms(3,4) by simp
qed

lemma f_of_int_fin_le: "0 \<le> i \<Longrightarrow> i \<le> 2 ^ n \<Longrightarrow> n \<le> 900 \<Longrightarrow> fin_le (int n) (f_of_int i)"
proof -
  assume i: "0 \<le> i" "i \<le> 2 ^ n" "n \<le> 900"
  have "(of_int i :: rat) \<le> of_int (2 ^ n)" using i(2) by (simp only: of_int_le_iff)
  then have "(of_int i :: rat) \<le> 2 powi int n" by simp
  then show ?thesis unfolding f_of_int_def using i f64_fin_le(2) [of "of_int i" "int n"] by simp
qed

text \<open>A positive duration in seconds is a positive float, neither tiny nor huge.\<close>

lemma trunc_div_nonneg: "0 \<le> a \<Longrightarrow> 0 < b \<Longrightarrow> trunc_div a b = a div b"
  by (auto simp: trunc_div_def sgn_if)

lemma duration_seconds_fin:
  assumes "in_int64 d"
  shows "\<exists>e. duration_seconds d = Fin e \<and> e \<le> 2 powi 40 \<and> (0 < d \<longrightarrow> 2 powi (- 30) \<le> e) \<and> (d \<le> 0 \<longrightarrow> e \<le> 0)"
proof -
  define s where "s = trunc_div d second"
  define n where "n = trunc_mod d second"
  have sn: "\<bar>s\<bar> < 2 ^ 34" "\<bar>n\<bar> < second" "0 \<le> d \<Longrightarrow> 0 \<le> s \<and> 0 \<le> n" "d \<le> 0 \<Longrightarrow> s \<le> 0 \<and> n \<le> 0" "d = second * s + n"
    using assms unfolding s_def n_def trunc_mod_def trunc_div_def in_int64_iff sgn_if by auto
  let ?s = "of_int s :: rat" and ?q = "round_rat (of_int n / 1000000000)"
  have s: "f_of_int s = Fin ?s" using sn(1) by (intro f_of_int_exact) simp
  have n: "f_of_int n = Fin (of_int n)" using sn(2) by (intro f_of_int_exact) simp
  have g: "f_of_int second = Fin 1000000000" using f_of_int_exact [of second] by simp
  have "\<bar>of_int n :: rat\<bar> < of_int second" using sn(2) by (simp only: of_int_less_iff flip: of_int_abs)
  then have qb: "\<bar>of_int n / 1000000000 :: rat\<bar> \<le> 1" by simp
  have big: "(2 :: rat) powi 40 \<le> 2 powi 1000" by (simp only: powi2_le_iff)
  have "\<bar>of_int n / 1000000000 :: rat\<bar> \<le> 2 powi 1000" using qb big by simp
  then have q: "f_div (f_of_int n) (f_of_int second) = Fin ?q" by (simp add: n g f64_fin)
  have q1: "?q \<le> 1" "- 1 \<le> ?q"
    using round_rat_mono [of "of_int n / 1000000000" 1] round_rat_mono [of "- 1" "of_int n / 1000000000"] qb
      round_rat_neg [of 1] by auto
  have "\<bar>of_int s :: rat\<bar> < of_int (2 ^ 34)" using sn(1) by (simp only: of_int_less_iff flip: of_int_abs)
  then have sb: "\<bar>?s\<bar> < 17179869184" by simp
  then have "\<bar>?s + ?q\<bar> \<le> 2 powi 40" using q1 by (simp add: abs_if split: if_splits)
  then have "\<bar>?s + ?q\<bar> \<le> 2 powi 1000" using big by linarith
  then have v: "duration_seconds d = Fin (round_rat (?s + ?q))"
    unfolding duration_seconds_def s_def [symmetric] n_def [symmetric] by (simp add: s q f64_fin)
  have up: "round_rat (?s + ?q) \<le> 2 powi 40"
    using round_rat_mono [of "?s + ?q" "2 powi 40"] round_rat_powi [of 40] \<open>\<bar>?s + ?q\<bar> \<le> 2 powi 40\<close> by auto
  have r30: "round_rat (2 powi (- 30)) = 2 powi (- 30)" by (rule round_rat_powi) simp
  have pos: "2 powi (- 30) \<le> round_rat (?s + ?q)" if "0 < d"
  proof -
    have z: "0 \<le> s" "0 \<le> n" "1 \<le> s \<or> 1 \<le> n" using sn(3,5) that by auto
    have q0: "0 \<le> ?q" using z(2) by (intro round_rat_nonneg) simp
    have "2 powi (- 30) \<le> ?s + ?q"
    proof (cases "1 \<le> s")
      case True
      then have "1 \<le> ?s" by simp
      moreover have "(2 :: rat) powi (- 30) \<le> 1" by simp
      ultimately show ?thesis using q0 by linarith
    next
      case False
      then have "1 \<le> (of_int n :: rat)" using z by simp
      then have "(2 :: rat) powi (- 30) \<le> of_int n / 1000000000" by (simp add: power_int_minus field_simps)
      from round_rat_mono [OF this] have "2 powi (- 30) \<le> ?q" by (simp only: r30)
      then show ?thesis using z(1) by simp
    qed
    from round_rat_mono [OF this] show ?thesis by (simp only: r30)
  qed
  have neg: "round_rat (?s + ?q) \<le> 0" if "d \<le> 0"
  proof -
    have "?s \<le> 0" "(of_int n :: rat) / 1000000000 \<le> 0" using sn(4) [OF that] by (simp_all add: divide_le_0_iff)
    then have "?s + ?q \<le> 0" using round_rat_mono [of "of_int n / 1000000000" 0] by simp
    then show ?thesis using round_rat_mono [of "?s + ?q" 0] by simp
  qed
  show ?thesis using v up pos neg by blast
qed

lemma round_rat_of_int: "\<exists>m. round_rat (of_int v) = of_int m"
proof -
  have pos: "\<exists>m. round_pos (of_int v) = of_int m" if "0 < v" for v
  proof (cases "v < 2 ^ 53")
    case True
    then have "round_rat (of_int v) = of_int v" using that by (intro round_rat_int) simp
    then show ?thesis using that by (auto simp: round_rat_def)
  next
    case False
    then have "(2 :: rat) powi 53 \<le> of_int v" by (simp add: power_int_numeral)
    also have "\<dots> < 2 powi (ilog2 (of_int v) + 1)" using ilog2_spec [of "of_int v"] that by simp
    finally have "53 < ilog2 (of_int v) + 1" by (simp only: powi2_less_iff)
    then obtain k where "ulp (of_int v) = of_int k"
      using powi2_multiple [of "ilog2 (of_int v) - 52" 0] by (auto simp: ulp_def)
    then have "round_pos (of_int v) = of_int (round_half_even (of_int v / ulp (of_int v)) * k)" by (simp add: round_pos_def)
    then show ?thesis by blast
  qed
  consider "v = 0" | "0 < v" | "0 < - v" by linarith
  then show ?thesis
  proof cases
    case 3
    then obtain m where "round_pos (- of_int v) = of_int m" using pos [of "- v"] by auto
    then have "round_rat (of_int v) = of_int (- m)" using 3 by (simp add: round_rat_def)
    then show ?thesis by blast
  qed (use pos [of v] in \<open>auto simp: round_rat_def\<close>)
qed

end
