(* ===== verification/Rule_Json.thy ===== *)
theory Rule_Json
  imports Alerts Go_Duration Float_Bounds
begin

text \<open>
  The JSON form of alert rules (\<open>MarshalJSON\<close>/\<open>UnmarshalJSON\<close> of internal/alerts): writing a rule
  and reading it back gives the rule, and a rule that was read has durations in range and no
  negative repeat interval, so the evaluator never sees one.
\<close>

lemma fst_snd_dec_string [simp]: "dec_string (JStr s) old = (s, False)" by simp

lemma rule_json_find:
  "find_field rule_json_fields ''name'' = Some (lift_field rj_name (\<lambda>x s. s\<lparr>rj_name := x\<rparr>) dec_string)"
  "find_field rule_json_fields ''metric'' = Some (lift_field rj_metric (\<lambda>x s. s\<lparr>rj_metric := x\<rparr>) dec_string)"
  "find_field rule_json_fields ''comparator'' = Some (lift_field rj_comparator (\<lambda>x s. s\<lparr>rj_comparator := x\<rparr>) dec_string)"
  "find_field rule_json_fields ''threshold'' = Some (lift_field rj_threshold (\<lambda>x s. s\<lparr>rj_threshold := x\<rparr>) dec_float)"
  "find_field rule_json_fields ''for'' = Some (lift_field rj_for (\<lambda>x s. s\<lparr>rj_for := x\<rparr>) dec_string)"
  "find_field rule_json_fields ''repeat_interval'' = Some (lift_field rj_repeat (\<lambda>x s. s\<lparr>rj_repeat := x\<rparr>) dec_string)"
  by (simp_all add: find_field_def rule_json_fields_def)

lemma service_rule_json_find:
  "find_field service_rule_json_fields ''name'' = Some (lift_field sj_name (\<lambda>x s. s\<lparr>sj_name := x\<rparr>) dec_string)"
  "find_field service_rule_json_fields ''service_name'' = Some (lift_field sj_service (\<lambda>x s. s\<lparr>sj_service := x\<rparr>) dec_string)"
  "find_field service_rule_json_fields ''notify_on_recovery'' = Some (lift_field sj_notify (\<lambda>x s. s\<lparr>sj_notify := x\<rparr>) dec_bool)"
  "find_field service_rule_json_fields ''repeat_interval'' = Some (lift_field sj_repeat (\<lambda>x s. s\<lparr>sj_repeat := x\<rparr>) dec_string)"
  by (simp_all add: find_field_def service_rule_json_fields_def)

definition rule_ok :: "rule \<Rightarrow> bool" where
  "rule_ok r \<longleftrightarrow> (\<exists>x. r_threshold r = Fin x \<and> f64 x = Fin x) \<and> in_int64 (r_for r)
     \<and> in_int64 (r_repeat r) \<and> 0 \<le> r_repeat r"

definition service_rule_ok :: "service_rule \<Rightarrow> bool" where
  "service_rule_ok r \<longleftrightarrow> in_int64 (sr_repeat r) \<and> 0 \<le> sr_repeat r"

lemma rule_fields_eq:
  "(r :: rule) = \<lparr>r_name = r_name r, r_metric = r_metric r, r_comparator = r_comparator r,
     r_threshold = r_threshold r, r_for = r_for r, r_repeat = r_repeat r\<rparr>"
  by simp

lemma rule_round_trip_aux:
  assumes "rule_ok r"
  obtains j where "rule_marshal r = Inr j" "\<And>old. rule_unmarshal j old = Inr r"
proof -
  obtain x where x: "r_threshold r = Fin x" "f64 x = Fin x" using assms by (auto simp: rule_ok_def)
  have d: "parse_duration (duration_string (r_for r)) = Inr (r_for r)"
    "parse_duration (duration_string (r_repeat r)) = Inr (r_repeat r)"
    using assms by (simp_all add: rule_ok_def parse_duration_string)
  let ?j = "JObj ([(''name'', JStr (r_name r)), (''metric'', JStr (r_metric r)),
      (''comparator'', JStr (r_comparator r)), (''threshold'', JNum x),
      (''for'', JStr (duration_string (r_for r)))] @ opt_field ''repeat_interval'' (repeat_text (r_repeat r)))"
  have m: "rule_marshal r = Inr ?j" by (simp add: rule_marshal_def enc_float_def x)
  have "dec_struct rule_json_fields ?j zero_rule_json = (\<lparr>rj_name = r_name r, rj_metric = r_metric r,
      rj_comparator = r_comparator r, rj_threshold = r_threshold r, rj_for = duration_string (r_for r),
      rj_repeat = repeat_text (r_repeat r)\<rparr>, False)"
    by (simp add: opt_field_def rule_json_find lift_field_def x zero_rule_json_def)
  then have "rule_unmarshal ?j old = Inr r" for old
    using d assms rule_fields_eq [of r] by (simp add: rule_unmarshal_def repeat_text_def rule_ok_def)
  with m show ?thesis by (rule that)
qed

lemma service_rule_round_trip_aux:
  assumes "service_rule_ok r"
  shows "service_rule_unmarshal (service_rule_marshal r) old = Inr r"
proof -
  have d: "parse_duration (duration_string (sr_repeat r)) = Inr (sr_repeat r)"
    using assms by (simp add: service_rule_ok_def parse_duration_string)
  have "dec_struct service_rule_json_fields (service_rule_marshal r) zero_service_rule_json =
      (\<lparr>sj_name = sr_name r, sj_service = sr_service r, sj_notify = sr_notify_recovery r,
        sj_repeat = repeat_text (sr_repeat r)\<rparr>, False)"
    by (simp add: service_rule_marshal_def opt_field_def service_rule_json_find lift_field_def
        zero_service_rule_json_def)
  then show ?thesis
    using d assms by (simp add: service_rule_unmarshal_def repeat_text_def service_rule_ok_def)
qed

text \<open>An invariant of decoding: what holds of each field's successful decoding holds at the end.\<close>

lemma dec_pairs_invariant:
  assumes "\<And>k d v s. find_field fs k = Some d \<Longrightarrow> I s \<Longrightarrow> \<not> snd (d v s) \<Longrightarrow> I (fst (d v s))"
  shows "I s \<Longrightarrow> \<not> snd (dec_pairs fs kvs s) \<Longrightarrow> I (fst (dec_pairs fs kvs s))"
proof (induction kvs arbitrary: s)
  case (Cons kv kvs)
  obtain k v where kv: "kv = (k, v)" by fastforce
  show ?case
  proof (cases "find_field fs k")
    case None
    then show ?thesis using Cons kv by (auto simp: Let_def split: prod.splits)
  next
    case (Some d)
    then have "\<not> snd (d v s)" "\<not> snd (dec_pairs fs kvs (fst (d v s)))"
      using Cons.prems(2) kv by (auto simp: Let_def split: prod.splits)
    moreover have "I (fst (d v s))" using assms [OF Some Cons.prems(1)] calculation(1) by blast
    ultimately have "I (fst (dec_pairs fs kvs (fst (d v s))))" using Cons.IH by blast
    then show ?thesis using Some kv by (auto simp: Let_def split: prod.splits)
  qed
qed simp

lemma dec_struct_invariant:
  assumes "\<And>k d v s. find_field fs k = Some d \<Longrightarrow> I s \<Longrightarrow> \<not> snd (d v s) \<Longrightarrow> I (fst (d v s))" "I s"
    "dec_struct fs j s = (s', False)"
  shows "I s'"
proof (cases j)
  case (JObj kvs)
  then show ?thesis using dec_pairs_invariant [of fs I s kvs] assms by simp
qed (use assms in auto)

lemma rule_json_find_cases:
  assumes "find_field rule_json_fields k = Some d"
  obtains (plain) get put where "d = lift_field get put dec_string" "\<And>x s. rj_threshold (put x s) = rj_threshold s"
  | (threshold) "d = lift_field rj_threshold (\<lambda>x s. s\<lparr>rj_threshold := x\<rparr>) dec_float"
proof -
  have "d \<in> snd ` set rule_json_fields"
    using assms by (force dest: find_field_in)
  then show ?thesis using plain threshold unfolding rule_json_fields_def by auto
qed

definition exact :: "float64 \<Rightarrow> bool" where
  "exact t \<longleftrightarrow> (\<exists>x. t = Fin x \<and> f64 x = Fin x)"

lemma f64_exact: "f64 r = Fin x \<Longrightarrow> f64 x = Fin x"
  by (auto simp: f64_def Let_def split: if_splits)

lemma dec_float_exact:
  assumes "exact t" "\<not> snd (dec_float v t)"
  shows "exact (fst (dec_float v t))"
proof (cases v)
  case (JNum r)
  show ?thesis
  proof (cases "f64 r")
    case (Fin x)
    then show ?thesis using f64_exact [OF Fin] by (simp add: JNum exact_def)
  qed (use assms JNum in auto)
qed (use assms in auto)

lemma rule_unmarshal_ok:
  assumes "rule_unmarshal j old = Inr r"
  shows "rule_ok r"
proof -
  obtain raw where raw: "dec_struct rule_json_fields j zero_rule_json = (raw, False)"
    using assms by (auto simp: rule_unmarshal_def Let_def split: prod.splits if_splits)
  have "exact (rj_threshold raw)"
  proof (rule dec_struct_invariant [where I = "\<lambda>s. exact (rj_threshold s)", OF _ _ raw])
    fix k d v and s :: rule_json
    assume d: "find_field rule_json_fields k = Some d" "exact (rj_threshold s)" "\<not> snd (d v s)"
    from d(1) show "exact (rj_threshold (fst (d v s)))"
    proof (cases rule: rule_json_find_cases)
      case (plain get put)
      then show ?thesis using d(2) by (simp add: lift_field_def split: prod.splits)
    next
      case threshold
      then show ?thesis using d(2,3)
        using dec_float_exact [of "rj_threshold s" v] by (simp add: lift_field_def split: prod.splits)
    qed
  next
    have "f64 0 = Fin 0" by code_simp
    then show "exact (rj_threshold zero_rule_json)" by (simp add: exact_def zero_rule_json_def)
  qed
  moreover have "in_int64 (r_for r) \<and> in_int64 (r_repeat r) \<and> 0 \<le> r_repeat r \<and> r_threshold r = rj_threshold raw"
    using assms raw
    by (auto simp: rule_unmarshal_def Let_def int64_limits in_int64_def dest!: parse_duration_range
        split: if_splits sum.splits)
  ultimately show ?thesis by (simp add: rule_ok_def exact_def)
qed

lemma service_rule_unmarshal_in_range: "service_rule_unmarshal j old = Inr r \<Longrightarrow> service_rule_ok r"
  by (auto simp: service_rule_unmarshal_def service_rule_ok_def Let_def int64_limits in_int64_def
      dest!: parse_duration_range split: prod.splits if_splits sum.splits)

text \<open>
  Rules survive their JSON form. A rule with a finite threshold, \<open>int64\<close> durations and no
  negative repeat interval is written without an error and read back unchanged, whatever the
  variable held before; a service rule likewise.
\<close>
theorem rules_survive_json:
  assumes "rule_ok r" "service_rule_ok sr"
  shows "(\<exists>j. rule_marshal r = Inr j \<and> rule_unmarshal j old = Inr r) \<and>
         service_rule_unmarshal (service_rule_marshal sr) old' = Inr sr"
  using rule_round_trip_aux [OF assms(1)] service_rule_round_trip_aux [OF assms(2)] by metis

theorem rules_survive_json_witness:
  "\<exists>j. rule_marshal \<lparr>r_name = ''load'', r_metric = MetricLoadAvg1, r_comparator = ComparatorGreaterThan,
        r_threshold = Fin (9 / 2), r_for = 300000000000, r_repeat = 3600000000000\<rparr> = Inr j \<and>
     rule_unmarshal j zero_rule = Inr \<lparr>r_name = ''load'', r_metric = MetricLoadAvg1,
        r_comparator = ComparatorGreaterThan, r_threshold = Fin (9 / 2), r_for = 300000000000,
        r_repeat = 3600000000000\<rparr>"
proof -
  let ?r = "\<lparr>r_name = ''load'', r_metric = MetricLoadAvg1, r_comparator = ComparatorGreaterThan,
        r_threshold = Fin (9 / 2), r_for = 300000000000, r_repeat = 3600000000000\<rparr>"
  have "f64 (9 / 2) = Fin (9 / 2)" by code_simp
  then have e: "\<exists>x. r_threshold ?r = Fin x \<and> f64 x = Fin x" by (intro exI [of _ "9 / 2"]) simp
  have "rule_ok ?r" unfolding rule_ok_def by (intro conjI e) (simp_all add: go_num)
  moreover have "service_rule_ok zero_service_rule" by code_simp
  ultimately show ?thesis using rules_survive_json [of ?r zero_service_rule] by blast
qed

end
