(* ===== verification/Store_Memory.thy ===== *)
theory Store_Memory
  imports Collector_Types
begin

text \<open>
  internal/store: the \<open>Store\<close> interface the collector and the API rely on, as the locale
  \<open>sample_store\<close>, and the in-memory implementation \<open>MemoryStore\<close> (memory.go), which is the locale's
  interpretation. \<open>QueryRange\<close> is translated with the binary search of \<open>sort.Search\<close> and the early
  break; the contract says it returns exactly the samples of the closed range, in order.
\<close>

subsection \<open>The standard library's binary search\<close>

function sort_search :: "(nat \<Rightarrow> bool) \<Rightarrow> nat \<Rightarrow> nat \<Rightarrow> nat" where
  "sort_search f i j =
     (if i < j then (let h = (i + j) div 2 in if \<not> f h then sort_search f (h + 1) j else sort_search f i h)
      else i)"
  by pat_completeness auto
termination by (relation "measure (\<lambda>(f, i, j). j - i)") auto

declare sort_search.simps [simp del]

lemma sort_search_spec:
  "i \<le> j \<Longrightarrow> \<forall>a b. a \<le> b \<and> b < j \<and> f a \<longrightarrow> f b \<Longrightarrow> \<forall>a < i. \<not> f a \<Longrightarrow>
   sort_search f i j \<le> j \<and> (\<forall>a < sort_search f i j. \<not> f a)
   \<and> (\<forall>a. sort_search f i j \<le> a \<and> a < j \<longrightarrow> f a)"
proof (induction f i j rule: sort_search.induct)
  case (1 f i j)
  show ?case
  proof (cases "i < j")
    case False
    then show ?thesis using "1.prems" by (subst (1 2 3) sort_search.simps) auto
  next
    case True
    define h where "h = (i + j) div 2"
    have h: "i \<le> h" "h < j" using True by (auto simp: h_def)
    show ?thesis
    proof (cases "f h")
      case True
      have e: "sort_search f i j = sort_search f i h"
        using \<open>i < j\<close> True by (subst sort_search.simps) (simp add: h_def Let_def)
      have above: "\<forall>a. h \<le> a \<and> a < j \<longrightarrow> f a" using "1.prems"(2) True by blast
      have "\<forall>a b. a \<le> b \<and> b < h \<and> f a \<longrightarrow> f b" using "1.prems"(2) h(2) by (meson less_trans)
      with "1.IH"(2) [OF \<open>i < j\<close> h_def] True h(1) "1.prems"(3)
      have "sort_search f i h \<le> h \<and> (\<forall>a < sort_search f i h. \<not> f a)
          \<and> (\<forall>a. sort_search f i h \<le> a \<and> a < h \<longrightarrow> f a)" by blast
      with above h show ?thesis unfolding e by (meson le_trans less_imp_le not_le)
    next
      case False
      have e: "sort_search f i j = sort_search f (h + 1) j"
        using \<open>i < j\<close> False by (subst sort_search.simps) (simp add: h_def Let_def)
      have "\<forall>a < h + 1. \<not> f a" using "1.prems"(2) h(2) False by (metis Suc_eq_plus1 less_Suc_eq_le)
      with "1.IH"(1) [OF \<open>i < j\<close> h_def] False h(2) "1.prems"(2) show ?thesis
        unfolding e by (metis Suc_eq_plus1 Suc_leI)
    qed
  qed
qed

subsection \<open>The interface\<close>

datatype store_error = ErrNoSamples | StoreError string

definition chronological :: "sample list \<Rightarrow> bool" where
  "chronological xs \<longleftrightarrow> sorted (map timestamp xs)"

lemma chronological_drop: "chronological xs \<Longrightarrow> chronological (drop k xs)"
  by (simp add: chronological_def sorted_wrt_drop flip: drop_map)

definition in_range :: "time \<Rightarrow> time \<Rightarrow> sample \<Rightarrow> bool" where
  "in_range from_t to_t s \<longleftrightarrow> from_t \<le> timestamp s \<and> timestamp s \<le> to_t"

locale sample_store =
  fixes save :: "sample \<Rightarrow> 's \<Rightarrow> 's"
    and query :: "time \<Rightarrow> time \<Rightarrow> 's \<Rightarrow> sample list"
    and latest :: "'s \<Rightarrow> store_error + sample"
    and contents :: "'s \<Rightarrow> sample list"
  assumes save_law: "\<exists>k \<le> length (contents s). contents (save x s) = drop k (contents s @ [x])"
    and query_law: "chronological (contents s) \<Longrightarrow> query f t s = filter (in_range f t) (contents s)"
    and latest_law: "latest s = (if contents s = [] then Inl ErrNoSamples else Inr (last (contents s)))"
begin

lemma save_nonempty: "contents (save x s) \<noteq> []"
  using save_law [of s x] by auto

lemma latest_after_save: "latest (save x s) = Inr x"
proof -
  obtain k where "k \<le> length (contents s)" "contents (save x s) = drop k (contents s @ [x])"
    using save_law by blast
  then show ?thesis by (simp add: latest_law)
qed

lemma save_chronological:
  assumes "chronological (contents s)" "\<forall>y \<in> set (contents s). timestamp y \<le> timestamp x"
  shows "chronological (contents (save x s))"
proof -
  obtain k where k: "contents (save x s) = drop k (contents s @ [x])" using save_law by blast
  have "chronological (contents s @ [x])"
    using assms by (simp add: chronological_def sorted_append)
  then show ?thesis unfolding k by (rule chronological_drop)
qed

lemma save_all_suffix: "\<exists>k \<le> length (contents s @ xs). contents (fold save xs s) = drop k (contents s @ xs)"
proof (induction xs arbitrary: s)
  case Nil
  show ?case by (rule exI [of _ 0]) simp
next
  case (Cons x xs)
  obtain k where k: "k \<le> length (contents s)" "contents (save x s) = drop k (contents s @ [x])"
    using save_law by blast
  obtain l where l: "contents (fold save xs (save x s)) = drop l (contents (save x s) @ xs)"
    using Cons.IH by blast
  have "drop k (contents s @ [x]) @ xs = drop k (contents s @ x # xs)" using k(1) by simp
  then have "contents (fold save (x # xs) s) = drop (k + l) (contents s @ x # xs)"
    using k l by (simp add: add.commute)
  then show ?case
    by (intro exI [of _ "min (k + l) (length (contents s @ x # xs))"]) (auto simp: min_def)
qed

text \<open>After a chronological run of saves, a query returns the range's samples that are still held.\<close>

lemma query_after_saves:
  assumes "contents s = []" "chronological xs"
  shows "\<exists>k \<le> length xs. query f t (fold save xs s) = filter (in_range f t) (drop k xs)"
proof -
  obtain k where k: "k \<le> length xs" "contents (fold save xs s) = drop k xs"
    using save_all_suffix [of s xs] assms(1) by auto
  have "chronological (drop k xs)" using assms(2) by (rule chronological_drop)
  then show ?thesis using k query_law [of "fold save xs s" f t] by auto
qed

lemma latest_after_saves: "xs \<noteq> [] \<Longrightarrow> latest (fold save xs s) = Inr (last xs)"
proof (induction xs rule: rev_induct)
  case (snoc x xs)
  then show ?case by (simp add: latest_after_save)
qed simp

end

subsection \<open>\<open>MemoryStore\<close>\<close>

record memory_store =
  ms_samples :: "sample list"
  ms_max :: int

definition new_memory_store :: "int \<Rightarrow> memory_store" where
  "new_memory_store max_samples = \<lparr>ms_samples = [], ms_max = max_samples\<rparr>"

definition memory_save :: "sample \<Rightarrow> memory_store \<Rightarrow> memory_store" where
  "memory_save x m =
     (let xs = ms_samples m @ [x]
      in if 0 < ms_max m \<and> ms_max m < int (length xs)
         then m\<lparr>ms_samples := drop (nat (int (length xs) - ms_max m)) xs\<rparr>
         else m\<lparr>ms_samples := xs\<rparr>)"

definition memory_query :: "time \<Rightarrow> time \<Rightarrow> memory_store \<Rightarrow> sample list" where
  "memory_query from_t to_t m =
     (let start = sort_search (\<lambda>i. \<not> time_before (timestamp (ms_samples m ! i)) from_t)
                    0 (length (ms_samples m))
      in takeWhile (\<lambda>s. \<not> time_after (timestamp s) to_t) (drop start (ms_samples m)))"

definition memory_latest :: "memory_store \<Rightarrow> store_error + sample" where
  "memory_latest m = (if ms_samples m = [] then Inl ErrNoSamples
     else Inr (ms_samples m ! (length (ms_samples m) - 1)))"

text \<open>\<open>ApplyRetention\<close> and \<open>Close\<close> of the memory store do nothing.\<close>

record retention_policy =
  rp_raw :: duration
  rp_minutely :: duration
  rp_hourly :: duration

definition default_retention_policy :: retention_policy where
  "default_retention_policy = \<lparr>rp_raw = 24 * hour, rp_minutely = 7 * 24 * hour, rp_hourly = 90 * 24 * hour\<rparr>"

definition memory_apply_retention :: "retention_policy \<Rightarrow> memory_store \<Rightarrow> memory_store" where
  "memory_apply_retention p m = m"

definition memory_close :: "memory_store \<Rightarrow> memory_store" where
  "memory_close m = m"

lemma takeWhile_filter_sorted:
  "sorted (map key xs) \<Longrightarrow> takeWhile (\<lambda>x. \<not> (b :: 'b :: linorder) < key x) xs = filter (\<lambda>x. key x \<le> b) xs"
proof (induction xs)
  case (Cons x xs)
  show ?case
  proof (cases "key x \<le> b")
    case True
    then show ?thesis using Cons by auto
  next
    case False
    then have "\<forall>y \<in> set xs. \<not> key y \<le> b" using Cons.prems by auto
    then show ?thesis using False by (simp add: filter_empty_conv not_le)
  qed
qed simp

lemma memory_query_sorted:
  assumes "chronological (ms_samples m)"
  shows "memory_query f t m = filter (in_range f t) (ms_samples m)"
proof -
  let ?xs = "ms_samples m"
  define n where "n = sort_search (\<lambda>i. \<not> time_before (timestamp (?xs ! i)) f) 0 (length ?xs)"
  have mono: "timestamp (?xs ! a) \<le> timestamp (?xs ! b)" if "a \<le> b" "b < length ?xs" for a b
    using assms sorted_nth_mono [of "map timestamp ?xs" a b] that by (simp add: chronological_def)
  have P: "(\<lambda>i. \<not> time_before (timestamp (?xs ! i)) f) = (\<lambda>i. f \<le> timestamp (?xs ! i))"
    by (simp add: time_before_def not_less)
  have m: "\<forall>a b. a \<le> b \<and> b < length ?xs \<and> f \<le> timestamp (?xs ! a) \<longrightarrow> f \<le> timestamp (?xs ! b)"
    using mono by (meson order_trans)
  have spec: "n \<le> length ?xs \<and> (\<forall>a < n. \<not> f \<le> timestamp (?xs ! a)) \<and>
      (\<forall>a. n \<le> a \<and> a < length ?xs \<longrightarrow> f \<le> timestamp (?xs ! a))"
    unfolding n_def P by (rule sort_search_spec [OF _ m]) simp_all
  then have n: "n \<le> length ?xs" "\<forall>a < n. timestamp (?xs ! a) < f"
    "\<forall>a. n \<le> a \<and> a < length ?xs \<longrightarrow> f \<le> timestamp (?xs ! a)" unfolding not_le by blast+
  have lo: "\<forall>x \<in> set (take n ?xs). timestamp x < f" using n(1,2) by (auto simp: in_set_conv_nth)
  have hi: "\<forall>x \<in> set (drop n ?xs). f \<le> timestamp x" using n(1,3) by (auto simp: in_set_conv_nth)
  have "memory_query f t m = takeWhile (\<lambda>s. \<not> t < timestamp s) (drop n ?xs)"
    by (simp add: memory_query_def Let_def n_def time_after_def)
  also have "\<dots> = filter (\<lambda>s. timestamp s \<le> t) (drop n ?xs)"
    using assms by (intro takeWhile_filter_sorted) (simp add: chronological_def sorted_wrt_drop flip: drop_map)
  also have "\<dots> = filter (in_range f t) (drop n ?xs)"
    using hi by (intro filter_cong) (auto simp: in_range_def)
  also have "\<dots> = filter (in_range f t) (take n ?xs @ drop n ?xs)"
  proof -
    have "filter (in_range f t) (take n ?xs) = []"
      using lo by (auto simp: filter_empty_conv in_range_def)
    then show ?thesis by (simp only: filter_append append_Nil)
  qed
  finally show ?thesis by simp
qed

interpretation mem: sample_store memory_save memory_query memory_latest ms_samples
proof (unfold_locales, goal_cases)
  case (1 s x)
  show ?case
  proof (cases "0 < ms_max s \<and> ms_max s < int (length (ms_samples s @ [x]))")
    case True
    then show ?thesis
      by (intro exI [of _ "nat (int (length (ms_samples s @ [x])) - ms_max s)"]) (auto simp: memory_save_def Let_def)
  next
    case False
    then have "memory_save x s = s\<lparr>ms_samples := ms_samples s @ [x]\<rparr>"
      unfolding memory_save_def Let_def by (rule if_not_P)
    then show ?thesis by (intro exI [of _ 0]) simp
  qed
next
  case (2 s f t)
  then show ?case by (rule memory_query_sorted)
next
  case (3 s)
  show ?case by (simp add: memory_latest_def last_conv_nth)
qed

lemma memory_save_max [simp]: "ms_max (memory_save x m) = ms_max m"
  by (simp add: memory_save_def Let_def)

lemma memory_save_length:
  "int (length (ms_samples (memory_save x m))) =
     (if 0 < ms_max m \<and> ms_max m < int (length (ms_samples m)) + 1 then ms_max m
      else int (length (ms_samples m)) + 1)"
  by (auto simp: memory_save_def Let_def)

lemma memory_saves_length:
  "0 < ms_max m \<Longrightarrow> int (length (ms_samples m)) \<le> ms_max m \<Longrightarrow>
   int (length (ms_samples (fold memory_save xs m))) = min (ms_max m) (int (length (ms_samples m)) + int (length xs))"
proof (induction xs arbitrary: m)
  case (Cons x xs)
  have "int (length (ms_samples (memory_save x m))) = min (ms_max m) (int (length (ms_samples m)) + 1)"
    using Cons.prems by (simp add: memory_save_length min_def)
  then show ?case using Cons by simp
qed simp

lemma memory_contents:
  assumes "0 < cap"
  shows "ms_samples (fold memory_save xs (new_memory_store cap)) = drop (length xs - nat cap) xs"
proof -
  let ?m = "fold memory_save xs (new_memory_store cap)"
  obtain k where k: "k \<le> length xs" "ms_samples ?m = drop k xs"
    using mem.save_all_suffix [of "new_memory_store cap" xs] by (auto simp: new_memory_store_def)
  have "int (length (ms_samples ?m)) = min cap (int (length xs))"
    using memory_saves_length [of "new_memory_store cap" xs] assms by (simp add: new_memory_store_def)
  then have "int (length xs) - int k = min cap (int (length xs))" using k by simp
  then have "k = length xs - nat cap" using assms by linarith
  with k show ?thesis by simp
qed

text \<open>
  C14. History of the in-memory store. After any chronological sequence of saves into a store of
  capacity \<open>cap\<close>, \<open>QueryRange\<close> (binary search and early break) returns exactly the samples of the
  closed time range among the newest \<open>cap\<close> saved, in order, and \<open>LatestSample\<close> the last one saved.
\<close>
theorem memory_history:
  assumes "0 < cap" "chronological xs"
  shows "memory_query f t (fold memory_save xs (new_memory_store cap)) =
           filter (in_range f t) (drop (length xs - nat cap) xs) \<and>
         memory_latest (fold memory_save xs (new_memory_store cap)) =
           (if xs = [] then Inl ErrNoSamples else Inr (last xs))"
proof
  let ?m = "fold memory_save xs (new_memory_store cap)"
  have c: "ms_samples ?m = drop (length xs - nat cap) xs" using assms(1) by (rule memory_contents)
  have "chronological (ms_samples ?m)" unfolding c using assms(2) by (rule chronological_drop)
  then show "memory_query f t ?m = filter (in_range f t) (drop (length xs - nat cap) xs)"
    using mem.query_law c by simp
  show "memory_latest ?m = (if xs = [] then Inl ErrNoSamples else Inr (last xs))"
    using mem.latest_after_saves [of xs "new_memory_store cap"]
    by (simp add: memory_latest_def new_memory_store_def)
qed

theorem memory_history_witness:
  "memory_query 20 30 (fold memory_save (map (\<lambda>t. zero_sample\<lparr>timestamp := t\<rparr>) [10, 20, 30, 40])
     (new_memory_store 2)) = [zero_sample\<lparr>timestamp := 30\<rparr>]"
proof -
  let ?xs = "map (\<lambda>t. zero_sample\<lparr>timestamp := t\<rparr>) [10, 20, 30, 40]"
  have "chronological ?xs" unfolding chronological_def by code_simp
  moreover have "filter (in_range 20 30) (drop (length ?xs - nat 2) ?xs) = [zero_sample\<lparr>timestamp := 30\<rparr>]"
    by code_simp
  ultimately show ?thesis using memory_history [of 2 ?xs 20 30] by simp
qed

text \<open>
  Memory bound. A store of positive capacity never holds more samples than that, and while it
  is below the capacity no sample is dropped.
\<close>
theorem memory_store_bounded:
  assumes "0 < cap"
  shows "int (length (ms_samples (fold memory_save xs (new_memory_store cap)))) \<le> cap \<and>
    (int (length xs) \<le> cap \<longrightarrow> ms_samples (fold memory_save xs (new_memory_store cap)) = xs)"
  using assms by (simp add: memory_contents)

theorem memory_store_bounded_witness:
  "int (length (ms_samples (fold memory_save (replicate 5 zero_sample) (new_memory_store 3)))) \<le> 3"
  using memory_store_bounded [of 3 "replicate 5 zero_sample"] by simp

end
