(* ===== verification/Go_Os.thy ===== *)
theory Go_Os
  imports Go_Json Go_Strconv
begin

text \<open>
  The file operations of package \<open>os\<close> the agent uses to keep its JSON files: read, write a temporary
  file, rename it over the real one. A file's content is the JSON value its bytes are the text of, or
  \<open>Garbage\<close> when they are no JSON text, or \<open>EmptyFile\<close>. Every operation takes the operating system's answer as an
  argument, \<open>None\<close> for success and \<open>Some e\<close> for a failure with the message \<open>e\<close>, so a statement for
  all answers covers every failure. A failed write may leave anything in the file it wrote to, the
  parameter \<open>torn\<close>.
\<close>

datatype file_content = Doc json | Garbage | EmptyFile

type_synonym fs = "string \<Rightarrow> file_content option"

type_synonym os_answer = "string option"

datatype read_result = Content file_content | NotExist | ReadError string

definition read_file :: "os_answer \<Rightarrow> fs \<Rightarrow> string \<Rightarrow> read_result" where
  "read_file a files p = (case a of Some e \<Rightarrow> ReadError e
     | None \<Rightarrow> (case files p of None \<Rightarrow> NotExist | Some c \<Rightarrow> Content c))"

record write_answers =
  wa_write :: os_answer
  wa_torn :: "file_content option"
  wa_rename :: os_answer

definition write_file :: "write_answers \<Rightarrow> string \<Rightarrow> file_content \<Rightarrow> fs \<Rightarrow> fs \<times> os_answer" where
  "write_file a p c files = (case wa_write a of
       None \<Rightarrow> (files(p := Some c), None)
     | Some e \<Rightarrow> (files(p := wa_torn a), Some e))"

definition rename_file :: "write_answers \<Rightarrow> string \<Rightarrow> string \<Rightarrow> fs \<Rightarrow> fs \<times> os_answer" where
  "rename_file a p q files = (case wa_rename a of
       Some e \<Rightarrow> (files, Some e)
     | None \<Rightarrow> (case files p of
         None \<Rightarrow> (files, Some ''no such file or directory'')
       | Some c \<Rightarrow> ((files(p := None))(q := Some c), None)))"

definition all_ok :: write_answers where
  "all_ok = \<lparr>wa_write = None, wa_torn = None, wa_rename = None\<rparr>"

definition tmp_path :: "string \<Rightarrow> string" where "tmp_path p = p @ ''.tmp''"

text \<open>Write a temporary file, then rename it: what \<open>persist\<close> and \<open>saveConfigFields\<close> end with.\<close>

definition replace_file :: "write_answers \<Rightarrow> string \<Rightarrow> file_content \<Rightarrow> fs \<Rightarrow> fs \<times> os_answer" where
  "replace_file a p c files =
     (let (fs1, r) = write_file a (tmp_path p) c files
      in case r of Some e \<Rightarrow> (fs1, Some e) | None \<Rightarrow> rename_file a (tmp_path p) p fs1)"

lemma tmp_path_neq [simp]: "tmp_path p \<noteq> p" "p \<noteq> tmp_path p"
  by (simp_all add: tmp_path_def)

text \<open>The file is replaced as a whole or, on an error, left as it was.\<close>

lemma replace_file_atomic:
  assumes "replace_file a p c files = (files', r)"
  shows "files' p = (if r = None then Some c else files p) \<and> (\<forall>q. q \<noteq> p \<and> q \<noteq> tmp_path p \<longrightarrow> files' q = files q)"
proof (cases "wa_write a")
  case (Some e)
  then show ?thesis using assms by (auto simp: replace_file_def write_file_def)
next
  case None
  then show ?thesis
    using assms by (cases "wa_rename a") (auto simp: replace_file_def write_file_def rename_file_def)
qed

lemma replace_file_ok: "snd (replace_file all_ok p c files) = None"
  by (simp add: replace_file_def write_file_def rename_file_def all_ok_def)

end
