(* ===== verification/Push_Tokens.thy ===== *)
theory Push_Tokens
  imports Go_Os
begin

text \<open>
  internal/pushrelay/tokenstore.go: the devices registered for push. A \<open>TokenStore\<close> keeps its
  registrations in memory and writes the whole list to a file after each change; it is read back by
  \<open>NewTokenStore\<close>, which also understands the older one-token file. The nil slice and the empty one
  are not distinguished here: every reader copies the slice and \<open>persist\<close> replaces nil by an empty one.
\<close>

definition EnvironmentProduction :: string where "EnvironmentProduction = ''production''"
definition EnvironmentDevelopment :: string where "EnvironmentDevelopment = ''development''"

definition normalize_environment :: "string \<Rightarrow> string" where
  "normalize_environment env = (if env = EnvironmentDevelopment then EnvironmentDevelopment else EnvironmentProduction)"

record registration =
  reg_token :: string
  reg_environment :: string
  reg_label :: string

definition zero_registration :: registration where
  "zero_registration = \<lparr>reg_token = [], reg_environment = [], reg_label = []\<rparr>"

definition display_label :: "registration \<Rightarrow> string" where
  "display_label r = (if reg_label r \<noteq> [] then reg_label r else ''Unnamed device'')"

subsection \<open>The file\<close>

definition registration_fields :: "registration fields" where
  "registration_fields =
     [(''token'', lift_field reg_token (\<lambda>x s. s\<lparr>reg_token := x\<rparr>) dec_string),
      (''environment'', lift_field reg_environment (\<lambda>x s. s\<lparr>reg_environment := x\<rparr>) dec_string),
      (''label'', lift_field reg_label (\<lambda>x s. s\<lparr>reg_label := x\<rparr>) dec_string)]"

definition registration_json :: "registration \<Rightarrow> json" where
  "registration_json r =
     JObj ([(''token'', JStr (reg_token r)), (''environment'', JStr (reg_environment r))]
       @ (if reg_label r = [] then [] else [(''label'', JStr (reg_label r))]))"

record token_file =
  tf_registrations :: "registration slice"
  tf_token :: string
  tf_environment :: string

definition zero_token_file :: token_file where
  "zero_token_file = \<lparr>tf_registrations = None, tf_token = [], tf_environment = []\<rparr>"

definition token_file_fields :: "token_file fields" where
  "token_file_fields =
     [(''registrations'', lift_field tf_registrations (\<lambda>x s. s\<lparr>tf_registrations := x\<rparr>)
         (dec_slice (dec_struct registration_fields) zero_registration)),
      (''token'', lift_field tf_token (\<lambda>x s. s\<lparr>tf_token := x\<rparr>) dec_string),
      (''environment'', lift_field tf_environment (\<lambda>x s. s\<lparr>tf_environment := x\<rparr>) dec_string)]"

definition token_file_json :: "registration list \<Rightarrow> json" where
  "token_file_json rs = JObj [(''registrations'', JArr (map registration_json rs))]"

subsection \<open>The store\<close>

record token_store =
  ts_path :: string
  ts_regs :: "registration list"

definition load_registrations :: "token_file \<Rightarrow> registration list" where
  "load_registrations raw =
     (if elems (tf_registrations raw) \<noteq> []
      then map (\<lambda>r. r\<lparr>reg_environment := normalize_environment (reg_environment r)\<rparr>)
             (filter (\<lambda>r. reg_token r \<noteq> []) (elems (tf_registrations raw)))
      else if tf_token raw \<noteq> []
      then [\<lparr>reg_token = tf_token raw, reg_environment = normalize_environment (tf_environment raw),
             reg_label = []\<rparr>]
      else [])"

definition new_token_store :: "os_answer \<Rightarrow> fs \<Rightarrow> string \<Rightarrow> token_store result" where
  "new_token_store a files path =
     (case read_file a files path of
        NotExist \<Rightarrow> Inr \<lparr>ts_path = path, ts_regs = []\<rparr>
      | ReadError e \<Rightarrow> Inl e
      | Content Garbage \<Rightarrow> Inl ''invalid character''
      | Content EmptyFile \<Rightarrow> Inl ''unexpected end of JSON input''
      | Content (Doc j) \<Rightarrow>
          (let (raw, bad) = dec_struct token_file_fields j zero_token_file
           in if bad then Inl ''json: cannot unmarshal''
              else Inr \<lparr>ts_path = path, ts_regs = load_registrations raw\<rparr>))"

definition token_all :: "token_store \<Rightarrow> registration list" where
  "token_all ts = ts_regs ts"

definition token_labels :: "token_store \<Rightarrow> string list" where
  "token_labels ts = map display_label (ts_regs ts)"

fun find_registration :: "registration list \<Rightarrow> string \<Rightarrow> registration option" where
  "find_registration [] t = None"
| "find_registration (r # rs) t = (if reg_token r = t then Some r else find_registration rs t)"

definition token_find :: "token_store \<Rightarrow> string \<Rightarrow> registration option" where
  "token_find ts t = find_registration (ts_regs ts) t"

definition token_count :: "token_store \<Rightarrow> nat" where
  "token_count ts = length (ts_regs ts)"

text \<open>The loop of \<open>Set\<close>: update the first entry of the token; the flag is \<open>replaced\<close>.\<close>

fun update_registration :: "string \<Rightarrow> string \<Rightarrow> string \<Rightarrow> registration list \<Rightarrow> registration list \<times> bool" where
  "update_registration t env lab [] = ([], False)"
| "update_registration t env lab (r # rs) =
     (if reg_token r = t
      then ((let r1 = r\<lparr>reg_environment := env\<rparr> in if lab \<noteq> [] then r1\<lparr>reg_label := lab\<rparr> else r1) # rs, True)
      else (let (rs', b) = update_registration t env lab rs in (r # rs', b)))"

definition set_registration :: "string \<Rightarrow> string \<Rightarrow> string \<Rightarrow> registration list \<Rightarrow> registration list" where
  "set_registration t env lab rs =
     (let (rs', replaced) = update_registration t env lab rs
      in if replaced then rs'
         else rs' @ [\<lparr>reg_token = t, reg_environment = env, reg_label = lab\<rparr>])"

text \<open>\<open>persist\<close> encodes the snapshot and replaces the file.\<close>

definition persist :: "write_answers \<Rightarrow> string \<Rightarrow> registration list \<Rightarrow> fs \<Rightarrow> fs \<times> os_answer" where
  "persist a path snapshot files = replace_file a path (Doc (token_file_json snapshot)) files"

definition token_set ::
  "write_answers \<Rightarrow> string \<Rightarrow> string \<Rightarrow> string \<Rightarrow> token_store \<Rightarrow> fs \<Rightarrow> token_store \<times> fs \<times> string option" where
  "token_set a t env lab ts files =
     (if t = [] then (ts, files, Some ''pushrelay: token must not be empty'')
      else (let rs = set_registration t (normalize_environment env) lab (ts_regs ts);
                (files', r) = persist a (ts_path ts) rs files
            in (ts\<lparr>ts_regs := rs\<rparr>, files', r)))"

definition remove_registration :: "string \<Rightarrow> registration list \<Rightarrow> registration list" where
  "remove_registration t rs = filter (\<lambda>r. reg_token r \<noteq> t) rs"

definition token_remove ::
  "write_answers \<Rightarrow> string \<Rightarrow> token_store \<Rightarrow> fs \<Rightarrow> token_store \<times> fs \<times> string option" where
  "token_remove a t ts files =
     (let rs = remove_registration t (ts_regs ts);
          (files', r) = persist a (ts_path ts) rs files
      in (ts\<lparr>ts_regs := rs\<rparr>, files', r))"

subsection \<open>The registrations\<close>

text \<open>The invariant: no duplicate device, no empty token, a valid environment.\<close>

definition regs_inv :: "registration list \<Rightarrow> bool" where
  "regs_inv rs \<longleftrightarrow> distinct (map reg_token rs) \<and> [] \<notin> reg_token ` set rs
     \<and> (\<forall>r \<in> set rs. reg_environment r \<in> {EnvironmentProduction, EnvironmentDevelopment})"

lemma normalize_environment_idem [simp]:
  "normalize_environment (normalize_environment e) = normalize_environment e"
  by (simp add: normalize_environment_def)

lemma normalize_environment_valid [simp]:
  "normalize_environment e \<in> {EnvironmentProduction, EnvironmentDevelopment}"
  "normalize_environment e = EnvironmentProduction \<or> normalize_environment e = EnvironmentDevelopment"
  by (simp_all add: normalize_environment_def)

lemma find_registration_None: "find_registration rs t = None \<longleftrightarrow> t \<notin> reg_token ` set rs"
  by (induction rs) auto

lemma update_registration_tokens:
  "update_registration t e l rs = (rs', b) \<Longrightarrow> map reg_token rs' = map reg_token rs \<and> (b \<longleftrightarrow> t \<in> reg_token ` set rs)"
  by (induction rs arbitrary: rs' b) (auto simp: Let_def split: if_splits prod.splits)

lemma update_registration_env:
  "update_registration t e l rs = (rs', b) \<Longrightarrow> r \<in> set rs' \<Longrightarrow> reg_environment r = e \<or> r \<in> set rs"
  by (induction rs arbitrary: rs' b) (auto simp: Let_def split: if_splits prod.splits)

lemma set_registration_tokens:
  "map reg_token (set_registration t e l rs) =
     (if t \<in> reg_token ` set rs then map reg_token rs else map reg_token rs @ [t])"
  using update_registration_tokens [of t e l rs] by (auto simp: set_registration_def split: prod.splits)

lemma set_registration_inv:
  assumes "regs_inv rs" "t \<noteq> []" "e \<in> {EnvironmentProduction, EnvironmentDevelopment}"
  shows "regs_inv (set_registration t e l rs)"
proof -
  have "distinct (map reg_token (set_registration t e l rs))"
    using assms(1) by (auto simp: set_registration_tokens regs_inv_def)
  moreover have "set (map reg_token (set_registration t e l rs)) \<subseteq> insert t (set (map reg_token rs))"
    by (auto simp: set_registration_tokens)
  then have "[] \<notin> reg_token ` set (set_registration t e l rs)"
    using assms(1,2) by (auto simp: regs_inv_def)
  moreover have "reg_environment r \<in> {EnvironmentProduction, EnvironmentDevelopment}"
    if "r \<in> set (set_registration t e l rs)" for r
  proof -
    obtain rs' b where u: "update_registration t e l rs = (rs', b)" by fastforce
    then have "reg_environment r = e \<or> r \<in> set rs"
      using that update_registration_env [OF u] by (auto simp: set_registration_def split: if_splits)
    then show ?thesis using assms(1,3) by (auto simp: regs_inv_def)
  qed
  ultimately show ?thesis by (simp add: regs_inv_def)
qed

lemma remove_registration_inv: "regs_inv rs \<Longrightarrow> regs_inv (remove_registration t rs)"
  by (auto simp: regs_inv_def remove_registration_def distinct_map_filter)

definition set_label :: "string \<Rightarrow> registration option \<Rightarrow> string" where
  "set_label l old = (if l \<noteq> [] then l else case old of None \<Rightarrow> [] | Some r \<Rightarrow> reg_label r)"

lemma find_update_registration:
  "update_registration t e l rs = (rs', b) \<Longrightarrow> find_registration rs' u =
     (if u = t then map_option (\<lambda>r. r\<lparr>reg_environment := e, reg_label := set_label l (Some r)\<rparr>) (find_registration rs t)
      else find_registration rs u)"
  by (induction rs arbitrary: rs' b) (auto simp: Let_def set_label_def split: if_splits prod.splits)

lemma find_append: "find_registration (rs @ [r]) u =
   (case find_registration rs u of Some x \<Rightarrow> Some x | None \<Rightarrow> if reg_token r = u then Some r else None)"
  by (induction rs) auto

lemma find_registration_token: "find_registration rs u = Some r \<Longrightarrow> reg_token r = u"
  by (induction rs) (auto split: if_splits)

lemma find_set_registration:
  "find_registration (set_registration t e l rs) u =
     (if u = t then Some \<lparr>reg_token = t, reg_environment = e, reg_label = set_label l (find_registration rs t)\<rparr>
      else find_registration rs u)"
proof -
  obtain rs' b where u: "update_registration t e l rs = (rs', b)" by fastforce
  have b: "b \<longleftrightarrow> find_registration rs t \<noteq> None"
    using update_registration_tokens [OF u] by (simp add: find_registration_None)
  show ?thesis
  proof (cases "find_registration rs t")
    case None
    then show ?thesis
      using find_update_registration [OF u] b u
      by (auto simp: set_registration_def find_append set_label_def split: option.splits)
  next
    case (Some r)
    then show ?thesis
      using find_update_registration [OF u] b u find_registration_token [OF Some]
      by (auto simp: set_registration_def)
  qed
qed

lemma find_remove_registration:
  "find_registration (remove_registration t rs) u = (if u = t then None else find_registration rs u)"
  by (induction rs) (auto simp: remove_registration_def)

subsection \<open>The file and the registrations\<close>

lemma registration_find:
  "find_field registration_fields ''token'' = Some (lift_field reg_token (\<lambda>x s. s\<lparr>reg_token := x\<rparr>) dec_string)"
  "find_field registration_fields ''environment'' = Some (lift_field reg_environment (\<lambda>x s. s\<lparr>reg_environment := x\<rparr>) dec_string)"
  "find_field registration_fields ''label'' = Some (lift_field reg_label (\<lambda>x s. s\<lparr>reg_label := x\<rparr>) dec_string)"
  by (simp_all add: find_field_def registration_fields_def)

lemma registration_decode: "dec_struct registration_fields (registration_json r) zero_registration = (r, False)"
  by (simp add: registration_json_def registration_find lift_field_def zero_registration_def)

lemma token_file_decode:
  "dec_struct token_file_fields (token_file_json rs) zero_token_file =
     (\<lparr>tf_registrations = Some rs, tf_token = [], tf_environment = []\<rparr>, False)"
proof -
  have "find_field token_file_fields ''registrations'' = Some (lift_field tf_registrations
      (\<lambda>x s. s\<lparr>tf_registrations := x\<rparr>) (dec_slice (dec_struct registration_fields) zero_registration))"
    by (simp add: find_field_def token_file_fields_def)
  then show ?thesis
    using dec_slice_map [of rs "dec_struct registration_fields" registration_json zero_registration]
    by (simp add: token_file_json_def lift_field_def registration_decode zero_token_file_def del: dec_slice.simps)
qed

lemma load_saved:
  assumes "regs_inv rs"
  shows "load_registrations \<lparr>tf_registrations = Some rs, tf_token = [], tf_environment = []\<rparr> = rs"
proof -
  have "filter (\<lambda>r. reg_token r \<noteq> []) rs = rs" using assms by (auto simp: regs_inv_def filter_id_conv image_iff)
  moreover have "r\<lparr>reg_environment := normalize_environment (reg_environment r)\<rparr> = r" if "r \<in> set rs" for r
    using assms that by (auto simp: regs_inv_def normalize_environment_def)
  ultimately show ?thesis by (simp add: load_registrations_def map_idI)
qed

lemma reload_saved:
  assumes "regs_inv rs" "files p = Some (Doc (token_file_json rs))"
  shows "new_token_store None files p = Inr \<lparr>ts_path = p, ts_regs = rs\<rparr>"
  using assms by (simp add: new_token_store_def read_file_def token_file_decode load_saved)

lemma persist_file:
  "persist a p rs files = (files', r) \<Longrightarrow>
   files' p = (if r = None then Some (Doc (token_file_json rs)) else files p)"
  unfolding persist_def using replace_file_atomic by blast

text \<open>A run of calls, each with the operating system's answers to its write.\<close>

datatype token_op = OpSet string string string | OpRemove string

fun apply_token_op :: "write_answers \<Rightarrow> token_op \<Rightarrow> token_store \<Rightarrow> fs \<Rightarrow> token_store \<times> fs \<times> string option" where
  "apply_token_op a (OpSet t e l) ts files = token_set a t e l ts files"
| "apply_token_op a (OpRemove t) ts files = token_remove a t ts files"

fun token_run :: "(write_answers \<times> token_op) list \<Rightarrow> token_store \<Rightarrow> fs \<Rightarrow> token_store \<times> fs \<times> string option list" where
  "token_run [] ts files = (ts, files, [])"
| "token_run ((a, c) # ops) ts files =
     (let (ts1, files1, r) = apply_token_op a c ts files; (ts2, files2, rs) = token_run ops ts1 files1
      in (ts2, files2, r # rs))"

lemma token_op_inv:
  assumes "apply_token_op a c ts files = (ts', files', r)" "regs_inv (ts_regs ts)"
  shows "regs_inv (ts_regs ts') \<and> ts_path ts' = ts_path ts"
proof (cases c)
  case (OpSet t e l)
  then show ?thesis
    using assms set_registration_inv [OF assms(2) _ normalize_environment_valid(1), of t e l]
    by (auto simp: token_set_def Let_def split: if_splits prod.splits)
next
  case (OpRemove t)
  then show ?thesis
    using assms remove_registration_inv [OF assms(2), of t]
    by (auto simp: token_remove_def Let_def split: prod.splits)
qed

lemma token_op_file:
  assumes "apply_token_op a c ts files = (ts', files', r)" "regs_inv (ts_regs ts)"
  shows "files' (ts_path ts) = (if r = None then Some (Doc (token_file_json (ts_regs ts'))) else files (ts_path ts))"
  using assms by (cases c) (auto simp: token_set_def token_remove_def Let_def dest: persist_file
      split: if_splits prod.splits)

lemma token_run_inv:
  "token_run ops ts files = (ts', files', rs) \<Longrightarrow> regs_inv (ts_regs ts) \<Longrightarrow>
   regs_inv (ts_regs ts') \<and> ts_path ts' = ts_path ts \<and> length rs = length ops"
proof (induction ops arbitrary: ts files ts' files' rs)
  case (Cons op ops)
  obtain a c where "op = (a, c)" by fastforce
  moreover obtain ts1 files1 r where 1: "apply_token_op a c ts files = (ts1, files1, r)" by (metis prod_cases3)
  moreover obtain ts2 files2 rs2 where 2: "token_run ops ts1 files1 = (ts2, files2, rs2)" by (metis prod_cases3)
  ultimately have e: "ts' = ts2" "rs = r # rs2" using Cons.prems(1) by simp_all
  from token_op_inv [OF 1 Cons.prems(2)] Cons.IH [OF 2] show ?case by (simp add: e)
qed simp

lemma token_run_snoc:
  "token_run (ops @ [(a, c)]) ts files = (ts', files', rs) \<Longrightarrow>
   \<exists>ts1 files1 rs1 r. token_run ops ts files = (ts1, files1, rs1) \<and>
     apply_token_op a c ts1 files1 = (ts', files', r) \<and> rs = rs1 @ [r]"
proof (induction ops arbitrary: ts files rs)
  case Nil
  then show ?case by (auto split: prod.splits)
next
  case (Cons op ops)
  obtain b d where op: "op = (b, d)" by fastforce
  obtain ts1 files1 r where 1: "apply_token_op b d ts files = (ts1, files1, r)" by (metis prod_cases3)
  obtain rs2 where 2: "token_run (ops @ [(a, c)]) ts1 files1 = (ts', files', rs2)" "rs = r # rs2"
    using Cons.prems op 1 by (auto split: prod.splits)
  from Cons.IH [OF 2(1)] show ?case using op 1 2(2) by auto
qed

text \<open>
  C16. One entry per device. From a store without duplicates, any run of \<open>Set\<close> and \<open>Remove\<close>, whatever
  the file system answers, leaves every token registered once, none empty and each in one of the two
  environments; an acknowledged last call is durable: a restart reads the same registrations back.
\<close>
theorem token_store_unique_and_durable:
  assumes "regs_inv (ts_regs ts)" "token_run ops ts files = (ts', files', rs)"
  shows "regs_inv (ts_regs ts') \<and>
    (rs \<noteq> [] \<and> last rs = None \<longrightarrow> new_token_store None files' (ts_path ts) = Inr ts')"
proof
  show inv: "regs_inv (ts_regs ts')" using token_run_inv [OF assms(2,1)] by simp
  show "rs \<noteq> [] \<and> last rs = None \<longrightarrow> new_token_store None files' (ts_path ts) = Inr ts'"
  proof (cases ops rule: rev_cases)
    case Nil
    then show ?thesis using assms(2) by simp
  next
    case (snoc ops1 op)
    obtain a c where "op = (a, c)" by fastforce
    with snoc token_run_snoc [of ops1 a c ts files ts' files' rs] assms(2)
    obtain ts1 files1 rs1 r where 1: "token_run ops1 ts files = (ts1, files1, rs1)"
      "apply_token_op a c ts1 files1 = (ts', files', r)" "rs = rs1 @ [r]" by auto
    have i: "regs_inv (ts_regs ts1)" "ts_path ts1 = ts_path ts" "ts_path ts' = ts_path ts"
      using token_run_inv [OF 1(1) assms(1)] token_op_inv [OF 1(2)] by simp_all
    show ?thesis
      using token_op_file [OF 1(2) i(1)] reload_saved [OF inv, of files' "ts_path ts"] i 1(3) by auto
  qed
qed

theorem token_store_unique_and_durable_witness:
  "new_token_store None (fst (snd (token_run [(all_ok, OpSet ''aa'' ''development'' ''Mac''),
       (all_ok, OpSet ''bb'' [] []), (all_ok, OpSet ''aa'' [] [])] \<lparr>ts_path = ''t'', ts_regs = []\<rparr> (\<lambda>_. None)))) ''t''
     = Inr \<lparr>ts_path = ''t'', ts_regs =
        [\<lparr>reg_token = ''aa'', reg_environment = ''production'', reg_label = ''Mac''\<rparr>,
         \<lparr>reg_token = ''bb'', reg_environment = ''production'', reg_label = []\<rparr>]\<rparr>"
proof -
  let ?ops = "[(all_ok, OpSet ''aa'' ''development'' ''Mac''), (all_ok, OpSet ''bb'' [] []), (all_ok, OpSet ''aa'' [] [])]"
  let ?ts = "\<lparr>ts_path = ''t'', ts_regs = []\<rparr>"
  obtain ts' files' rs where r: "token_run ?ops ?ts (\<lambda>_. None) = (ts', files', rs)" by (metis prod_cases3)
  have "fst (token_run ?ops ?ts (\<lambda>_. None)) = \<lparr>ts_path = ''t'', ts_regs =
        [\<lparr>reg_token = ''aa'', reg_environment = ''production'', reg_label = ''Mac''\<rparr>,
         \<lparr>reg_token = ''bb'', reg_environment = ''production'', reg_label = []\<rparr>]\<rparr>" by code_simp
  moreover have "snd (snd (token_run ?ops ?ts (\<lambda>_. None))) = [None, None, None]" by code_simp
  moreover have "regs_inv (ts_regs ?ts)" by (simp add: regs_inv_def)
  ultimately show ?thesis using token_store_unique_and_durable [OF _ r] r by simp
qed

text \<open>
  Registering and removing. \<open>Set\<close> with a token puts it in the normalized environment and keeps
  its old label unless a new one is given; \<open>Remove\<close> drops it; both leave every other device as it
  was, and the change is made in memory even when the file could not be written. \<open>Set\<close> without a
  token changes nothing and reports an error.
\<close>
theorem set_and_remove_device:
  "(t \<noteq> [] \<longrightarrow> token_find (fst (token_set a t e l ts files)) u =
      (if u = t then Some \<lparr>reg_token = t, reg_environment = normalize_environment e,
                           reg_label = set_label l (token_find ts t)\<rparr>
       else token_find ts u)) \<and>
   token_find (fst (token_remove a t ts files)) u = (if u = t then None else token_find ts u) \<and>
   token_set a [] e l ts files = (ts, files, Some ''pushrelay: token must not be empty'')"
  by (simp add: token_set_def token_remove_def token_find_def Let_def find_set_registration
      find_remove_registration split: prod.splits)

theorem set_and_remove_device_witness:
  "token_find (fst (token_set all_ok ''aa'' ''development'' [] \<lparr>ts_path = ''t'', ts_regs =
       [\<lparr>reg_token = ''aa'', reg_environment = ''production'', reg_label = ''Mac''\<rparr>]\<rparr> (\<lambda>_. None))) ''aa'' =
     Some \<lparr>reg_token = ''aa'', reg_environment = ''development'', reg_label = ''Mac''\<rparr>"
  using set_and_remove_device [of "''aa''" all_ok "''development''" "[]" "\<lparr>ts_path = ''t'', ts_regs =
       [\<lparr>reg_token = ''aa'', reg_environment = ''production'', reg_label = ''Mac''\<rparr>]\<rparr>" "\<lambda>_. None" "''aa''"]
  by (simp add: token_find_def set_label_def normalize_environment_def EnvironmentDevelopment_def)

subsection \<open>Concurrent changes\<close>

text \<open>
  \<open>Set\<close> and \<open>Remove\<close> release the lock before they persist. A call is then a change of the memory,
  which takes the snapshot, followed by its write of the temporary file and its rename, and the
  steps of different calls interleave. Here no file operation fails.
\<close>

datatype persist_phase = WriteTmp "registration list" | RenameTmp

record token_world =
  tw_regs :: "registration list"
  tw_files :: fs
  tw_pending :: "persist_phase list"

inductive token_step :: "string \<Rightarrow> token_world \<Rightarrow> token_world \<Rightarrow> bool" for p where
  change_set: "t \<noteq> [] \<Longrightarrow> rs = set_registration t (normalize_environment e) l (tw_regs w) \<Longrightarrow>
    token_step p w (w\<lparr>tw_regs := rs, tw_pending := tw_pending w @ [WriteTmp rs]\<rparr>)"
| change_remove: "rs = remove_registration t (tw_regs w) \<Longrightarrow>
    token_step p w (w\<lparr>tw_regs := rs, tw_pending := tw_pending w @ [WriteTmp rs]\<rparr>)"
| write_tmp: "i < length (tw_pending w) \<Longrightarrow> tw_pending w ! i = WriteTmp rs \<Longrightarrow>
    token_step p w (w\<lparr>tw_files := fst (write_file all_ok (tmp_path p) (Doc (token_file_json rs)) (tw_files w)),
      tw_pending := (tw_pending w)[i := RenameTmp]\<rparr>)"
| rename_tmp: "i < length (tw_pending w) \<Longrightarrow> tw_pending w ! i = RenameTmp \<Longrightarrow>
    token_step p w (w\<lparr>tw_files := fst (rename_file all_ok (tmp_path p) p (tw_files w)),
      tw_pending := take i (tw_pending w) @ drop (Suc i) (tw_pending w)\<rparr>)"

lemma token_step_inv:
  "token_step p w w' \<Longrightarrow> regs_inv (tw_regs w) \<Longrightarrow> regs_inv (tw_regs w')"
  by (induction rule: token_step.induct)
    (auto simp: set_registration_inv remove_registration_inv)

definition mac :: registration where
  "mac = \<lparr>reg_token = ''aa'', reg_environment = ''production'', reg_label = ''Mac''\<rparr>"

definition phone :: registration where
  "phone = \<lparr>reg_token = ''bb'', reg_environment = ''production'', reg_label = ''iPhone''\<rparr>"

text \<open>
  The file can be left behind the memory. Two concurrent registrations can end, with no call
  pending and no error anywhere, in a state where both devices are registered in memory and the file
  holds the first only: after a restart the second device is gone.
\<close>
theorem concurrent_registration_lost_on_restart:
  "\<exists>w. (token_step p)\<^sup>*\<^sup>* \<lparr>tw_regs = [], tw_files = files, tw_pending = []\<rparr> w \<and> tw_pending w = [] \<and>
     tw_regs w = [mac, phone] \<and>
     new_token_store None (tw_files w) p = Inr \<lparr>ts_path = p, ts_regs = [mac]\<rparr>"
proof -
  let ?start = "\<lparr>tw_regs = [], tw_files = files, tw_pending = []\<rparr>"
  let ?one = "\<lparr>tw_regs = [mac], tw_files = files, tw_pending = [WriteTmp [mac]]\<rparr>"
  let ?two = "\<lparr>tw_regs = [mac, phone], tw_files = files, tw_pending = [WriteTmp [mac], WriteTmp [mac, phone]]\<rparr>"
  define f3 where "f3 = fst (write_file all_ok (tmp_path p) (Doc (token_file_json [mac, phone])) files)"
  define f4 where "f4 = fst (rename_file all_ok (tmp_path p) p f3)"
  define f5 where "f5 = fst (write_file all_ok (tmp_path p) (Doc (token_file_json [mac])) f4)"
  define f6 where "f6 = fst (rename_file all_ok (tmp_path p) p f5)"
  let ?w = "\<lambda>f ph. \<lparr>tw_regs = [mac, phone], tw_files = f, tw_pending = ph\<rparr>"
  have regs: "set_registration ''aa'' (normalize_environment []) ''Mac'' [] = [mac]"
    "set_registration ''bb'' (normalize_environment []) ''iPhone'' [mac] = [mac, phone]" by code_simp+
  have 1: "token_step p ?start ?one"
    using change_set [of "''aa''" "[mac]" "[]" "''Mac''" ?start p] regs by simp
  have 2: "token_step p ?one ?two"
    using change_set [of "''bb''" "[mac, phone]" "[]" "''iPhone''" ?one p] regs by simp
  have 3: "token_step p ?two (?w f3 [WriteTmp [mac], RenameTmp])"
    using write_tmp [of 1 ?two "[mac, phone]" p] by (simp add: f3_def)
  have 4: "token_step p (?w f3 [WriteTmp [mac], RenameTmp]) (?w f4 [WriteTmp [mac]])"
    using rename_tmp [of 1 "?w f3 [WriteTmp [mac], RenameTmp]" p] by (simp add: f4_def)
  have 5: "token_step p (?w f4 [WriteTmp [mac]]) (?w f5 [RenameTmp])"
    using write_tmp [of 0 "?w f4 [WriteTmp [mac]]" "[mac]" p] by (simp add: f5_def)
  have 6: "token_step p (?w f5 [RenameTmp]) (?w f6 [])"
    using rename_tmp [of 0 "?w f5 [RenameTmp]" p] by (simp add: f6_def)
  have "f6 p = Some (Doc (token_file_json [mac]))"
    by (simp add: f6_def f5_def rename_file_def write_file_def all_ok_def)
  moreover have "regs_inv [mac]" by (simp add: regs_inv_def mac_def EnvironmentProduction_def)
  ultimately have "new_token_store None f6 p = Inr \<lparr>ts_path = p, ts_regs = [mac]\<rparr>"
    by (intro reload_saved) simp_all
  moreover have "(token_step p)\<^sup>*\<^sup>* ?start (?w f6 [])" using 1 2 3 4 5 6 by (meson converse_rtranclp_into_rtranclp r_into_rtranclp)
  ultimately show ?thesis by (intro exI [of _ "?w f6 []"]) simp
qed

end
