(* ===== verification/Push_Relay.thy ===== *)
theory Push_Relay
  imports Push_Tokens Go_Time
begin

text \<open>
  internal/pushrelay/client.go and publisher.go. The client builds authenticated POST requests; the
  network is an argument that maps each request to what came back, so nothing is assumed about the
  relay. The publisher works on any registry of devices: the locale \<open>device_registry\<close> states what it
  needs of the functions it is given, and the token store is its interpretation.
\<close>

subsection \<open>The scheme of a URL\<close>

definition is_letter :: "char \<Rightarrow> bool" where
  "is_letter c \<longleftrightarrow> (let n = (of_char c :: int) in (97 \<le> n \<and> n \<le> 122) \<or> (65 \<le> n \<and> n \<le> 90))"

text \<open>\<open>url.getScheme\<close>: \<open>pos\<close> is the text already passed, reversed; \<open>None\<close> is the error "missing
  protocol scheme".\<close>

fun get_scheme :: "string \<Rightarrow> string \<Rightarrow> string option" where
  "get_scheme pos [] = Some []"
| "get_scheme pos (c # cs) =
     (if is_letter c then get_scheme (c # pos) cs
      else if is_digit c \<or> c = CHR ''+'' \<or> c = CHR ''-'' \<or> c = CHR ''.''
      then (if pos = [] then Some [] else get_scheme (c # pos) cs)
      else if c = CHR '':''
      then (if pos = [] then None else Some (rev pos))
      else Some [])"

definition is_ctl :: "char \<Rightarrow> bool" where
  "is_ctl c \<longleftrightarrow> (let n = (of_char c :: int) in n < 32 \<or> n = 127)"

text \<open>
  \<open>url.Parse\<close> as far as its result is used here: the scheme, in lower case, or an error. The checks
  of the rest of the URL (host, port, escapes) are the parameter \<open>rest_error\<close>.
\<close>

definition url_scheme :: "(string \<Rightarrow> string option) \<Rightarrow> string \<Rightarrow> string result" where
  "url_scheme rest_error raw =
     (let u = takeWhile (\<lambda>c. c \<noteq> CHR ''#'') raw
      in if list_ex is_ctl u then Inl ''net/url: invalid control character in URL''
         else if u = ''*'' then Inr []
         else case get_scheme [] u of
           None \<Rightarrow> Inl ''missing protocol scheme''
         | Some sch \<Rightarrow> (case rest_error raw of Some e \<Rightarrow> Inl e | None \<Rightarrow> Inr (to_lower sch)))"

subsection \<open>The client\<close>

definition DefaultBaseURL :: string where "DefaultBaseURL = ''https://gateshell.com''"

record relay_client =
  rc_base_url :: string
  rc_token :: string

definition new_client :: "(string \<Rightarrow> string option) \<Rightarrow> string \<Rightarrow> string \<Rightarrow> relay_client result" where
  "new_client rest_error base_url token =
     (let base = (if base_url = [] then DefaultBaseURL else base_url)
      in case url_scheme rest_error base of
           Inl e \<Rightarrow> Inl (''pushrelay: invalid relay URL: '' @ e)
         | Inr sch \<Rightarrow>
             if sch \<noteq> ''https'' then Inl (''pushrelay: relay URL must use https, got '' @ quote sch)
             else if token = [] then Inl ''pushrelay: token must not be empty''
             else Inr \<lparr>rc_base_url = trim_right_char base (CHR ''/''), rc_token = token\<rparr>)"

record request =
  rq_url :: string
  rq_authorization :: string
  rq_body :: json

datatype http_outcome = NetError string | Response int string

datatype send_error = TokenUnregistered | SendFailed string

definition StatusGone :: int where "StatusGone = 410"
definition StatusUnauthorized :: int where "StatusUnauthorized = 401"
definition StatusForbidden :: int where "StatusForbidden = 403"

text \<open>The relay's answer, as \<open>post\<close> reads it.\<close>

definition post_result :: "string \<Rightarrow> http_outcome \<Rightarrow> send_error option" where
  "post_result path outcome = (case outcome of
       NetError e \<Rightarrow> Some (SendFailed (''pushrelay: request to '' @ path @ '' failed: '' @ e))
     | Response status body \<Rightarrow>
         if status = StatusGone then Some TokenUnregistered
         else if 300 \<le> status
         then (if status = StatusUnauthorized \<or> status = StatusForbidden
               then Some (SendFailed (''pushrelay: '' @ path @ '' rejected our token (status '' @ itoa status @ '')''))
               else Some (SendFailed (''pushrelay: '' @ path @ '' returned status '' @ itoa status @ '': ''
                      @ take 512 body)))
         else None)"

text \<open>A call: the request sent, if one was, and the error. A payload that does not marshal (a NaN
  or infinite number) is an error before any request.\<close>

definition post ::
  "relay_client \<Rightarrow> string \<Rightarrow> json result \<Rightarrow> (request \<Rightarrow> http_outcome) \<Rightarrow> request list \<times> send_error option" where
  "post c path payload net =
     (case payload of
        Inl e \<Rightarrow> ([], Some (SendFailed (''pushrelay: marshaling payload: '' @ e)))
      | Inr body \<Rightarrow>
          (let rq = \<lparr>rq_url = rc_base_url c @ path, rq_authorization = ''Bearer '' @ rc_token c, rq_body = body\<rparr>
           in ([rq], post_result path (net rq))))"

definition send_payload :: "string \<Rightarrow> string \<Rightarrow> string \<Rightarrow> string \<Rightarrow> json" where
  "send_payload token env title body =
     JObj [(''body'', JStr body), (''deviceToken'', JStr token),
           (''environment'', JStr (normalize_environment env)), (''title'', JStr title)]"

definition send ::
  "relay_client \<Rightarrow> string \<Rightarrow> string \<Rightarrow> string \<Rightarrow> string \<Rightarrow> (request \<Rightarrow> http_outcome) \<Rightarrow> request list \<times> send_error option" where
  "send c token env title body net = post c ''/api/push/send'' (Inr (send_payload token env title body)) net"

record widget_metrics =
  wm_server_name :: string
  wm_cpu_percent :: float64
  wm_memory_percent :: "float64 option"
  wm_disk_percent :: "int option"
  wm_captured_at :: time

definition number_json :: "float64 \<Rightarrow> json result" where
  "number_json x = (case x of Fin r \<Rightarrow> Inr (JNum r) | _ \<Rightarrow> Inl ''json: unsupported value'')"

definition metrics_payload :: "string \<Rightarrow> string \<Rightarrow> widget_metrics \<Rightarrow> json result" where
  "metrics_payload token env m =
     (case number_json (wm_cpu_percent m) of
        Inl e \<Rightarrow> Inl e
      | Inr cpu \<Rightarrow>
          (case (case wm_memory_percent m of None \<Rightarrow> Inr []
                 | Some x \<Rightarrow> (case number_json x of Inl e \<Rightarrow> Inl e | Inr j \<Rightarrow> Inr [(''memoryPercent'', j)])) of
             Inl e \<Rightarrow> Inl e
           | Inr mem \<Rightarrow> Inr (JObj
              ([(''capturedAt'', JNum (of_int (time_unix (wm_captured_at m)))), (''cpuPercent'', cpu),
                (''deviceToken'', JStr token)]
               @ (case wm_disk_percent m of None \<Rightarrow> [] | Some d \<Rightarrow> [(''diskUsePercent'', JNum (of_int d))])
               @ [(''environment'', JStr (normalize_environment env))] @ mem
               @ [(''serverName'', JStr (wm_server_name m))]))))"

definition send_metrics ::
  "relay_client \<Rightarrow> string \<Rightarrow> string \<Rightarrow> widget_metrics \<Rightarrow> (request \<Rightarrow> http_outcome) \<Rightarrow> request list \<times> send_error option" where
  "send_metrics c token env m net = post c ''/api/push/metrics'' (metrics_payload token env m) net"

subsection \<open>The publisher\<close>

text \<open>
  The publisher is given functions: here \<open>regs\<close> (\<open>allFn\<close>), \<open>drop_reg\<close> (\<open>removeFn\<close>, \<open>None\<close> when nil) and
  \<open>find_reg\<close> (\<open>findFn\<close>) over a registry of type \<open>'s\<close>.
\<close>

definition gone_text :: "registration \<Rightarrow> string" where
  "gone_text r = display_label r @ '' is no longer reachable and was unregistered''"

definition run_remove :: "(string \<Rightarrow> 's \<Rightarrow> 's) option \<Rightarrow> string \<Rightarrow> 's \<Rightarrow> 's" where
  "run_remove rm t w = (case rm of None \<Rightarrow> w | Some f \<Rightarrow> f t w)"

text \<open>The loop of \<open>Publish\<close> and \<open>PublishMetrics\<close>: one attempt per registration, errors collected.\<close>

fun fan_out ::
  "(registration \<Rightarrow> request list \<times> send_error option) \<Rightarrow> (string \<Rightarrow> 's \<Rightarrow> 's) option \<Rightarrow> registration list \<Rightarrow>
   's \<Rightarrow> 's \<times> request list \<times> string list" where
  "fan_out deliver rm [] w = (w, [], [])"
| "fan_out deliver rm (r # rs) w =
     (let (rqs, err) = deliver r;
          (w1, msgs) = (case err of
             None \<Rightarrow> (w, [])
           | Some TokenUnregistered \<Rightarrow> (run_remove rm (reg_token r) w, [gone_text r])
           | Some (SendFailed e) \<Rightarrow> (w, [display_label r @ '': '' @ e]));
          (w2, rqs2, msgs2) = fan_out deliver rm rs w1
      in (w2, rqs @ rqs2, msgs @ msgs2))"

definition join_errors :: "string list \<Rightarrow> string option" where
  "join_errors es = (if es = [] then None else Some (join [CHR 0x0A] es))"

definition publish ::
  "relay_client \<Rightarrow> string \<Rightarrow> ('s \<Rightarrow> registration list) \<Rightarrow> (string \<Rightarrow> 's \<Rightarrow> 's) option \<Rightarrow> string \<Rightarrow>
   (request \<Rightarrow> http_outcome) \<Rightarrow> 's \<Rightarrow> 's \<times> request list \<times> string option" where
  "publish c server regs rm message net w =
     (if regs w = [] then (w, [], Some ''pushrelay: no device token registered'')
      else (let (w', rqs, es) = fan_out (\<lambda>r. send c (reg_token r) (reg_environment r) server message net) rm (regs w) w
            in (w', rqs, join_errors es)))"

definition deliver_metrics ::
  "relay_client \<Rightarrow> string \<Rightarrow> widget_metrics \<Rightarrow> (request \<Rightarrow> http_outcome) \<Rightarrow> registration \<Rightarrow> request list \<times> send_error option" where
  "deliver_metrics c server m net r =
     send_metrics c (reg_token r) (reg_environment r) (m\<lparr>wm_server_name := server\<rparr>) net"

datatype metrics_error = NoDevices | MetricsFailed string

definition publish_metrics ::
  "relay_client \<Rightarrow> string \<Rightarrow> ('s \<Rightarrow> registration list) \<Rightarrow> (string \<Rightarrow> 's \<Rightarrow> 's) option \<Rightarrow> widget_metrics \<Rightarrow>
   (request \<Rightarrow> http_outcome) \<Rightarrow> 's \<Rightarrow> 's \<times> request list \<times> metrics_error option" where
  "publish_metrics c server regs rm m net w =
     (if regs w = [] then (w, [], Some NoDevices)
      else (let (w', rqs, es) = fan_out (deliver_metrics c server m net) rm (regs w) w
            in (w', rqs, map_option MetricsFailed (join_errors es))))"

definition send_test ::
  "relay_client \<Rightarrow> string \<Rightarrow> ('s \<Rightarrow> string \<Rightarrow> registration option) option \<Rightarrow> (string \<Rightarrow> 's \<Rightarrow> 's) option \<Rightarrow>
   string \<Rightarrow> string \<Rightarrow> (request \<Rightarrow> http_outcome) \<Rightarrow> 's \<Rightarrow> 's \<times> request list \<times> string option" where
  "send_test c server find_reg rm token message net w =
     (case find_reg of
        None \<Rightarrow> (w, [], Some ''pushrelay: cannot look up devices'')
      | Some f \<Rightarrow>
          (case f w token of
             None \<Rightarrow> (w, [], Some ''pushrelay: this device is not registered with the agent'')
           | Some r \<Rightarrow>
               (let (rqs, err) = send c (reg_token r) (reg_environment r) server message net
                in case err of
                     None \<Rightarrow> (w, rqs, None)
                   | Some TokenUnregistered \<Rightarrow>
                       (run_remove rm (reg_token r) w, rqs,
                        Some (''Apple rejected '' @ display_label r @ [CHR 0x27] @ ''s push token as no longer valid; it has been removed. Re-open GateShell on that device to register again''))
                   | Some (SendFailed e) \<Rightarrow>
                       (w, rqs, Some (''delivering to '' @ display_label r @ '' failed: '' @ e)))))"

subsection \<open>What the publisher needs of the registry\<close>

lemma fan_out_requests:
  "fan_out deliver rm rs w = (w', rqs, es) \<Longrightarrow> rqs = concat (map (\<lambda>r. fst (deliver r)) rs)"
  by (induction rs arbitrary: w w' rqs es) (auto simp: Let_def split: prod.splits)

definition undelivered :: "(registration \<Rightarrow> request list \<times> send_error option) \<Rightarrow> registration \<Rightarrow> bool" where
  "undelivered deliver r \<longleftrightarrow> snd (deliver r) \<noteq> None"

definition gone :: "(registration \<Rightarrow> request list \<times> send_error option) \<Rightarrow> registration \<Rightarrow> bool" where
  "gone deliver r \<longleftrightarrow> snd (deliver r) = Some TokenUnregistered"

lemma fan_out_errors:
  "fan_out deliver rm rs w = (w', rqs, es) \<Longrightarrow> length es = length (filter (undelivered deliver) rs)"
  by (induction rs arbitrary: w w' rqs es)
    (auto simp: Let_def undelivered_def split: prod.splits option.splits send_error.splits)

lemma join_errors_None: "join_errors es = None \<longleftrightarrow> es = []"
  by (simp add: join_errors_def)

locale device_registry =
  fixes regs :: "'s \<Rightarrow> registration list"
    and drop_reg :: "string \<Rightarrow> 's \<Rightarrow> 's"
    and find_reg :: "'s \<Rightarrow> string \<Rightarrow> registration option"
  assumes drop_law: "regs (drop_reg t w) = remove_registration t (regs w)"
    and find_law: "find_reg w t = find_registration (regs w) t"
begin

lemma fan_out_regs:
  "fan_out deliver (Some drop_reg) rs w = (w', rqs, es) \<Longrightarrow>
   regs w' = filter (\<lambda>x. \<not> (\<exists>r \<in> set rs. gone deliver r \<and> reg_token r = reg_token x)) (regs w)"
proof (induction rs arbitrary: w w' rqs es)
  case Nil
  then show ?case by simp
next
  case (Cons r rs)
  define w1 where "w1 = (if gone deliver r then drop_reg (reg_token r) w else w)"
  obtain w2 rqs2 es2 where 2: "fan_out deliver (Some drop_reg) rs w1 = (w2, rqs2, es2)" by (metis prod_cases3)
  have "w' = w2"
    using Cons.prems 2 by (auto simp: Let_def w1_def gone_def run_remove_def
        split: prod.splits option.splits send_error.splits)
  moreover have "regs w1 = filter (\<lambda>x. \<not> (gone deliver r \<and> reg_token r = reg_token x)) (regs w)"
    by (auto simp: w1_def drop_law remove_registration_def intro!: filter_cong)
  ultimately show ?case using Cons.IH [OF 2] by (auto intro!: filter_cong)
qed

text \<open>After a fan-out over the registry's own devices, those reported gone are removed, no other.\<close>

lemma fan_out_prunes:
  assumes "fan_out deliver (Some drop_reg) (regs w) w = (w', rqs, es)" "distinct (map reg_token (regs w))"
  shows "regs w' = filter (\<lambda>r. \<not> gone deliver r) (regs w)"
proof -
  have "(\<exists>r \<in> set (regs w). gone deliver r \<and> reg_token r = reg_token x) \<longleftrightarrow> gone deliver x"
    if "x \<in> set (regs w)" for x
    using that assms(2) by (metis distinct_map inj_onD)
  with fan_out_regs [OF assms(1)] show ?thesis by (auto intro!: filter_cong)
qed

lemma find_after_drop: "find_reg (drop_reg t w) u = (if u = t then None else find_reg w u)"
  by (simp add: find_law drop_law find_remove_registration)

end

text \<open>The token store with its file is such a registry, whatever the file system answers.\<close>

definition store_drop :: "write_answers \<Rightarrow> string \<Rightarrow> token_store \<times> fs \<Rightarrow> token_store \<times> fs" where
  "store_drop a t w = (let (ts, files, e) = token_remove a t (fst w) (snd w) in (ts, files))"

interpretation tokens: device_registry "\<lambda>w :: token_store \<times> fs. token_all (fst w)" "store_drop a"
  "\<lambda>w. token_find (fst w)" for a
  by unfold_locales (auto simp: store_drop_def token_remove_def token_all_def token_find_def Let_def
      split: prod.splits)

subsection \<open>Properties\<close>

definition alert_request :: "relay_client \<Rightarrow> string \<Rightarrow> string \<Rightarrow> registration \<Rightarrow> request" where
  "alert_request c server message r = \<lparr>rq_url = rc_base_url c @ ''/api/push/send'',
     rq_authorization = ''Bearer '' @ rc_token c,
     rq_body = send_payload (reg_token r) (reg_environment r) server message\<rparr>"

definition accepted :: "http_outcome \<Rightarrow> bool" where
  "accepted out \<longleftrightarrow> (case out of NetError _ \<Rightarrow> False | Response s _ \<Rightarrow> s < 300)"

definition reported_gone :: "http_outcome \<Rightarrow> bool" where
  "reported_gone out \<longleftrightarrow> (case out of NetError _ \<Rightarrow> False | Response s _ \<Rightarrow> s = 410)"

lemma send_eq:
  "send c (reg_token r) (reg_environment r) server message net =
     ([alert_request c server message r], post_result ''/api/push/send'' (net (alert_request c server message r)))"
  by (simp add: send_def post_def alert_request_def Let_def)

lemma post_result_None: "post_result p out = None \<longleftrightarrow> accepted out"
  by (auto simp: post_result_def accepted_def StatusGone_def split: http_outcome.splits)

lemma post_result_gone: "post_result p out = Some TokenUnregistered \<longleftrightarrow> reported_gone out"
  by (auto simp: post_result_def reported_gone_def StatusGone_def split: http_outcome.splits)

text \<open>
  C19. Delivery is per device. An alert published to the token store's devices makes exactly one
  request for each of them, in order, with that device's token and environment, whatever the relay
  answers to the others; it reports success exactly when there is a device and every request was
  accepted; and afterwards exactly the devices the relay reported gone (410) are unregistered.
\<close>
theorem publish_reaches_every_device:
  assumes "regs_inv (token_all ts)"
    "publish c server (\<lambda>w. token_all (fst w)) (Some (store_drop a)) message net (ts, files) = ((ts', files'), rqs, err)"
  shows "rqs = map (alert_request c server message) (token_all ts) \<and>
    (err = None \<longleftrightarrow> token_all ts \<noteq> [] \<and> (\<forall>r \<in> set (token_all ts). accepted (net (alert_request c server message r)))) \<and>
    token_all ts' = filter (\<lambda>r. \<not> reported_gone (net (alert_request c server message r))) (token_all ts)"
proof (cases "token_all ts = []")
  case True
  then show ?thesis using assms(2) by (auto simp: publish_def)
next
  case False
  let ?d = "\<lambda>r. send c (reg_token r) (reg_environment r) server message net"
  let ?rm = "Some (store_drop a)"
  obtain es where f: "fan_out ?d ?rm (token_all ts) (ts, files) = ((ts', files'), rqs, es)" "err = join_errors es"
    using assms(2) False by (auto simp: publish_def Let_def split: prod.splits)
  have "rqs = concat (map (\<lambda>r. [alert_request c server message r]) (token_all ts))"
    using fan_out_requests [OF f(1)] by (simp add: send_eq)
  then have 1: "rqs = map (alert_request c server message) (token_all ts)" by simp
  have "es = [] \<longleftrightarrow> filter (undelivered ?d) (token_all ts) = []"
    unfolding length_0_conv [symmetric] fan_out_errors [OF f(1)] ..
  moreover have "undelivered ?d r \<longleftrightarrow> \<not> accepted (net (alert_request c server message r))" for r
    unfolding undelivered_def send_eq snd_conv post_result_None ..
  ultimately have "es = [] \<longleftrightarrow> (\<forall>r \<in> set (token_all ts). accepted (net (alert_request c server message r)))"
    unfolding filter_empty_conv by blast
  then have 2: "err = None \<longleftrightarrow> (\<forall>r \<in> set (token_all ts). accepted (net (alert_request c server message r)))"
    unfolding f(2) join_errors_None .
  have "distinct (map reg_token (token_all ts))" using assms(1) by (simp add: regs_inv_def)
  then have "token_all ts' = filter (\<lambda>r. \<not> gone ?d r) (token_all ts)"
    using tokens.fan_out_prunes [of ?d a "(ts, files)"] f(1) by simp
  then have 3: "token_all ts' = filter (\<lambda>r. \<not> reported_gone (net (alert_request c server message r))) (token_all ts)"
    by (simp add: gone_def send_eq post_result_gone)
  show ?thesis using 1 2 3 False by blast
qed

theorem publish_reaches_every_device_witness:
  "token_all (fst (fst (publish \<lparr>rc_base_url = ''https://r'', rc_token = ''k''\<rparr> ''srv'' (\<lambda>w. token_all (fst w))
     (Some (store_drop all_ok)) ''hi''
     (\<lambda>rq. if rq = alert_request \<lparr>rc_base_url = ''https://r'', rc_token = ''k''\<rparr> ''srv'' ''hi'' mac
           then Response 410 [] else Response 200 [])
     (\<lparr>ts_path = ''t'', ts_regs = [mac, phone]\<rparr>, \<lambda>_. None)))) = [phone]"
proof -
  let ?c = "\<lparr>rc_base_url = ''https://r'', rc_token = ''k''\<rparr>"
  let ?net = "\<lambda>rq. if rq = alert_request ?c ''srv'' ''hi'' mac then Response 410 [] else Response 200 []"
  let ?ts = "\<lparr>ts_path = ''t'', ts_regs = [mac, phone]\<rparr>"
  obtain ts' files' rqs err where p: "publish ?c ''srv'' (\<lambda>w. token_all (fst w)) (Some (store_drop all_ok)) ''hi''
      ?net (?ts, \<lambda>_. None) = ((ts', files'), rqs, err)" by (metis prod.exhaust)
  have "regs_inv (token_all ?ts)"
    by (simp add: token_all_def regs_inv_def mac_def phone_def EnvironmentProduction_def)
  from publish_reaches_every_device [OF this p]
  have "token_all ts' = filter (\<lambda>r. \<not> reported_gone (?net (alert_request ?c ''srv'' ''hi'' r))) [mac, phone]"
    by (simp add: token_all_def)
  also have "\<dots> = [phone]" by code_simp
  finally show ?thesis using p by simp
qed

lemma get_scheme_prefix:
  "get_scheme pos u = Some s \<Longrightarrow> s \<noteq> [] \<Longrightarrow> \<exists>pre post. u = pre @ CHR '':'' # post \<and> s = rev pos @ pre"
proof (induction u arbitrary: pos)
  case (Cons c cs)
  show ?case
  proof (cases "get_scheme (c # pos) cs = Some s \<and> get_scheme pos (c # cs) = get_scheme (c # pos) cs")
    case True
    then obtain pre post where "cs = pre @ CHR '':'' # post" "s = rev (c # pos) @ pre"
      using Cons.IH [of "c # pos"] Cons.prems(2) by blast
    then have "c # cs = (c # pre) @ CHR '':'' # post" "s = rev pos @ c # pre" by simp_all
    then show ?thesis by blast
  next
    case False
    then have "c = CHR '':''" "s = rev pos" using Cons.prems by (auto split: if_splits)
    then show ?thesis by (intro exI [of _ "[]"] exI [of _ cs]) simp
  qed
qed simp

text \<open>
  The relay's credential never travels in clear. Whenever \<open>NewClient\<close> accepts its arguments, every
  request the client makes, to either endpoint, goes to a URL of the scheme https and carries the
  configured non-empty token; any other scheme and an empty token are refused.
\<close>
theorem relay_token_only_over_https:
  assumes "new_client rest_error base_url token = Inr c"
    "rq \<in> set (fst (send c dev env title body net)) \<union> set (fst (send_metrics c dev env m net))"
  shows "(\<exists>sch rest. rq_url rq = sch @ CHR '':'' # rest \<and> to_lower sch = ''https'') \<and>
    rq_authorization rq = ''Bearer '' @ token \<and> token \<noteq> []"
proof -
  define base where "base = (if base_url = [] then DefaultBaseURL else base_url)"
  have u: "url_scheme rest_error base = Inr ''https''" "token \<noteq> []"
    "c = \<lparr>rc_base_url = trim_right_char base (CHR ''/''), rc_token = token\<rparr>"
    using assms(1) by (auto simp: new_client_def Let_def base_def split: sum.splits if_splits)
  obtain s where "get_scheme [] (takeWhile (\<lambda>c. c \<noteq> CHR ''#'') base) = Some s" "to_lower s = ''https''"
    using u(1) by (auto simp: url_scheme_def Let_def split: option.splits if_splits)
  moreover have "s \<noteq> []" using calculation(2) by (auto simp: to_lower_def)
  ultimately obtain post where p: "takeWhile (\<lambda>c. c \<noteq> CHR ''#'') base = s @ CHR '':'' # post" "to_lower s = ''https''"
    using get_scheme_prefix [of "[]"] by force
  obtain post' where "base = s @ CHR '':'' # post'"
    using p(1) takeWhile_dropWhile_id [of "\<lambda>c. c \<noteq> CHR ''#''" base] by (metis append.assoc append_Cons)
  then have "trim_right_char base (CHR ''/'') = s @ CHR '':'' # rev (dropWhile (\<lambda>x. x = CHR ''/'') (rev post'))"
    by (simp add: trim_right_char_def dropWhile_append3)
  then have url: "\<exists>rest. rc_base_url c @ path = s @ CHR '':'' # rest" for path by (simp add: u(3))
  obtain path where rq: "rq_url rq = rc_base_url c @ path" "rq_authorization rq = ''Bearer '' @ rc_token c"
    using assms(2) by (auto simp: send_def send_metrics_def post_def Let_def split: sum.splits)
  obtain rest where "rq_url rq = s @ CHR '':'' # rest" using url [of path] rq(1) by auto
  then show ?thesis using p(2) u(2,3) rq(2) by auto
qed

theorem relay_token_only_over_https_witness:
  "\<exists>c. new_client (\<lambda>_. None) [] ''secret'' = Inr c \<and>
     (\<exists>sch rest. rq_url (hd (fst (send c ''aa'' [] ''srv'' ''hi'' (\<lambda>_. Response 200 [])))) = sch @ CHR '':'' # rest
        \<and> to_lower sch = ''https'')"
proof -
  let ?c = "\<lparr>rc_base_url = ''https://gateshell.com'', rc_token = ''secret''\<rparr>"
  have n: "new_client (\<lambda>_. None) [] ''secret'' = Inr ?c" by code_simp
  let ?rqs = "fst (send ?c ''aa'' [] ''srv'' ''hi'' (\<lambda>_. Response 200 []))"
  have "?rqs \<noteq> []" by (simp add: send_def post_def Let_def)
  then have "hd ?rqs \<in> set ?rqs" by simp
  then show ?thesis
    using relay_token_only_over_https [OF n, of "hd ?rqs" "''aa''" "[]" "''srv''" "''hi''" "\<lambda>_. Response 200 []"] n
    by blast
qed

end
