(* ===== verification/Widget.thy ===== *)
theory Widget
  imports Push_Relay Collector_Types
begin

text \<open>
  internal/pushrelay/widget.go: silent metrics pushes, at most one per interval. \<open>Notify\<close> claims the
  slot under its lock, publishes without it, and gives the slot back when the publish failed. It is
  modelled twice: as one call, and as a step relation in which the two locked sections of different
  calls interleave.
\<close>

definition MinWidgetInterval :: duration where "MinWidgetInterval = 10 * minute"

definition round1 :: "float64 \<Rightarrow> float64" where
  "round1 v = f_div (math_round (f_mul v (Fin 10))) (Fin 10)"

definition metrics_from :: "string \<Rightarrow> sample \<Rightarrow> widget_metrics" where
  "metrics_from server s =
     \<lparr>wm_server_name = server,
      wm_cpu_percent = round1 (cpu_percent s),
      wm_memory_percent =
        (if f_gt (mem_total_mb s) (Fin 0)
         then Some (round1 (f_mul (f_div (mem_used_mb s) (mem_total_mb s)) (Fin 100))) else None),
      wm_disk_percent =
        (if f_gt (disk_total_gb s) (Fin 0)
         then Some (f_to_int64 (math_round (f_mul (f_div (disk_used_gb s) (disk_total_gb s)) (Fin 100))))
         else None),
      wm_captured_at = timestamp s\<rparr>"

text \<open>\<open>pollInterval\<close> is \<open>None\<close> when nil; \<open>NewWidgetNotifier\<close> then uses the floor.\<close>

definition poll_or_default :: "duration option \<Rightarrow> duration" where
  "poll_or_default p = (case p of None \<Rightarrow> MinWidgetInterval | Some d \<Rightarrow> d)"

definition widget_interval :: "duration option \<Rightarrow> duration" where
  "widget_interval p = (let d = poll_or_default p in if d < MinWidgetInterval then MinWidgetInterval else d)"

text \<open>The first locked section: \<open>Some now\<close> when the slot is claimed. The second one: restore.\<close>

definition claim_slot :: "duration \<Rightarrow> time \<Rightarrow> time \<Rightarrow> time option" where
  "claim_slot interval now last_sent =
     (if \<not> is_zero_time last_sent \<and> time_sub now last_sent < interval then None else Some now)"

definition restore_slot :: "time \<Rightarrow> time \<Rightarrow> time \<Rightarrow> time" where
  "restore_slot now previous last_sent = (if last_sent = now then previous else last_sent)"

text \<open>A call of \<open>Notify\<close> alone: the publish function (\<open>None\<close> when nil) acts on a state \<open>'w\<close>.\<close>

definition notify ::
  "(widget_metrics \<Rightarrow> 'w \<Rightarrow> 'w \<times> request list \<times> metrics_error option) option \<Rightarrow> duration option \<Rightarrow> string \<Rightarrow>
   time \<Rightarrow> sample \<Rightarrow> time \<Rightarrow> 'w \<Rightarrow> time \<times> 'w \<times> request list \<times> bool \<times> metrics_error option" where
  "notify pub poll server now s last_sent w =
     (case pub of
        None \<Rightarrow> (last_sent, w, [], False, None)
      | Some f \<Rightarrow>
          (case claim_slot (widget_interval poll) now last_sent of
             None \<Rightarrow> (last_sent, w, [], False, None)
           | Some claimed \<Rightarrow>
               (let (w', rqs, err) = f (metrics_from server s) w
                in case err of
                     Some e \<Rightarrow> (restore_slot now last_sent claimed, w', rqs, False, Some e)
                   | None \<Rightarrow> (claimed, w', rqs, True, None))))"

fun notify_run ::
  "(widget_metrics \<Rightarrow> 'w \<Rightarrow> 'w \<times> request list \<times> metrics_error option) option \<Rightarrow> duration option \<Rightarrow> string \<Rightarrow>
   (time \<times> sample) list \<Rightarrow> time \<Rightarrow> 'w \<Rightarrow> time \<times> 'w \<times> request list list" where
  "notify_run pub poll server [] l w = (l, w, [])"
| "notify_run pub poll server ((now, s) # xs) l w =
     (let (l1, w1, rqs, sent, err) = notify pub poll server now s l w;
          (l2, w2, rest) = notify_run pub poll server xs l1 w1
      in (l2, w2, rqs # rest))"

lemma widget_interval_floor: "MinWidgetInterval \<le> widget_interval p \<and> 0 < widget_interval p"
  by (auto simp: widget_interval_def Let_def MinWidgetInterval_def)

lemma widget_interval_follows: "MinWidgetInterval \<le> d \<Longrightarrow> widget_interval (Some d) = d"
  by (simp add: widget_interval_def poll_or_default_def Let_def)

lemma claim_slot_Some:
  assumes "claim_slot i now l = Some c" "0 < i"
  shows "c = now \<and> (l = 0 \<or> l + i \<le> now)"
proof (cases "l = 0")
  case True
  then show ?thesis using assms by (simp add: claim_slot_def is_zero_time_def)
next
  case False
  then have "c = now" "i \<le> time_sub now l"
    using assms(1) by (auto simp: claim_slot_def is_zero_time_def split: if_splits)
  moreover have "min_int64 < i" using assms(2) by (simp add: int64_limits)
  ultimately show ?thesis using sat_int64_geD [of i "now - l"] by (simp add: time_sub_def)
qed

subsection \<open>Concurrent calls\<close>

text \<open>
  A push in flight is its claim time with the stamp it replaced. \<open>nw_sent\<close> lists the claim times of
  the pushes whose publish succeeded. The poll interval and the clock are read anew by each call, and
  the clock may go back.
\<close>

record notify_world =
  nw_last :: time
  nw_flight :: "(time \<times> time) list"
  nw_sent :: "time list"

inductive notify_step :: "notify_world \<Rightarrow> notify_world \<Rightarrow> bool" where
  claim: "claim_slot (widget_interval poll) now (nw_last w) = Some c \<Longrightarrow> 0 < now \<Longrightarrow>
    notify_step w (w\<lparr>nw_last := c, nw_flight := (now, nw_last w) # nw_flight w\<rparr>)"
| delivered: "nw_flight w = xs @ (now, prev) # ys \<Longrightarrow>
    notify_step w (w\<lparr>nw_flight := xs @ ys, nw_sent := now # nw_sent w\<rparr>)"
| failed: "nw_flight w = xs @ (now, prev) # ys \<Longrightarrow>
    notify_step w (w\<lparr>nw_flight := xs @ ys, nw_last := restore_slot now prev (nw_last w)\<rparr>)"

inductive_cases notify_stepE: "notify_step w w'"

definition idle_notifier :: notify_world where
  "idle_notifier = \<lparr>nw_last = 0, nw_flight = [], nw_sent = []\<rparr>"

text \<open>The pushes that count against the throttle: delivered or still in flight.\<close>

definition live :: "notify_world \<Rightarrow> time list" where
  "live w = map fst (nw_flight w) @ nw_sent w"

abbreviation gap :: duration where "gap \<equiv> MinWidgetInterval"

definition spaced :: "time list \<Rightarrow> bool" where
  "spaced ts \<longleftrightarrow> sorted_wrt (\<lambda>a b. a + gap \<le> b \<or> b + gap \<le> a) ts"

definition notify_inv :: "notify_world \<Rightarrow> bool" where
  "notify_inv w \<longleftrightarrow> spaced (live w) \<and> (\<forall>c \<in> set (live w). 0 < c \<and> c \<le> nw_last w) \<and> 0 \<le> nw_last w \<and>
     (\<forall>(c, p) \<in> set (nw_flight w). 0 \<le> p \<and> (\<forall>c' \<in> set (live w). c' = c \<or> c' \<le> p \<or> c + gap \<le> c'))"

lemma gap_pos: "0 < gap" by (simp add: MinWidgetInterval_def)

lemma spaced_Cons: "spaced (a # ts) \<longleftrightarrow> (\<forall>b \<in> set ts. a + gap \<le> b \<or> b + gap \<le> a) \<and> spaced ts"
  by (simp add: spaced_def)

lemma spaced_perm: "spaced (xs @ a # ys) \<longleftrightarrow> spaced (a # xs @ ys)"
  by (auto simp: spaced_def sorted_wrt_append)

lemma spaced_nth:
  assumes "spaced ts" "i < length ts" "j < length ts" "i \<noteq> j"
  shows "ts ! i + gap \<le> ts ! j \<or> ts ! j + gap \<le> ts ! i"
proof -
  have "\<And>i j. i < j \<Longrightarrow> j < length ts \<Longrightarrow> ts ! i + gap \<le> ts ! j \<or> ts ! j + gap \<le> ts ! i"
    using assms(1) sorted_wrt_nth_less unfolding spaced_def by fastforce
  then show ?thesis using assms(2-4) by (metis linorder_neqE_nat)
qed

lemma live_split:
  assumes "nw_flight w = xs @ (c, p) # ys"
  shows "set (live w) = insert c (set (live (w\<lparr>nw_flight := xs @ ys\<rparr>)))"
    "spaced (live w) \<longleftrightarrow> spaced (c # live (w\<lparr>nw_flight := xs @ ys\<rparr>))"
  using assms by (auto simp: live_def spaced_perm [of "map fst xs" c "map fst ys @ nw_sent w", simplified])

lemma notify_inv_step: "notify_step w w' \<Longrightarrow> notify_inv w \<Longrightarrow> notify_inv w'"
proof (induction rule: notify_step.induct)
  case (claim poll now w c)
  have g: "gap \<le> widget_interval poll" "0 < widget_interval poll" using widget_interval_floor by simp_all
  have c: "c = now" "nw_last w = 0 \<or> nw_last w + gap \<le> now"
    using claim_slot_Some [OF claim(1) g(2)] g(1) by auto
  have le: "x \<le> nw_last w \<and> 0 < x" if "x \<in> set (live w)" for x
    using claim.prems that by (simp add: notify_inv_def)
  have fresh: "x + gap \<le> now" if "x \<in> set (live w)" for x using le [OF that] c(2) by auto
  let ?w = "w\<lparr>nw_last := c, nw_flight := (now, nw_last w) # nw_flight w\<rparr>"
  have l: "live ?w = now # live w" by (simp add: live_def)
  have "spaced (live ?w)" using fresh claim.prems by (auto simp: l spaced_Cons notify_inv_def)
  moreover have "0 < x \<and> x \<le> nw_last ?w" if "x \<in> set (live ?w)" for x
  proof (cases "x = now")
    case True
    then show ?thesis using c(1) claim(2) by simp
  next
    case False
    then have "x \<in> set (live w)" using that by (simp add: l)
    from le [OF this] fresh [OF this] gap_pos c(1) show ?thesis by simp
  qed
  moreover have "0 \<le> p \<and> (\<forall>x \<in> set (live ?w). x = d \<or> x \<le> p \<or> d + gap \<le> x)"
    if "(d, p) \<in> set (nw_flight ?w)" for d p
  proof (cases "(d, p) = (now, nw_last w)")
    case True
    then show ?thesis using le claim.prems by (auto simp: l notify_inv_def)
  next
    case False
    then have f: "(d, p) \<in> set (nw_flight w)" using that by auto
    then have "d \<in> set (live w)" by (force simp: live_def)
    then have "d + gap \<le> now" by (rule fresh)
    then show ?thesis using f claim.prems by (auto simp: l notify_inv_def)
  qed
  ultimately show ?case using c(1) claim(2) by (auto simp: notify_inv_def)
next
  case (delivered w xs now prev ys)
  let ?w = "w\<lparr>nw_flight := xs @ ys, nw_sent := now # nw_sent w\<rparr>"
  have "set (live ?w) = set (live w)" using delivered by (auto simp: live_def)
  moreover have "spaced (live ?w) \<longleftrightarrow> spaced (live w)"
    using live_split(2) [OF delivered(1)] spaced_perm [of "map fst (xs @ ys)" now "nw_sent w"]
    by (simp add: live_def)
  moreover have "set (nw_flight ?w) \<subseteq> set (nw_flight w)" using delivered(1) by auto
  then have "\<forall>(c, p) \<in> set (nw_flight ?w). 0 \<le> p \<and> (\<forall>c' \<in> set (live w). c' = c \<or> c' \<le> p \<or> c + gap \<le> c')"
    using delivered.prems unfolding notify_inv_def by blast
  moreover have "nw_last ?w = nw_last w" by simp
  ultimately show ?case using delivered.prems unfolding notify_inv_def by simp
next
  case (failed w xs now prev ys)
  let ?v = "w\<lparr>nw_flight := xs @ ys\<rparr>" and ?l = "restore_slot now prev (nw_last w)"
  have s: "set (live w) = insert now (set (live ?v))" and sp: "spaced (now # live ?v)"
    using live_split [OF failed(1)] failed.prems by (simp_all add: notify_inv_def)
  have f: "(now, prev) \<in> set (nw_flight w)" using failed(1) by simp
  have apart: "x \<noteq> now" if "x \<in> set (live ?v)" for x
    using sp that gap_pos by (auto simp: spaced_Cons)
  have "0 < x \<and> x \<le> ?l" if "x \<in> set (live ?v)" for x
  proof -
    have x: "0 < x" "x \<le> nw_last w" using failed.prems that s by (auto simp: notify_inv_def)
    have "x \<le> prev \<or> now + gap \<le> x"
      using failed.prems f that s apart [OF that] by (auto simp: notify_inv_def)
    then show ?thesis using x gap_pos by (auto simp: restore_slot_def)
  qed
  moreover have "0 \<le> ?l" using failed.prems f by (auto simp: notify_inv_def restore_slot_def)
  moreover have "\<forall>(c, p) \<in> set (xs @ ys). 0 \<le> p \<and> (\<forall>c' \<in> set (live ?v). c' = c \<or> c' \<le> p \<or> c + gap \<le> c')"
  proof -
    have "set (xs @ ys) \<subseteq> set (nw_flight w)" "set (live ?v) \<subseteq> set (live w)" using failed(1) s by auto
    then show ?thesis using failed.prems unfolding notify_inv_def by blast
  qed
  moreover have "live (w\<lparr>nw_flight := xs @ ys, nw_last := ?l\<rparr>) = live ?v" by (simp add: live_def)
  ultimately show ?case using sp by (simp add: notify_inv_def spaced_Cons)
qed

lemma notify_inv_reachable: "notify_step\<^sup>*\<^sup>* idle_notifier w \<Longrightarrow> notify_inv w"
proof (induction rule: rtranclp_induct)
  case base
  show ?case by (simp add: notify_inv_def idle_notifier_def live_def spaced_def)
qed (rule notify_inv_step)

text \<open>
  C10. The throttle holds under concurrency. However the locked sections of concurrent \<open>Notify\<close> calls
  interleave, with publishes that succeed, fail or stay in flight and a clock that may jump, any two
  pushes that were published successfully were claimed at least ten minutes apart.
\<close>
theorem widget_pushes_spaced:
  assumes "notify_step\<^sup>*\<^sup>* idle_notifier w" "i < length (nw_sent w)" "j < length (nw_sent w)" "i \<noteq> j"
  shows "MinWidgetInterval \<le> \<bar>nw_sent w ! i - nw_sent w ! j\<bar>"
proof -
  have "spaced (live w)" using notify_inv_reachable [OF assms(1)] by (simp add: notify_inv_def)
  then have "spaced (nw_sent w)" by (simp add: live_def spaced_def sorted_wrt_append)
  from spaced_nth [OF this assms(2-4)] show ?thesis by auto
qed

theorem widget_pushes_spaced_witness:
  "notify_step\<^sup>*\<^sup>* idle_notifier \<lparr>nw_last = 1000000000001, nw_flight = [], nw_sent = [1000000000001, 1]\<rparr> \<and>
   MinWidgetInterval \<le> \<bar>(1000000000001 :: int) - 1\<bar>"
proof -
  let ?a = "\<lparr>nw_last = 1, nw_flight = [(1, 0)], nw_sent = []\<rparr>"
  let ?b = "\<lparr>nw_last = 1, nw_flight = [], nw_sent = [1]\<rparr>"
  let ?c = "\<lparr>nw_last = 1000000000001, nw_flight = [(1000000000001, 1)], nw_sent = [1]\<rparr>"
  let ?d = "\<lparr>nw_last = 1000000000001, nw_flight = [], nw_sent = [1000000000001, 1]\<rparr>"
  have s: "claim_slot (widget_interval None) 1 0 = Some 1"
    "claim_slot (widget_interval None) 1000000000001 1 = Some 1000000000001" by code_simp+
  have "notify_step idle_notifier ?a"
    using claim [of None 1 idle_notifier 1] s(1) by (simp add: idle_notifier_def)
  moreover have "notify_step ?a ?b" using delivered [of ?a "[]" 1 0 "[]"] by simp
  moreover have "notify_step ?b ?c" using claim [of None 1000000000001 ?b 1000000000001] s(2) by simp
  moreover have "notify_step ?c ?d" using delivered [of ?c "[]" 1000000000001 1 "[]"] by simp
  ultimately have r: "notify_step\<^sup>*\<^sup>* idle_notifier ?d"
    by (meson converse_rtranclp_into_rtranclp r_into_rtranclp)
  with widget_pushes_spaced [OF r, of 0 1] show ?thesis by simp
qed

subsection \<open>One failing device\<close>

lemma fan_out_unchanged:
  "\<forall>r \<in> set rs. \<not> gone deliver r \<Longrightarrow>
   \<exists>es. fan_out deliver rm rs w = (w, concat (map (\<lambda>r. fst (deliver r)) rs), es)
     \<and> length es = length (filter (undelivered deliver) rs)"
proof (induction rs)
  case (Cons r rs)
  obtain es where "fan_out deliver rm rs w = (w, concat (map (\<lambda>r. fst (deliver r)) rs), es)"
    "length es = length (filter (undelivered deliver) rs)" using Cons by auto
  moreover have "undelivered deliver r \<longleftrightarrow> snd (deliver r) \<noteq> None" by (simp add: undelivered_def)
  ultimately show ?case using Cons.prems
    by (cases "deliver r") (auto simp: gone_def Let_def split: option.splits send_error.splits)
qed simp

lemma publish_metrics_one_failing:
  assumes "r \<in> set (regs w)" "undelivered (deliver_metrics c server m net) r"
    "\<forall>x \<in> set (regs w). \<not> gone (deliver_metrics c server m net) x"
  shows "\<exists>e. publish_metrics c server regs rm m net w =
    (w, concat (map (\<lambda>x. fst (deliver_metrics c server m net x)) (regs w)), Some (MetricsFailed e))"
proof -
  let ?d = "deliver_metrics c server m net"
  obtain es where es: "fan_out ?d rm (regs w) w = (w, concat (map (\<lambda>x. fst (?d x)) (regs w)), es)"
    "length es = length (filter (undelivered ?d) (regs w))"
    using fan_out_unchanged [OF assms(3), of rm w] by (elim exE conjE)
  have "filter (undelivered ?d) (regs w) \<noteq> []"
    unfolding filter_empty_conv using assms(1,2) by blast
  then have "length es \<noteq> 0" unfolding es(2) length_0_conv .
  then have "es \<noteq> []" by simp
  moreover have "regs w \<noteq> []" using assms(1) by auto
  ultimately show ?thesis
    unfolding publish_metrics_def es(1) Let_def prod.case join_errors_def by simp
qed

text \<open>
  One unreachable device disables the throttle. While a registered device's deliveries keep
  failing (and none is reported gone), every sample is pushed to every device, the reachable ones
  included, however short the time between the samples: the failure of the one gives back the slot
  of all.
\<close>
theorem one_failing_device_defeats_throttle:
  fixes regs :: "'s \<Rightarrow> registration list"
  assumes "r \<in> set (regs w)"
    "\<forall>m. snd (send_metrics c (reg_token r) (reg_environment r) m net) \<noteq> None"
    "\<forall>m. \<forall>x \<in> set (regs w). snd (send_metrics c (reg_token x) (reg_environment x) m net) \<noteq> Some TokenUnregistered"
  shows "notify_run (Some (\<lambda>m w. publish_metrics c server regs rm m net w)) poll server xs 0 w =
    (0, w, map (\<lambda>(now, s). concat (map (\<lambda>x. fst (send_metrics c (reg_token x) (reg_environment x)
        (metrics_from server s) net)) (regs w))) xs)"
proof (induction xs)
  case (Cons p xs)
  obtain now s where p: "p = (now, s)" by fastforce
  let ?m = "metrics_from server s"
  have m: "?m\<lparr>wm_server_name := server\<rparr> = ?m" by (simp add: metrics_from_def)
  have "undelivered (deliver_metrics c server ?m net) r"
    "\<forall>x \<in> set (regs w). \<not> gone (deliver_metrics c server ?m net) x"
    using assms(2,3) by (simp_all add: undelivered_def gone_def deliver_metrics_def)
  from publish_metrics_one_failing [where regs = regs and w = w and rm = rm, OF assms(1) this]
  obtain e where e: "publish_metrics c server regs rm ?m net w =
      (w, concat (map (\<lambda>x. fst (send_metrics c (reg_token x) (reg_environment x) ?m net)) (regs w)),
       Some (MetricsFailed e))"
    unfolding deliver_metrics_def m by blast
  then have "notify (Some (\<lambda>m w. publish_metrics c server regs rm m net w)) poll server now s 0 w =
      (0, w, concat (map (\<lambda>x. fst (send_metrics c (reg_token x) (reg_environment x) ?m net)) (regs w)),
       False, Some (MetricsFailed e))"
    by (simp add: notify_def claim_slot_def is_zero_time_def restore_slot_def e)
  then show ?case using Cons.IH by (simp add: p)
qed simp

text \<open>A relay that accepts the Mac's pushes and answers 500 to the phone's; samples 15 s apart.\<close>

definition half_dead_relay :: "request \<Rightarrow> http_outcome" where
  "half_dead_relay rq = (case rq_body rq of
     JObj kvs \<Rightarrow> if map_of kvs ''deviceToken'' = Some (JStr ''aa'') then Response 200 [] else Response 500 []
   | _ \<Rightarrow> Response 500 [])"

theorem one_failing_device_defeats_throttle_witness:
  "map length (snd (snd (notify_run (Some (\<lambda>m w. publish_metrics \<lparr>rc_base_url = ''https://r'', rc_token = ''k''\<rparr>
      ''srv'' (\<lambda>w. w) None m half_dead_relay w)) None ''srv''
      [(1, zero_sample), (15000000001, zero_sample), (30000000001, zero_sample)] 0 [mac, phone]))) = [2, 2, 2]"
proof -
  let ?c = "\<lparr>rc_base_url = ''https://r'', rc_token = ''k''\<rparr>"
  let ?xs = "[(1, zero_sample), (15000000001, zero_sample), (30000000001, zero_sample)]"
  have f: "snd (send_metrics ?c (reg_token phone) (reg_environment phone) m half_dead_relay) \<noteq> None" for m
  proof (cases "metrics_payload (reg_token phone) (reg_environment phone) m")
    case (Inl e)
    then show ?thesis by (simp add: send_metrics_def post_def)
  next
    case (Inr j)
    obtain kvs where "j = JObj kvs" "map_of kvs ''deviceToken'' = Some (JStr (reg_token phone))"
      using Inr by (auto simp: metrics_payload_def split: sum.splits option.splits)
    then have "half_dead_relay \<lparr>rq_url = u, rq_authorization = a, rq_body = j\<rparr> = Response 500 []" for u a
      by (simp add: half_dead_relay_def phone_def)
    then show ?thesis using Inr by (simp add: send_metrics_def post_def post_result_def StatusGone_def)
  qed
  have g: "snd (send_metrics ?c t e m half_dead_relay) \<noteq> Some TokenUnregistered" for t e m
    by (auto simp: send_metrics_def post_def Let_def half_dead_relay_def post_result_def StatusGone_def
        split: sum.splits json.splits if_splits)
  have "length (fst (send_metrics ?c (reg_token x) (reg_environment x) (metrics_from ''srv'' zero_sample) half_dead_relay)) = 1"
    if "x \<in> {mac, phone}" for x
  proof -
    have "\<exists>j. metrics_payload t e (metrics_from ''srv'' zero_sample) = Inr j" for t e
    proof -
      have "number_json (wm_cpu_percent (metrics_from ''srv'' zero_sample)) = Inr (JNum 0)"
        "wm_memory_percent (metrics_from ''srv'' zero_sample) = None" by code_simp+
      then show ?thesis by (simp add: metrics_payload_def)
    qed
    then show ?thesis by (metis (no_types, lifting) fst_conv length_Cons list.size(3) One_nat_def
          post_def send_metrics_def sum.case(2))
  qed
  then show ?thesis
    using one_failing_device_defeats_throttle [of phone "\<lambda>w. w" "[mac, phone]" ?c half_dead_relay "''srv''" None None ?xs]
      f g by (simp add: length_concat)
qed

end
