(* ===== verification/Go_Json_Map.thy ===== *)
theory Go_Json_Map
  imports Go_Json "HOL-Library.List_Lexorder" "HOL-Library.Char_ord"
begin

text \<open>
  JSON objects as \<open>map[string]any\<close>: what a document becomes when it is decoded into an \<open>any\<close> and
  written again. Numbers pass through \<open>float64\<close>, of a repeated key the last value is kept, and
  \<open>json.Marshal\<close> writes the keys in byte order.
\<close>

text \<open>Keep the last value of each key, then sort by key.\<close>

fun last_keys :: "(string \<times> 'a) list \<Rightarrow> (string \<times> 'a) list" where
  "last_keys [] = []"
| "last_keys ((k, v) # kvs) = (if k \<in> fst ` set kvs then last_keys kvs else (k, v) # last_keys kvs)"

definition as_map :: "(string \<times> 'a) list \<Rightarrow> (string \<times> 'a) list" where
  "as_map kvs = sort_key fst (last_keys kvs)"

fun to_any :: "json \<Rightarrow> json option" and to_any_list :: "json list \<Rightarrow> json list option"
  and to_any_pairs :: "(string \<times> json) list \<Rightarrow> (string \<times> json) list option" where
  "to_any JNull = Some JNull"
| "to_any (JBool b) = Some (JBool b)"
| "to_any (JNum r) = (case f64 r of Fin x \<Rightarrow> Some (JNum x) | _ \<Rightarrow> None)"
| "to_any (JStr s) = Some (JStr s)"
| "to_any (JArr js) = map_option JArr (to_any_list js)"
| "to_any (JObj kvs) = map_option (\<lambda>ps. JObj (as_map ps)) (to_any_pairs kvs)"
| "to_any_list [] = Some []"
| "to_any_list (j # js) = (case to_any j of None \<Rightarrow> None | Some x \<Rightarrow> map_option ((#) x) (to_any_list js))"
| "to_any_pairs [] = Some []"
| "to_any_pairs ((k, j) # kvs) =
     (case to_any j of None \<Rightarrow> None | Some x \<Rightarrow> map_option ((#) (k, x)) (to_any_pairs kvs))"

lemma last_keys_set: "fst ` set (last_keys kvs) = fst ` set kvs"
  by (induction kvs rule: last_keys.induct) auto

lemma last_keys_distinct: "distinct (map fst (last_keys kvs))"
proof (induction kvs rule: last_keys.induct)
  case (2 k v kvs)
  have "k \<in> set (map fst (last_keys kvs)) \<longleftrightarrow> k \<in> fst ` set kvs" by (simp add: last_keys_set)
  with 2 show ?case by (auto simp del: set_map)
qed simp

lemma obj_get_Nil [simp]: "obj_get [] k = None"
  by (simp add: obj_get_def)

lemma obj_get_Cons:
  "obj_get ((k', v) # kvs) k = (case obj_get kvs k of Some w \<Rightarrow> Some w | None \<Rightarrow> if k = k' then Some v else None)"
  by (auto simp: obj_get_def map_add_def split: option.splits)

lemma obj_get_append: "obj_get (xs @ ys) k = (case obj_get ys k of Some v \<Rightarrow> Some v | None \<Rightarrow> obj_get xs k)"
  by (auto simp: obj_get_def map_add_def split: option.splits)

lemma obj_get_None: "obj_get kvs k = None \<longleftrightarrow> k \<notin> fst ` set kvs"
  by (simp add: obj_get_def map_of_eq_None_iff)

lemma map_of_last_keys: "map_of (last_keys kvs) k = obj_get kvs k"
proof (induction kvs rule: last_keys.induct)
  case (2 k' v kvs)
  then show ?case
    using obj_get_None [of kvs k] obj_get_None [of kvs k']
    by (cases "obj_get kvs k"; cases "k' \<in> fst ` set kvs") (auto simp: obj_get_Cons)
qed simp

lemma as_map_distinct [simp]: "distinct (map fst (as_map kvs))"
  using last_keys_distinct [of kvs] by (simp add: as_map_def distinct_map)

lemma as_map_keys [simp]: "fst ` set (as_map kvs) = fst ` set kvs"
  by (simp add: as_map_def last_keys_set)

lemma map_of_as_map [simp]: "map_of (as_map kvs) k = obj_get kvs k"
proof -
  have "set (as_map kvs) = set (last_keys kvs)" by (simp add: as_map_def)
  then have "map_of (as_map kvs) = map_of (last_keys kvs)"
    using map_of_inject_set [OF as_map_distinct last_keys_distinct, of kvs kvs] by simp
  then show ?thesis by (simp add: map_of_last_keys)
qed

lemma obj_get_distinct: "distinct (map fst kvs) \<Longrightarrow> obj_get kvs k = map_of kvs k"
proof (induction kvs)
  case (Cons kv kvs)
  obtain k' v where kv: "kv = (k', v)" by fastforce
  then have "k' \<notin> fst ` set kvs" using Cons.prems by simp
  then show ?case
    using Cons kv obj_get_None [of kvs k'] by (cases "k = k'") (auto simp: obj_get_Cons split: option.splits)
qed simp

lemma obj_get_as_map [simp]: "obj_get (as_map kvs) k = obj_get kvs k"
  using obj_get_distinct [OF as_map_distinct] by simp

lemma to_any_pairs_get:
  "to_any_pairs kvs = Some ps \<Longrightarrow> map fst ps = map fst kvs \<and>
     (\<forall>k. map_of ps k = Option.bind (map_of kvs k) to_any)"
proof (induction kvs arbitrary: ps)
  case (Cons kv kvs)
  obtain k j where kv: "kv = (k, j)" by fastforce
  then obtain x ps' where "to_any j = Some x" "to_any_pairs kvs = Some ps'" "ps = (k, x) # ps'"
    using Cons.prems by (auto split: option.splits)
  then show ?case using Cons.IH kv by auto
qed simp

lemma to_any_pairs_rev: "to_any_pairs kvs = Some ps \<Longrightarrow> to_any_pairs (rev kvs) = Some (rev ps)"
proof (induction kvs arbitrary: ps)
  case (Cons kv kvs)
  have app: "to_any_pairs (a @ b) = (case to_any_pairs a of None \<Rightarrow> None
      | Some x \<Rightarrow> map_option ((@) x) (to_any_pairs b))" for a b
  proof (induction a)
    case Nil
    show ?case by (cases "to_any_pairs b") simp_all
  next
    case (Cons p a)
    then show ?case by (cases p; cases "to_any_pairs b") (auto split: option.splits)
  qed
  show ?case using Cons by (cases kv) (auto simp: app split: option.splits)
qed simp

lemma to_any_obj_get:
  assumes "to_any_pairs kvs = Some ps"
  shows "obj_get ps k = Option.bind (obj_get kvs k) to_any"
  using to_any_pairs_get [OF to_any_pairs_rev [OF assms]] by (simp add: obj_get_def)

end
