(* ===== verification/Config.thy ===== *)
theory Config
  imports Rule_Json Go_Json_Map Go_Os
begin

text \<open>
  internal/config/config.go: the configuration, layered from built-in defaults, an optional JSON
  file, environment variables and flags, and the functions that write a setting back to the file.
  Host name, environment and file system are arguments. Every error return is an \<open>Inl\<close>; the one
  panic of the code (a file holding \<open>null\<close>) is a result of its own.
\<close>

definition DefaultListenAddr :: string where "DefaultListenAddr = ''127.0.0.1:8443''"
definition DefaultDBPath :: string where "DefaultDBPath = ''gateshell-agent.db''"
definition DefaultPollInterval :: duration where "DefaultPollInterval = 5 * minute"
definition DefaultServerName :: string where "DefaultServerName = ''gateshell-agent''"

record config =
  c_listen_addr :: string
  c_db_path :: string
  c_poll_interval :: duration
  c_pairing_token :: string
  c_push_relay_token :: string
  c_push_relay_url :: string
  c_server_name :: string
  c_rules :: "rule slice"
  c_service_rules :: "service_rule slice"
  c_file_path :: string

definition zero_config :: config where
  "zero_config = \<lparr>c_listen_addr = [], c_db_path = [], c_poll_interval = 0, c_pairing_token = [],
     c_push_relay_token = [], c_push_relay_url = [], c_server_name = [], c_rules = None,
     c_service_rules = None, c_file_path = []\<rparr>"

definition defaults :: "string result \<Rightarrow> config" where
  "defaults hostname = zero_config\<lparr>c_listen_addr := DefaultListenAddr, c_db_path := DefaultDBPath,
     c_poll_interval := DefaultPollInterval,
     c_server_name := (case hostname of Inl _ \<Rightarrow> DefaultServerName
        | Inr h \<Rightarrow> if h = [] then DefaultServerName else h)\<rparr>"

record flag_overrides =
  fo_config_file :: string
  fo_listen_addr :: "string option"
  fo_db_path :: "string option"
  fo_poll_interval :: "duration option"
  fo_pairing_token :: "string option"
  fo_push_relay_token :: "string option"
  fo_push_relay_url :: "string option"
  fo_server_name :: "string option"

subsection \<open>The file\<close>

definition file_ext :: "string \<Rightarrow> string" where
  "file_ext path = (let base = rev (takeWhile (\<lambda>c. c \<noteq> CHR ''/'') (rev path))
     in case last_index_byte base (CHR ''.'') of None \<Rightarrow> [] | Some i \<Rightarrow> drop i base)"

record raw_config =
  raw_listen_addr :: string
  raw_db_path :: string
  raw_poll_interval :: string
  raw_pairing_token :: string
  raw_push_relay_token :: string
  raw_push_relay_url :: string
  raw_server_name :: string
  raw_rules :: "rule slice"
  raw_service_rules :: "service_rule slice"

definition zero_raw_config :: raw_config where
  "zero_raw_config = \<lparr>raw_listen_addr = [], raw_db_path = [], raw_poll_interval = [],
     raw_pairing_token = [], raw_push_relay_token = [], raw_push_relay_url = [], raw_server_name = [],
     raw_rules = None, raw_service_rules = None\<rparr>"

abbreviation dec_rules :: "rule slice decoder" where
  "dec_rules \<equiv> dec_slice (dec_custom rule_unmarshal) zero_rule"

abbreviation dec_service_rules :: "service_rule slice decoder" where
  "dec_service_rules \<equiv> dec_slice (dec_custom service_rule_unmarshal) zero_service_rule"

definition raw_config_fields :: "raw_config fields" where
  "raw_config_fields =
     [(''listen_addr'', lift_field raw_listen_addr (\<lambda>x s. s\<lparr>raw_listen_addr := x\<rparr>) dec_string),
      (''db_path'', lift_field raw_db_path (\<lambda>x s. s\<lparr>raw_db_path := x\<rparr>) dec_string),
      (''poll_interval'', lift_field raw_poll_interval (\<lambda>x s. s\<lparr>raw_poll_interval := x\<rparr>) dec_string),
      (''pairing_token'', lift_field raw_pairing_token (\<lambda>x s. s\<lparr>raw_pairing_token := x\<rparr>) dec_string),
      (''push_relay_token'', lift_field raw_push_relay_token (\<lambda>x s. s\<lparr>raw_push_relay_token := x\<rparr>) dec_string),
      (''push_relay_url'', lift_field raw_push_relay_url (\<lambda>x s. s\<lparr>raw_push_relay_url := x\<rparr>) dec_string),
      (''server_name'', lift_field raw_server_name (\<lambda>x s. s\<lparr>raw_server_name := x\<rparr>) dec_string),
      (''rules'', lift_field raw_rules (\<lambda>x s. s\<lparr>raw_rules := x\<rparr>) dec_rules),
      (''service_rules'', lift_field raw_service_rules (\<lambda>x s. s\<lparr>raw_service_rules := x\<rparr>) dec_service_rules)]"

definition config_of_raw :: "raw_config \<Rightarrow> config result" where
  "config_of_raw raw =
     (let cfg = zero_config\<lparr>c_listen_addr := raw_listen_addr raw, c_db_path := raw_db_path raw,
        c_pairing_token := raw_pairing_token raw, c_push_relay_token := raw_push_relay_token raw,
        c_push_relay_url := raw_push_relay_url raw, c_server_name := raw_server_name raw,
        c_rules := raw_rules raw, c_service_rules := raw_service_rules raw\<rparr>
      in if raw_poll_interval raw \<noteq> []
         then (case parse_duration (raw_poll_interval raw) of
             Inl e \<Rightarrow> Inl (''parsing poll_interval: '' @ e)
           | Inr d \<Rightarrow> Inr (cfg\<lparr>c_poll_interval := d\<rparr>))
         else Inr cfg)"

definition load_file :: "os_answer \<Rightarrow> fs \<Rightarrow> string \<Rightarrow> config result" where
  "load_file a files path =
     (case read_file a files path of
        ReadError e \<Rightarrow> Inl e
      | NotExist \<Rightarrow> Inl (''open '' @ path @ '': no such file or directory'')
      | Content c \<Rightarrow>
          (let ext = to_lower (file_ext path)
           in if ext = ''.json'' \<or> ext = []
              then (case c of
                  Garbage \<Rightarrow> Inl ''parsing JSON: invalid character''
                | EmptyFile \<Rightarrow> Inl ''parsing JSON: unexpected end of JSON input''
                | Doc j \<Rightarrow>
                    (let (raw, bad) = dec_struct raw_config_fields j zero_raw_config
                     in if bad then Inl ''parsing JSON: cannot unmarshal'' else config_of_raw raw))
              else if ext = ''.toml'' then Inl ''TOML config files are not yet supported; use JSON''
              else Inl (''unrecognized config file extension '' @ quote ext)))"

subsection \<open>The layers\<close>

definition merge_non_zero :: "config \<Rightarrow> config \<Rightarrow> config" where
  "merge_non_zero b ov =
     b\<lparr>c_listen_addr := (if c_listen_addr ov \<noteq> [] then c_listen_addr ov else c_listen_addr b),
       c_db_path := (if c_db_path ov \<noteq> [] then c_db_path ov else c_db_path b),
       c_poll_interval := (if c_poll_interval ov \<noteq> 0 then c_poll_interval ov else c_poll_interval b),
       c_pairing_token := (if c_pairing_token ov \<noteq> [] then c_pairing_token ov else c_pairing_token b),
       c_push_relay_token := (if c_push_relay_token ov \<noteq> [] then c_push_relay_token ov else c_push_relay_token b),
       c_push_relay_url := (if c_push_relay_url ov \<noteq> [] then c_push_relay_url ov else c_push_relay_url b),
       c_server_name := (if c_server_name ov \<noteq> [] then c_server_name ov else c_server_name b),
       c_rules := (if c_rules ov \<noteq> None then c_rules ov else c_rules b),
       c_service_rules := (if c_service_rules ov \<noteq> None then c_service_rules ov else c_service_rules b)\<rparr>"

definition env_string :: "(string \<Rightarrow> string) \<Rightarrow> string \<Rightarrow> string \<Rightarrow> string" where
  "env_string env name old = (if env name \<noteq> [] then env name else old)"

definition apply_env :: "(string \<Rightarrow> string) \<Rightarrow> config \<Rightarrow> config" where
  "apply_env env cfg =
     cfg\<lparr>c_listen_addr := env_string env ''GATESHELL_AGENT_LISTEN_ADDR'' (c_listen_addr cfg),
         c_db_path := env_string env ''GATESHELL_AGENT_DB_PATH'' (c_db_path cfg),
         c_poll_interval :=
           (let v = env ''GATESHELL_AGENT_POLL_INTERVAL''
            in if v \<noteq> [] then (case parse_duration v of Inr d \<Rightarrow> d | Inl _ \<Rightarrow> c_poll_interval cfg)
               else c_poll_interval cfg),
         c_pairing_token := env_string env ''GATESHELL_AGENT_PAIRING_TOKEN'' (c_pairing_token cfg),
         c_push_relay_token := env_string env ''GATESHELL_AGENT_PUSH_RELAY_TOKEN'' (c_push_relay_token cfg),
         c_push_relay_url := env_string env ''GATESHELL_AGENT_PUSH_RELAY_URL'' (c_push_relay_url cfg),
         c_server_name := env_string env ''GATESHELL_AGENT_SERVER_NAME'' (c_server_name cfg)\<rparr>"

definition flag_string :: "string option \<Rightarrow> string \<Rightarrow> string" where
  "flag_string f old = (case f of Some v \<Rightarrow> if v \<noteq> [] then v else old | None \<Rightarrow> old)"

definition apply_flags :: "flag_overrides \<Rightarrow> config \<Rightarrow> config" where
  "apply_flags flags cfg =
     cfg\<lparr>c_listen_addr := flag_string (fo_listen_addr flags) (c_listen_addr cfg),
         c_db_path := flag_string (fo_db_path flags) (c_db_path cfg),
         c_poll_interval := (case fo_poll_interval flags of Some d \<Rightarrow> if d \<noteq> 0 then d else c_poll_interval cfg
            | None \<Rightarrow> c_poll_interval cfg),
         c_pairing_token := flag_string (fo_pairing_token flags) (c_pairing_token cfg),
         c_push_relay_token := flag_string (fo_push_relay_token flags) (c_push_relay_token cfg),
         c_push_relay_url := flag_string (fo_push_relay_url flags) (c_push_relay_url cfg),
         c_server_name := flag_string (fo_server_name flags) (c_server_name cfg)\<rparr>"

definition validate_config :: "config \<Rightarrow> string option" where
  "validate_config c =
     (if c_listen_addr c = [] then Some ''config: listen address must not be empty''
      else if c_poll_interval c \<le> 0 then Some ''config: poll interval must be positive''
      else if c_db_path c = [] then Some ''config: db path must not be empty''
      else None)"

definition load_config ::
  "os_answer \<Rightarrow> fs \<Rightarrow> string result \<Rightarrow> (string \<Rightarrow> string) \<Rightarrow> flag_overrides \<Rightarrow> config result" where
  "load_config a files hostname env flags =
     (let base = defaults hostname
      in case (if fo_config_file flags \<noteq> []
               then (case load_file a files (fo_config_file flags) of
                   Inl e \<Rightarrow> Inl (''config: loading file '' @ quote (fo_config_file flags) @ '': '' @ e)
                 | Inr f \<Rightarrow> Inr (merge_non_zero base f))
               else Inr base) of
           Inl e \<Rightarrow> Inl e
         | Inr cfg \<Rightarrow>
             (let cfg1 = (apply_flags flags (apply_env env cfg))\<lparr>c_file_path := fo_config_file flags\<rparr>
              in case validate_config cfg1 of Some e \<Rightarrow> Inl e | None \<Rightarrow> Inr cfg1))"

definition parse_poll_interval_flag :: "string \<Rightarrow> duration result" where
  "parse_poll_interval_flag s =
     (if s = [] then Inr 0
      else case parse_int s of
        Inr n \<Rightarrow> Inr (wrap_int64 (n * second))
      | Inl _ \<Rightarrow> parse_duration s)"

subsection \<open>Writing settings back\<close>

datatype save_result = Saved | SaveError string | SavePanic

text \<open>The values of the new fields, as \<open>json.Marshal\<close> writes them; the first error ends it.\<close>

fun marshal_values :: "(string \<times> json result) list \<Rightarrow> (string \<times> json) list result" where
  "marshal_values [] = Inr []"
| "marshal_values ((k, v) # kvs) =
     (case v of Inl e \<Rightarrow> Inl e
      | Inr j \<Rightarrow> (case marshal_values kvs of Inl e \<Rightarrow> Inl e | Inr js \<Rightarrow> Inr ((k, j) # js)))"

datatype raw_map = NilMap | Map "(string \<times> json) list"

definition read_raw_map :: "os_answer \<Rightarrow> fs \<Rightarrow> string \<Rightarrow> raw_map result" where
  "read_raw_map a files path =
     (case read_file a files path of
        NotExist \<Rightarrow> Inr (Map [])
      | ReadError e \<Rightarrow> Inl (''config: reading file '' @ quote path @ '': '' @ e)
      | Content EmptyFile \<Rightarrow> Inr (Map [])
      | Content Garbage \<Rightarrow> Inl (''config: parsing existing file '' @ quote path @ '': invalid character'')
      | Content (Doc JNull) \<Rightarrow> Inr NilMap
      | Content (Doc j) \<Rightarrow>
          (case to_any j of
             Some (JObj kvs) \<Rightarrow> Inr (Map kvs)
           | _ \<Rightarrow> Inl (''config: parsing existing file '' @ quote path @ '': json: cannot unmarshal'')))"

definition save_config_fields ::
  "os_answer \<Rightarrow> write_answers \<Rightarrow> string \<Rightarrow> (string \<times> json result) list \<Rightarrow> fs \<Rightarrow> fs \<times> save_result" where
  "save_config_fields ra a path upd files =
     (if path = [] then (files, SaveError ''config: no config file path configured; cannot persist setting'')
      else if to_lower (file_ext path) \<noteq> ''.json'' \<and> to_lower (file_ext path) \<noteq> []
      then (files, SaveError (''config: cannot persist to non-JSON config file '' @ quote path))
      else case read_raw_map ra files path of
        Inl e \<Rightarrow> (files, SaveError e)
      | Inr raw \<Rightarrow>
          if raw = NilMap \<and> upd \<noteq> [] then (files, SavePanic)
          else (case marshal_values upd of
             Inl e \<Rightarrow> (files, SaveError (''config: marshaling config: '' @ e))
           | Inr vs \<Rightarrow>
               (let doc = (case raw of NilMap \<Rightarrow> JNull | Map kvs \<Rightarrow> JObj (as_map (kvs @ vs)));
                    (files1, r1) = write_file a (tmp_path path) (Doc doc) files
                in case r1 of
                     Some e \<Rightarrow> (files1, SaveError (''config: writing temp file: '' @ e))
                   | None \<Rightarrow>
                       (let (files2, r2) = rename_file a (tmp_path path) path files1
                        in case r2 of
                             Some e \<Rightarrow> (files2, SaveError (''config: renaming temp file into place: '' @ e))
                           | None \<Rightarrow> (files2, Saved)))))"

definition save_poll_interval :: "os_answer \<Rightarrow> write_answers \<Rightarrow> string \<Rightarrow> duration \<Rightarrow> fs \<Rightarrow> fs \<times> save_result" where
  "save_poll_interval ra a path d files =
     save_config_fields ra a path [(''poll_interval'', Inr (JStr (duration_string d)))] files"

fun marshal_list :: "('a \<Rightarrow> json result) \<Rightarrow> 'a list \<Rightarrow> json list result" where
  "marshal_list enc [] = Inr []"
| "marshal_list enc (x # xs) =
     (case enc x of Inl e \<Rightarrow> Inl e
      | Inr j \<Rightarrow> (case marshal_list enc xs of Inl e \<Rightarrow> Inl e | Inr js \<Rightarrow> Inr (j # js)))"

definition rules_json :: "rule slice \<Rightarrow> json result" where
  "rules_json rs = (case marshal_list rule_marshal (elems rs) of Inl e \<Rightarrow> Inl e | Inr js \<Rightarrow> Inr (JArr js))"

definition service_rules_json :: "service_rule slice \<Rightarrow> json" where
  "service_rules_json srs = JArr (map service_rule_marshal (elems srs))"

text \<open>\<open>SaveRules\<close> writes nil slices as empty ones.\<close>

definition save_rules ::
  "os_answer \<Rightarrow> write_answers \<Rightarrow> string \<Rightarrow> rule slice \<Rightarrow> service_rule slice \<Rightarrow> fs \<Rightarrow> fs \<times> save_result" where
  "save_rules ra a path rs srs files =
     save_config_fields ra a path [(''rules'', rules_json rs), (''service_rules'', Inr (service_rules_json srs))] files"

end
