(* ===== verification/Config_Claims.thy ===== *)
theory Config_Claims
  imports Config
begin

text \<open>
  Properties of the configuration: the precedence of the four sources, what writing a setting back
  does to the file, and what of it a restart sees.
\<close>

subsection \<open>Precedence\<close>

fun first_set :: "string list \<Rightarrow> string" where
  "first_set [] = []"
| "first_set (x # xs) = (if x \<noteq> [] then x else first_set xs)"

definition flag_value :: "string option \<Rightarrow> string" where
  "flag_value f = (case f of Some v \<Rightarrow> v | None \<Rightarrow> [])"

definition file_layer :: "os_answer \<Rightarrow> fs \<Rightarrow> flag_overrides \<Rightarrow> config result" where
  "file_layer a files flags =
     (if fo_config_file flags = [] then Inr zero_config else load_file a files (fo_config_file flags))"

definition env_interval :: "(string \<Rightarrow> string) \<Rightarrow> duration option" where
  "env_interval env = (let v = env ''GATESHELL_AGENT_POLL_INTERVAL''
     in if v = [] then None else case parse_duration v of Inl _ \<Rightarrow> None | Inr d \<Rightarrow> Some d)"

definition layered_interval :: "duration option \<Rightarrow> duration option \<Rightarrow> duration \<Rightarrow> duration" where
  "layered_interval flag env file =
     (case flag of Some d \<Rightarrow> if d \<noteq> 0 then d else
         (case env of Some e \<Rightarrow> e | None \<Rightarrow> if file \<noteq> 0 then file else DefaultPollInterval)
      | None \<Rightarrow> (case env of Some e \<Rightarrow> e | None \<Rightarrow> if file \<noteq> 0 then file else DefaultPollInterval))"

definition layered_config :: "string result \<Rightarrow> (string \<Rightarrow> string) \<Rightarrow> flag_overrides \<Rightarrow> config \<Rightarrow> config" where
  "layered_config host env flags f =
     \<lparr>c_listen_addr = first_set [flag_value (fo_listen_addr flags), env ''GATESHELL_AGENT_LISTEN_ADDR'',
        c_listen_addr f, DefaultListenAddr],
      c_db_path = first_set [flag_value (fo_db_path flags), env ''GATESHELL_AGENT_DB_PATH'', c_db_path f, DefaultDBPath],
      c_poll_interval = layered_interval (fo_poll_interval flags) (env_interval env) (c_poll_interval f),
      c_pairing_token = first_set [flag_value (fo_pairing_token flags), env ''GATESHELL_AGENT_PAIRING_TOKEN'',
        c_pairing_token f],
      c_push_relay_token = first_set [flag_value (fo_push_relay_token flags), env ''GATESHELL_AGENT_PUSH_RELAY_TOKEN'',
        c_push_relay_token f],
      c_push_relay_url = first_set [flag_value (fo_push_relay_url flags), env ''GATESHELL_AGENT_PUSH_RELAY_URL'',
        c_push_relay_url f],
      c_server_name = first_set [flag_value (fo_server_name flags), env ''GATESHELL_AGENT_SERVER_NAME'',
        c_server_name f, c_server_name (defaults host)],
      c_rules = c_rules f, c_service_rules = c_service_rules f, c_file_path = fo_config_file flags\<rparr>"

lemma env_string_first: "env_string env n old = first_set [env n, old]"
  by (simp add: env_string_def)

lemma flag_string_first: "flag_string f old = first_set [flag_value f, old]"
  by (auto simp: flag_string_def flag_value_def split: option.splits)

lemma defaults_fields:
  "c_listen_addr (defaults host) = DefaultListenAddr" "c_db_path (defaults host) = DefaultDBPath"
  "c_poll_interval (defaults host) = DefaultPollInterval" "c_pairing_token (defaults host) = []"
  "c_push_relay_token (defaults host) = []" "c_push_relay_url (defaults host) = []"
  "c_rules (defaults host) = None" "c_service_rules (defaults host) = None" "c_server_name (defaults host) \<noteq> []"
  by (auto simp: defaults_def zero_config_def DefaultServerName_def split: sum.splits)

lemma merge_zero_config: "merge_non_zero b zero_config = b"
  by (cases b) (simp add: merge_non_zero_def zero_config_def)

lemma merged_base:
  assumes "file_layer a files flags = Inr f"
  shows "(if fo_config_file flags \<noteq> []
    then (case load_file a files (fo_config_file flags) of
        Inl e \<Rightarrow> Inl (''config: loading file '' @ quote (fo_config_file flags) @ '': '' @ e)
      | Inr f \<Rightarrow> Inr (merge_non_zero (defaults host) f))
    else Inr (defaults host)) = Inr (merge_non_zero (defaults host) f)"
proof (cases "fo_config_file flags = []")
  case True
  then have "f = zero_config" using assms by (simp add: file_layer_def)
  then show ?thesis using True by (simp add: merge_zero_config)
next
  case False
  then show ?thesis using assms by (simp add: file_layer_def)
qed

lemma flags_fields:
  "c_listen_addr (apply_flags flags cfg) = flag_string (fo_listen_addr flags) (c_listen_addr cfg)"
  "c_db_path (apply_flags flags cfg) = flag_string (fo_db_path flags) (c_db_path cfg)"
  "c_pairing_token (apply_flags flags cfg) = flag_string (fo_pairing_token flags) (c_pairing_token cfg)"
  "c_push_relay_token (apply_flags flags cfg) = flag_string (fo_push_relay_token flags) (c_push_relay_token cfg)"
  "c_push_relay_url (apply_flags flags cfg) = flag_string (fo_push_relay_url flags) (c_push_relay_url cfg)"
  "c_server_name (apply_flags flags cfg) = flag_string (fo_server_name flags) (c_server_name cfg)"
  "c_poll_interval (apply_flags flags cfg) = (case fo_poll_interval flags of
     Some d \<Rightarrow> if d \<noteq> 0 then d else c_poll_interval cfg | None \<Rightarrow> c_poll_interval cfg)"
  "c_rules (apply_flags flags cfg) = c_rules cfg" "c_service_rules (apply_flags flags cfg) = c_service_rules cfg"
  by (simp_all add: apply_flags_def)

lemma env_fields:
  "c_listen_addr (apply_env env cfg) = env_string env ''GATESHELL_AGENT_LISTEN_ADDR'' (c_listen_addr cfg)"
  "c_db_path (apply_env env cfg) = env_string env ''GATESHELL_AGENT_DB_PATH'' (c_db_path cfg)"
  "c_pairing_token (apply_env env cfg) = env_string env ''GATESHELL_AGENT_PAIRING_TOKEN'' (c_pairing_token cfg)"
  "c_push_relay_token (apply_env env cfg) = env_string env ''GATESHELL_AGENT_PUSH_RELAY_TOKEN'' (c_push_relay_token cfg)"
  "c_push_relay_url (apply_env env cfg) = env_string env ''GATESHELL_AGENT_PUSH_RELAY_URL'' (c_push_relay_url cfg)"
  "c_server_name (apply_env env cfg) = env_string env ''GATESHELL_AGENT_SERVER_NAME'' (c_server_name cfg)"
  "c_rules (apply_env env cfg) = c_rules cfg" "c_service_rules (apply_env env cfg) = c_service_rules cfg"
  by (simp_all add: apply_env_def)

lemma env_interval_field:
  "c_poll_interval (apply_env env cfg) = (case env_interval env of Some e \<Rightarrow> e | None \<Rightarrow> c_poll_interval cfg)"
  by (simp add: apply_env_def env_interval_def Let_def split: sum.splits)

lemma merge_fields:
  "c_listen_addr (merge_non_zero b ov) = first_set [c_listen_addr ov, c_listen_addr b]"
  "c_db_path (merge_non_zero b ov) = first_set [c_db_path ov, c_db_path b]"
  "c_pairing_token (merge_non_zero b ov) = first_set [c_pairing_token ov, c_pairing_token b]"
  "c_push_relay_token (merge_non_zero b ov) = first_set [c_push_relay_token ov, c_push_relay_token b]"
  "c_push_relay_url (merge_non_zero b ov) = first_set [c_push_relay_url ov, c_push_relay_url b]"
  "c_server_name (merge_non_zero b ov) = first_set [c_server_name ov, c_server_name b]"
  "c_poll_interval (merge_non_zero b ov) = (if c_poll_interval ov \<noteq> 0 then c_poll_interval ov else c_poll_interval b)"
  "c_rules (merge_non_zero b ov) = (if c_rules ov \<noteq> None then c_rules ov else c_rules b)"
  "c_service_rules (merge_non_zero b ov) = (if c_service_rules ov \<noteq> None then c_service_rules ov else c_service_rules b)"
  by (simp_all add: merge_non_zero_def)

lemma first_set_nested [simp]:
  "first_set [x, first_set xs] = first_set (x # xs)" "first_set [x, []] = x" "first_set [x, y, []] = first_set [x, y]"
  "first_set [x, y, z, []] = first_set [x, y, z]"
  by simp_all

lemma layered_eq:
  "(apply_flags flags (apply_env env (merge_non_zero (defaults host) f)))\<lparr>c_file_path := fo_config_file flags\<rparr>
     = layered_config host env flags f"
proof (rule config.equality)
  let ?c = "apply_env env (merge_non_zero (defaults host) f)"
  have "c_poll_interval ?c = (case env_interval env of Some e \<Rightarrow> e
      | None \<Rightarrow> if c_poll_interval f \<noteq> 0 then c_poll_interval f else DefaultPollInterval)"
    by (cases "env_interval env") (simp_all add: env_interval_field merge_fields defaults_fields)
  then show "c_poll_interval ((apply_flags flags ?c)\<lparr>c_file_path := fo_config_file flags\<rparr>) =
      c_poll_interval (layered_config host env flags f)"
    by (cases "fo_poll_interval flags") (simp_all add: flags_fields layered_config_def layered_interval_def)
qed (simp_all add: flags_fields env_fields merge_fields layered_config_def defaults_fields
      env_string_first flag_string_first del: first_set.simps)

text \<open>
  C35. Precedence and validity. \<open>Load\<close> yields, setting by setting, the flag's value, else the
  environment's, else the file's, else the default (an unparsable interval variable is passed over),
  and fails exactly when the file does not load or the result has no listen address, no database
  path or a poll interval that is not positive.
\<close>
theorem load_layers_sources:
  "load_config a files host env flags =
    (case file_layer a files flags of
       Inl e \<Rightarrow> Inl (''config: loading file '' @ quote (fo_config_file flags) @ '': '' @ e)
     | Inr f \<Rightarrow>
         (let cfg = layered_config host env flags f
          in if c_listen_addr cfg \<noteq> [] \<and> 0 < c_poll_interval cfg \<and> c_db_path cfg \<noteq> []
             then Inr cfg else Inl (the (validate_config cfg))))"
proof (cases "file_layer a files flags")
  case (Inl e)
  then show ?thesis by (auto simp: load_config_def file_layer_def Let_def split: if_splits)
next
  case (Inr f)
  show ?thesis
    unfolding load_config_def Let_def merged_base [OF Inr] sum.case layered_eq
    using Inr by (auto simp: validate_config_def Let_def)
qed

subsection \<open>Writing back\<close>

lemma save_config_fields_file:
  assumes "save_config_fields ra a path upd files = (files', r)"
  shows "(r \<noteq> Saved \<longrightarrow> files' path = files path) \<and>
    (r = Saved \<and> upd \<noteq> [] \<longrightarrow> (\<exists>kvs vs. read_raw_map ra files path = Inr (Map kvs) \<and>
       marshal_values upd = Inr vs \<and> files' path = Some (Doc (JObj (as_map (kvs @ vs))))))"
  using assms unfolding save_config_fields_def Let_def
  by (auto simp: write_file_def rename_file_def split: if_splits sum.splits raw_map.splits option.splits)



subsection \<open>What a restart reads\<close>

text \<open>
  A file in the form the agent itself writes is unchanged by reading it into a map and writing it
  again (\<open>any_normal\<close>), and names the settings by their own keys, not by variants in another case.
\<close>

definition any_normal :: "json \<Rightarrow> bool" where
  "any_normal j \<longleftrightarrow> to_any j = Some j"

definition plain_keys :: "(string \<times> json) list \<Rightarrow> bool" where
  "plain_keys kvs \<longleftrightarrow> (\<forall>k \<in> fst ` set kvs. find_field raw_config_fields k \<noteq> None \<longrightarrow> k \<in> fst ` set raw_config_fields)"

definition dec_at :: "'a decoder \<Rightarrow> (string \<times> json) list \<Rightarrow> string \<Rightarrow> 'a \<Rightarrow> 'a" where
  "dec_at d kvs k old = (case map_of kvs k of None \<Rightarrow> old | Some j \<Rightarrow> fst (d j old))"

definition settings_of :: "(string \<times> json) list \<Rightarrow> raw_config \<Rightarrow> raw_config" where
  "settings_of kvs s =
     \<lparr>raw_listen_addr = dec_at dec_string kvs ''listen_addr'' (raw_listen_addr s),
      raw_db_path = dec_at dec_string kvs ''db_path'' (raw_db_path s),
      raw_poll_interval = dec_at dec_string kvs ''poll_interval'' (raw_poll_interval s),
      raw_pairing_token = dec_at dec_string kvs ''pairing_token'' (raw_pairing_token s),
      raw_push_relay_token = dec_at dec_string kvs ''push_relay_token'' (raw_push_relay_token s),
      raw_push_relay_url = dec_at dec_string kvs ''push_relay_url'' (raw_push_relay_url s),
      raw_server_name = dec_at dec_string kvs ''server_name'' (raw_server_name s),
      raw_rules = dec_at dec_rules kvs ''rules'' (raw_rules s),
      raw_service_rules = dec_at dec_service_rules kvs ''service_rules'' (raw_service_rules s)\<rparr>"

lemma raw_config_find:
  "find_field raw_config_fields ''listen_addr'' = Some (lift_field raw_listen_addr (\<lambda>x s. s\<lparr>raw_listen_addr := x\<rparr>) dec_string)"
  "find_field raw_config_fields ''db_path'' = Some (lift_field raw_db_path (\<lambda>x s. s\<lparr>raw_db_path := x\<rparr>) dec_string)"
  "find_field raw_config_fields ''poll_interval'' = Some (lift_field raw_poll_interval (\<lambda>x s. s\<lparr>raw_poll_interval := x\<rparr>) dec_string)"
  "find_field raw_config_fields ''pairing_token'' = Some (lift_field raw_pairing_token (\<lambda>x s. s\<lparr>raw_pairing_token := x\<rparr>) dec_string)"
  "find_field raw_config_fields ''push_relay_token'' = Some (lift_field raw_push_relay_token (\<lambda>x s. s\<lparr>raw_push_relay_token := x\<rparr>) dec_string)"
  "find_field raw_config_fields ''push_relay_url'' = Some (lift_field raw_push_relay_url (\<lambda>x s. s\<lparr>raw_push_relay_url := x\<rparr>) dec_string)"
  "find_field raw_config_fields ''server_name'' = Some (lift_field raw_server_name (\<lambda>x s. s\<lparr>raw_server_name := x\<rparr>) dec_string)"
  "find_field raw_config_fields ''rules'' = Some (lift_field raw_rules (\<lambda>x s. s\<lparr>raw_rules := x\<rparr>) dec_rules)"
  "find_field raw_config_fields ''service_rules'' =
     Some (lift_field raw_service_rules (\<lambda>x s. s\<lparr>raw_service_rules := x\<rparr>) dec_service_rules)"
  by (simp_all add: find_field_def raw_config_fields_def)

lemma setting_keys: "fst ` set raw_config_fields = {''listen_addr'', ''db_path'', ''poll_interval'',
    ''pairing_token'', ''push_relay_token'', ''push_relay_url'', ''server_name'', ''rules'', ''service_rules''}"
  by (simp add: raw_config_fields_def)

lemma dec_at_Cons: "dec_at d ((k, v) # kvs) k' old = (if k' = k then fst (d v old) else dec_at d kvs k' old)"
  by (simp add: dec_at_def)

lemma dec_at_absent: "k \<notin> fst ` set kvs \<Longrightarrow> dec_at d kvs k old = old"
  by (simp add: dec_at_def map_of_eq_None_iff [symmetric])

lemma dec_pairs_fst_Cons:
  "fst (dec_pairs fs ((k, v) # kvs) s) =
     fst (dec_pairs fs kvs (case find_field fs k of None \<Rightarrow> s | Some d \<Rightarrow> fst (d v s)))"
  by (auto simp: Let_def split: prod.splits option.splits)

lemma lift_field_fst: "fst (lift_field get put d j s) = put (fst (d j (get s))) s"
  by (simp add: lift_field_def split: prod.splits)

lemma lift_field_snd: "snd (lift_field get put d j s) = snd (d j (get s))"
  by (simp add: lift_field_def split: prod.splits)

lemma dec_pairs_settings:
  "distinct (map fst kvs) \<Longrightarrow> plain_keys kvs \<Longrightarrow> fst (dec_pairs raw_config_fields kvs s) = settings_of kvs s"
proof (induction kvs arbitrary: s)
  case Nil
  show ?case by (simp add: settings_of_def dec_at_def)
next
  case (Cons kv kvs)
  obtain k v where kv: "kv = (k, v)" by fastforce
  have k: "k \<notin> fst ` set kvs" and ih: "\<And>s. fst (dec_pairs raw_config_fields kvs s) = settings_of kvs s"
    using Cons kv by (auto simp: plain_keys_def)
  show ?case
  proof (cases "k \<in> fst ` set raw_config_fields")
    case False
    then have "find_field raw_config_fields k = None" using Cons.prems(2) kv by (auto simp: plain_keys_def)
    moreover have "settings_of ((k, v) # kvs) s = settings_of kvs s"
      using False unfolding setting_keys settings_of_def dec_at_Cons by auto
    ultimately show ?thesis by (simp only: kv dec_pairs_fst_Cons ih option.case)
  next
    case True
    have absent_rules: "dec_at d kvs k old = old" for d and old :: "rule slice" using dec_at_absent [OF k] .
    have absent_service: "dec_at d kvs k old = old" for d and old :: "service_rule slice" using dec_at_absent [OF k] .
    have absent_string: "dec_at d kvs k old = old" for d and old :: string using dec_at_absent [OF k] .
    have "settings_of kvs (case find_field raw_config_fields k of None \<Rightarrow> s | Some d \<Rightarrow> fst (d v s)) =
        settings_of ((k, v) # kvs) s"
      using True absent_rules absent_service absent_string unfolding setting_keys settings_of_def dec_at_Cons
      by (elim insertE emptyE) (simp_all add: raw_config_find lift_field_fst del: dec_slice.simps)
    then show ?thesis by (simp only: kv dec_pairs_fst_Cons ih)
  qed
qed

text \<open>Whether decoding reports an error depends on the values alone.\<close>

definition value_error :: "'s fields \<Rightarrow> 's \<Rightarrow> string \<Rightarrow> json \<Rightarrow> bool" where
  "value_error fs z k v = (case find_field fs k of None \<Rightarrow> False | Some d \<Rightarrow> snd (d v z))"

lemma dec_slice_snd: "snd (dec_slice d z j old) = snd (dec_slice d z j old')"
  by (cases j) (simp_all add: Let_def)

lemma dec_string_snd: "snd (dec_string j old) = snd (dec_string j old')"
  by (cases j) simp_all

lemma raw_config_find_error:
  "find_field raw_config_fields k = Some d \<Longrightarrow> snd (d v s) = snd (d v s')"
proof -
  assume "find_field raw_config_fields k = Some d"
  then have "d \<in> snd ` set raw_config_fields"
    by (force dest: find_field_in)
  then show ?thesis
    unfolding raw_config_fields_def
    by (simp only: list.set image_insert image_empty snd_conv insert_iff empty_iff)
      (elim disjE FalseE; simp only: lift_field_snd; rule dec_string_snd dec_slice_snd)
qed

lemma dec_pairs_error:
  "snd (dec_pairs raw_config_fields kvs s) \<longleftrightarrow> (\<exists>(k, v) \<in> set kvs. value_error raw_config_fields z k v)"
proof (induction kvs arbitrary: s)
  case (Cons kv kvs)
  obtain k v where kv: "kv = (k, v)" by fastforce
  show ?case
  proof (cases "find_field raw_config_fields k")
    case None
    then show ?thesis using Cons.IH [of s] by (auto simp: kv value_error_def Let_def split: prod.splits)
  next
    case (Some d)
    then have "snd (d v s) = value_error raw_config_fields z k v"
      using raw_config_find_error [OF Some, of v s z] by (simp add: value_error_def)
    then show ?thesis using Cons.IH [of "fst (d v s)"] Some by (auto simp: kv Let_def split: prod.splits)
  qed
qed simp

text \<open>Reading the file after a write of \<open>vs\<close>: the written settings are new, the others as before.\<close>

lemma normal_object:
  assumes "any_normal (JObj kvs)"
  shows "distinct (map fst kvs)" "to_any_pairs kvs \<noteq> None"
    "read_file ra files path = Content (Doc (JObj kvs)) \<Longrightarrow> read_raw_map ra files path = Inr (Map kvs)"
proof -
  obtain ps where "to_any_pairs kvs = Some ps" "kvs = as_map ps"
    using assms by (auto simp: any_normal_def)
  then show "distinct (map fst kvs)" "to_any_pairs kvs \<noteq> None" by simp_all
  show "read_file ra files path = Content (Doc (JObj kvs)) \<Longrightarrow> read_raw_map ra files path = Inr (Map kvs)"
    using assms by (auto simp: read_raw_map_def any_normal_def)
qed

lemma decode_after_save:
  assumes "any_normal (JObj kvs)" "plain_keys kvs" "fst ` set vs \<subseteq> fst ` set raw_config_fields"
    "\<not> snd (dec_pairs raw_config_fields kvs zero_raw_config)" "distinct (map fst vs)"
    "\<forall>(k, v) \<in> set vs. \<not> value_error raw_config_fields zero_raw_config k v"
  shows "dec_struct raw_config_fields (JObj (as_map (kvs @ vs))) zero_raw_config =
    (settings_of (as_map (kvs @ vs)) zero_raw_config, False)"
proof -
  let ?new = "as_map (kvs @ vs)"
  have "plain_keys ?new" using assms(2,3) unfolding plain_keys_def as_map_keys by auto
  then have 1: "fst (dec_pairs raw_config_fields ?new zero_raw_config) = settings_of ?new zero_raw_config"
    by (intro dec_pairs_settings) simp_all
  have "set ?new \<subseteq> set kvs \<union> set vs"
  proof
    fix p assume "p \<in> set ?new"
    moreover obtain k v where p: "p = (k, v)" by fastforce
    ultimately have "map_of ?new k = Some v" by (intro map_of_is_SomeI) simp_all
    then have "obj_get vs k = Some v \<or> obj_get kvs k = Some v"
      by (auto simp: obj_get_append split: option.splits)
    then show "p \<in> set kvs \<union> set vs" using p(1) by (auto simp: obj_get_def dest!: map_of_SomeD)
  qed
  then have "\<not> snd (dec_pairs raw_config_fields ?new zero_raw_config)"
    using assms(4,6) unfolding dec_pairs_error [where z = zero_raw_config] by blast
  with 1 show ?thesis by (simp add: prod_eq_iff)
qed

lemma dec_at_saved:
  assumes "distinct (map fst kvs)"
  shows "dec_at d (as_map (kvs @ vs)) k old = (case obj_get vs k of Some j \<Rightarrow> fst (d j old) | None \<Rightarrow> dec_at d kvs k old)"
  using obj_get_distinct [OF assms, of k] by (auto simp: dec_at_def obj_get_append split: option.splits)

lemma load_file_json:
  assumes "to_lower (file_ext path) = ''.json''" "files path = Some (Doc j)"
  shows "load_file None files path =
    (if snd (dec_struct raw_config_fields j zero_raw_config) then Inl ''parsing JSON: cannot unmarshal''
     else config_of_raw (fst (dec_struct raw_config_fields j zero_raw_config)))"
  using assms by (auto simp: load_file_def read_file_def Let_def split: prod.splits)

lemma config_of_raw_interval:
  assumes "config_of_raw raw = Inr cfg" "in_int64 d"
  shows "config_of_raw (raw\<lparr>raw_poll_interval := duration_string d\<rparr>) = Inr (cfg\<lparr>c_poll_interval := d\<rparr>)"
  using assms by (auto simp: config_of_raw_def Let_def parse_duration_string split: if_splits sum.splits)

lemma config_of_raw_rules:
  assumes "config_of_raw raw = Inr cfg"
  shows "config_of_raw (raw\<lparr>raw_rules := rs, raw_service_rules := srs\<rparr>) =
    Inr (cfg\<lparr>c_rules := rs, c_service_rules := srs\<rparr>)"
  using assms by (auto simp: config_of_raw_def Let_def split: if_splits sum.splits)

text \<open>The configuration file as the agent leaves it: a JSON object in normal form.\<close>

definition agent_file :: "fs \<Rightarrow> string \<Rightarrow> config \<Rightarrow> bool" where
  "agent_file files path cfg \<longleftrightarrow> to_lower (file_ext path) = ''.json'' \<and> load_file None files path = Inr cfg \<and>
     (\<exists>kvs. files path = Some (Doc (JObj kvs)) \<and> any_normal (JObj kvs) \<and> plain_keys kvs)"

lemma load_after_save:
  assumes "agent_file files path cfg" "save_config_fields ra a path upd files = (files', Saved)" "upd \<noteq> []"
    "marshal_values upd = Inr vs" "fst ` set vs \<subseteq> fst ` set raw_config_fields" "distinct (map fst vs)"
    "\<forall>(k, v) \<in> set vs. \<not> value_error raw_config_fields zero_raw_config k v"
  obtains kvs where "distinct (map fst kvs)" "config_of_raw (settings_of kvs zero_raw_config) = Inr cfg"
    "load_file None files' path = config_of_raw (settings_of (as_map (kvs @ vs)) zero_raw_config)"
proof -
  obtain kvs where k: "files path = Some (Doc (JObj kvs))" "any_normal (JObj kvs)" "plain_keys kvs"
    and ext: "to_lower (file_ext path) = ''.json''" and cfg: "load_file None files path = Inr cfg"
    using assms(1) by (auto simp: agent_file_def)
  have d: "distinct (map fst kvs)" using normal_object(1) [OF k(2)] .
  obtain kvs1 where "read_raw_map ra files path = Inr (Map kvs1)" "files' path = Some (Doc (JObj (as_map (kvs1 @ vs))))"
    using save_config_fields_file [OF assms(2)] assms(3,4) by auto
  moreover have "read_file ra files path = Content (Doc (JObj kvs))"
    using calculation(1) k(1) by (auto simp: read_raw_map_def read_file_def split: option.splits)
  then have "kvs1 = kvs" using normal_object(3) [OF k(2), of ra files path] calculation(1) by simp
  ultimately have f: "files' path = Some (Doc (JObj (as_map (kvs @ vs))))" by simp
  have s: "\<not> snd (dec_pairs raw_config_fields kvs zero_raw_config)"
    and c: "config_of_raw (settings_of kvs zero_raw_config) = Inr cfg"
    using cfg load_file_json [where files = files, OF ext k(1)] dec_pairs_settings [OF d k(3), of zero_raw_config]
    by (auto split: if_splits)
  have "load_file None files' path = config_of_raw (settings_of (as_map (kvs @ vs)) zero_raw_config)"
    using load_file_json [where files = files', OF ext f] decode_after_save [OF k(2,3) assms(5) s assms(6,7)] by simp
  then show ?thesis using that d c by blast
qed

lemma interval_after_restart:
  assumes "agent_file files path cfg" "in_int64 d" "save_poll_interval ra a path d files = (files', Saved)"
  shows "load_file None files' path = Inr (cfg\<lparr>c_poll_interval := d\<rparr>)"
proof -
  let ?vs = "[(''poll_interval'', JStr (duration_string d))]"
  have "\<forall>(k, v) \<in> set ?vs. \<not> value_error raw_config_fields zero_raw_config k v"
    by (simp add: value_error_def raw_config_find lift_field_snd)
  then obtain kvs where k: "distinct (map fst kvs)" "config_of_raw (settings_of kvs zero_raw_config) = Inr cfg"
    "load_file None files' path = config_of_raw (settings_of (as_map (kvs @ ?vs)) zero_raw_config)"
    using load_after_save [OF assms(1) assms(3) [unfolded save_poll_interval_def], of ?vs]
    unfolding setting_keys by auto
  have "settings_of (as_map (kvs @ ?vs)) zero_raw_config =
      (settings_of kvs zero_raw_config)\<lparr>raw_poll_interval := duration_string d\<rparr>"
    by (simp add: settings_of_def dec_at_saved [OF k(1)] obj_get_Cons)
  then show ?thesis using k(3) config_of_raw_interval [OF k(2) assms(2)] by simp
qed

lemma marshal_rules:
  "\<forall>r \<in> set rs. rule_ok r \<Longrightarrow> \<exists>js. marshal_list rule_marshal rs = Inr js \<and>
     (\<forall>old. dec_rules (JArr js) old = (Some rs, False))"
proof (induction rs)
  case (Cons r rs)
  obtain j where j: "rule_marshal r = Inr j" "\<And>old. rule_unmarshal j old = Inr r"
    using rule_round_trip_aux [of r] Cons.prems by auto
  obtain js where "marshal_list rule_marshal rs = Inr js" "\<forall>old. dec_rules (JArr js) old = (Some rs, False)"
    using Cons by auto
  with j show ?case by (auto simp: dec_custom_def Let_def)
qed simp

lemma decode_service_rules:
  "\<forall>r \<in> set srs. service_rule_ok r \<Longrightarrow> dec_service_rules (JArr (map service_rule_marshal srs)) old = (Some srs, False)"
  by (intro dec_slice_map) (simp add: dec_custom_def service_rule_round_trip_aux)

lemma rules_after_restart:
  assumes "agent_file files path cfg" "\<forall>r \<in> set (elems rs). rule_ok r" "\<forall>r \<in> set (elems srs). service_rule_ok r"
    "save_rules ra a path rs srs files = (files', Saved)"
  shows "load_file None files' path = Inr (cfg\<lparr>c_rules := Some (elems rs), c_service_rules := Some (elems srs)\<rparr>)"
proof -
  obtain js where js: "marshal_list rule_marshal (elems rs) = Inr js" "\<And>old. dec_rules (JArr js) old = (Some (elems rs), False)"
    using marshal_rules [OF assms(2)] by blast
  have srs: "dec_service_rules (service_rules_json srs) old = (Some (elems srs), False)" for old
    unfolding service_rules_json_def by (rule decode_service_rules [OF assms(3)])
  let ?vs = "[(''rules'', JArr js), (''service_rules'', service_rules_json srs)]"
  have "\<forall>(k, v) \<in> set ?vs. \<not> value_error raw_config_fields zero_raw_config k v"
    using js(2) srs by (simp add: value_error_def raw_config_find lift_field_snd del: dec_slice.simps)
  then obtain kvs where k: "distinct (map fst kvs)" "config_of_raw (settings_of kvs zero_raw_config) = Inr cfg"
    "load_file None files' path = config_of_raw (settings_of (as_map (kvs @ ?vs)) zero_raw_config)"
    using load_after_save [OF assms(1) assms(4) [unfolded save_rules_def], of ?vs] js(1)
    unfolding setting_keys rules_json_def by auto
  have "settings_of (as_map (kvs @ ?vs)) zero_raw_config =
      (settings_of kvs zero_raw_config)\<lparr>raw_rules := Some (elems rs), raw_service_rules := Some (elems srs)\<rparr>"
    by (simp add: settings_of_def dec_at_saved [OF k(1)] obj_get_Cons js(2) srs del: dec_slice.simps)
  then show ?thesis using k(3) config_of_raw_rules [OF k(2)] by simp
qed

text \<open>
  Settings changed at run time survive a restart. When saving the poll interval, or the rules,
  into the agent's configuration file reports success, loading the file afterwards gives exactly the
  configuration it gave before with that one change: every other setting is as it was.
\<close>
theorem saved_settings_survive_restart:
  assumes "agent_file files path cfg" "in_int64 d" "\<forall>r \<in> set (elems rs). rule_ok r"
    "\<forall>r \<in> set (elems srs). service_rule_ok r"
  shows "(save_poll_interval ra a path d files = (files', Saved) \<longrightarrow>
      load_file None files' path = Inr (cfg\<lparr>c_poll_interval := d\<rparr>)) \<and>
    (save_rules ra a path rs srs files = (files', Saved) \<longrightarrow>
      load_file None files' path = Inr (cfg\<lparr>c_rules := Some (elems rs), c_service_rules := Some (elems srs)\<rparr>))"
  using interval_after_restart [OF assms(1,2)] rules_after_restart [OF assms(1,3,4)] by blast

definition sample_files :: fs where
  "sample_files = (\<lambda>p. if p = ''/etc/agent.json''
     then Some (Doc (JObj [(''listen_addr'', JStr '':9''), (''poll_interval'', JStr ''1m0s'')])) else None)"

definition sample_config :: config where
  "sample_config = zero_config\<lparr>c_listen_addr := '':9'', c_poll_interval := minute\<rparr>"

lemma sample_agent_file: "agent_file sample_files ''/etc/agent.json'' sample_config"
proof -
  let ?kvs = "[(''listen_addr'', JStr '':9''), (''poll_interval'', JStr ''1m0s'')]"
  have "load_file None sample_files ''/etc/agent.json'' = Inr sample_config" by code_simp
  moreover have "to_lower (file_ext ''/etc/agent.json'') = ''.json''" by code_simp
  moreover have "any_normal (JObj ?kvs)" unfolding any_normal_def by code_simp
  moreover have "plain_keys ?kvs" by (simp add: plain_keys_def setting_keys)
  moreover have "sample_files ''/etc/agent.json'' = Some (Doc (JObj ?kvs))" by (simp add: sample_files_def)
  ultimately show ?thesis unfolding agent_file_def by blast
qed

theorem saved_settings_survive_restart_witness:
  "load_file None (fst (save_poll_interval None all_ok ''/etc/agent.json'' (30 * second) sample_files)) ''/etc/agent.json''
     = Inr (sample_config\<lparr>c_poll_interval := 30 * second\<rparr>)"
proof -
  have "snd (save_poll_interval None all_ok ''/etc/agent.json'' (30 * second) sample_files) = Saved" by code_simp
  then have s: "save_poll_interval None all_ok ''/etc/agent.json'' (30 * second) sample_files =
      (fst (save_poll_interval None all_ok ''/etc/agent.json'' (30 * second) sample_files), Saved)"
    by (simp add: prod_eq_iff)
  have "in_int64 (30 * second)" by (simp add: go_num)
  from saved_settings_survive_restart [OF sample_agent_file this, of None None None all_ok] s
  show ?thesis by simp
qed

text \<open>
  A pause does not survive a restart. The run-time API pauses polling by saving the interval 0,
  but \<open>Load\<close> takes a zero interval in the file as "not set": unless a flag or the environment gives
  another, the restarted agent polls at the default interval.
\<close>
theorem pause_lost_on_restart:
  assumes "agent_file files path cfg" "save_poll_interval ra a path 0 files = (files', Saved)" "path \<noteq> []"
    "load_config None files' host env flags = Inr cfg'" "fo_config_file flags = path"
    "fo_poll_interval flags = None" "env ''GATESHELL_AGENT_POLL_INTERVAL'' = []"
  shows "c_poll_interval cfg' = DefaultPollInterval"
proof -
  have "in_int64 0" by (simp add: go_num)
  from interval_after_restart [OF assms(1) this assms(2)]
  have f: "load_file None files' path = Inr (cfg\<lparr>c_poll_interval := 0\<rparr>)" .
  have "cfg' = (apply_flags flags (apply_env env (merge_non_zero (defaults host) (cfg\<lparr>c_poll_interval := 0\<rparr>))))
      \<lparr>c_file_path := path\<rparr>"
    using assms(3,4,5) f by (auto simp: load_config_def Let_def split: option.splits)
  then show ?thesis
    by (simp add: flags_fields env_interval_field merge_fields defaults_fields assms(6,7) env_interval_def Let_def)
qed

theorem pause_lost_on_restart_witness:
  "\<exists>files' cfg'. save_poll_interval None all_ok ''/etc/agent.json'' 0 sample_files = (files', Saved) \<and>
     load_config None files' (Inr ''web1'') (\<lambda>_. []) \<lparr>fo_config_file = ''/etc/agent.json'', fo_listen_addr = None,
       fo_db_path = None, fo_poll_interval = None, fo_pairing_token = None, fo_push_relay_token = None,
       fo_push_relay_url = None, fo_server_name = None\<rparr> = Inr cfg' \<and> c_poll_interval cfg' = 5 * minute"
proof -
  let ?p = "''/etc/agent.json''"
  let ?flags = "\<lparr>fo_config_file = ?p, fo_listen_addr = None,
       fo_db_path = None, fo_poll_interval = None, fo_pairing_token = None, fo_push_relay_token = None,
       fo_push_relay_url = None, fo_server_name = None\<rparr>"
  let ?files = "fst (save_poll_interval None all_ok ?p 0 sample_files)"
  have "snd (save_poll_interval None all_ok ?p 0 sample_files) = Saved" by code_simp
  then have s: "save_poll_interval None all_ok ?p 0 sample_files = (?files, Saved)" by (simp add: prod_eq_iff)
  have "\<not> (case load_config None ?files (Inr ''web1'') (\<lambda>_. []) ?flags of Inl _ \<Rightarrow> True | Inr _ \<Rightarrow> False)"
    by code_simp
  then obtain cfg' where c: "load_config None ?files (Inr ''web1'') (\<lambda>_. []) ?flags = Inr cfg'"
    by (cases "load_config None ?files (Inr ''web1'') (\<lambda>_. []) ?flags") auto
  have "c_poll_interval cfg' = DefaultPollInterval"
    by (rule pause_lost_on_restart [OF sample_agent_file s _ c]) simp_all
  then show ?thesis using s c by (intro exI [of _ ?files] exI [of _ cfg']) (simp add: DefaultPollInterval_def)
qed

text \<open>
  The interval flag. A bare integer is taken as seconds and gives exactly that many as long as
  the product fits 64 bits; from there on it wraps, so that a large positive number of seconds can
  become a negative interval.
\<close>
theorem interval_flag_seconds:
  assumes "in_int64 n"
  shows "(\<bar>n\<bar> \<le> 9223372036 \<longrightarrow> parse_poll_interval_flag (itoa n) = Inr (n * second)) \<and>
    parse_poll_interval_flag (itoa n) = Inr (wrap_int64 (n * second)) \<and>
    parse_poll_interval_flag ''9223372037'' = Inr (- 9223372036709551616)"
proof -
  have e: "itoa n \<noteq> []" by (simp add: itoa_def)
  have p: "parse_int (itoa n) = Inr n" using assms by (rule parse_int_itoa)
  have "in_int64 (n * second)" if "\<bar>n\<bar> \<le> 9223372036" using that by (auto simp: go_num abs_le_iff)
  then have "\<bar>n\<bar> \<le> 9223372036 \<longrightarrow> wrap_int64 (n * second) = n * second" by (simp add: wrap_int64_id)
  moreover have "parse_poll_interval_flag ''9223372037'' = Inr (- 9223372036709551616)" by code_simp
  ultimately show ?thesis using e p by (simp add: parse_poll_interval_flag_def)
qed

theorem interval_flag_seconds_witness: "parse_poll_interval_flag (itoa 30) = Inr (30 * second)"
  using interval_flag_seconds [of 30] by (simp add: go_num)

end
