(* ===== verification/Api.thy ===== *)
theory Api
  imports Rule_Json Store_Memory
begin

text \<open>
  internal/api/api.go: the routes, the bearer-token check and every handler. The server is given its
  collaborators as functions on the agent's state \<open>'s\<close>, one field of \<open>deps\<close> per interface method it
  calls, \<open>None\<close> where the code allows nil. A handler maps the state and a request to the new state
  and a response; the response holds the value passed to \<open>writeJSON\<close>. Paths are as net/http
  dispatches them, already cleaned; \<open>h_can_flush\<close> says whether the response writer is a flusher. The nil slice is told from the empty one where the code does
  (the rules); in samples the two are one.
\<close>

definition MinPollInterval :: duration where "MinPollInterval = 5 * second"

datatype body_text = Text json | BadText

record http_request =
  h_method :: string
  h_path :: string
  h_query :: "(string \<times> string) list"
  h_authorization :: string
  h_body :: body_text
  h_can_flush :: bool

text \<open>What a response carries; \<open>'r\<close> is the security scanner's report.\<close>

datatype 'r payload =
    PError string
  | PMap "(string \<times> string) list"
  | PSamples "sample list"
  | PServices "service_status list"
  | PSample sample
  | PConfig string
  | PAlerts "rule slice" "service_rule slice"
  | PPushToken bool nat "string list"
  | PReport 'r
  | PStream

record 'r response =
  resp_status :: int
  resp_body :: "'r payload"

definition write_json :: "int \<Rightarrow> 'r payload \<Rightarrow> 'r response" where
  "write_json status p = \<lparr>resp_status = status, resp_body = p\<rparr>"

definition write_error :: "int \<Rightarrow> string \<Rightarrow> 'r response" where
  "write_error status msg = write_json status (PError msg)"

abbreviation StatusOK :: int where "StatusOK \<equiv> 200"
abbreviation StatusBadRequest :: int where "StatusBadRequest \<equiv> 400"
abbreviation StatusUnauthorized :: int where "StatusUnauthorized \<equiv> 401"
abbreviation StatusNotFound :: int where "StatusNotFound \<equiv> 404"
abbreviation StatusMethodNotAllowed :: int where "StatusMethodNotAllowed \<equiv> 405"
abbreviation StatusInternalServerError :: int where "StatusInternalServerError \<equiv> 500"
abbreviation StatusBadGateway :: int where "StatusBadGateway \<equiv> 502"
abbreviation StatusServiceUnavailable :: int where "StatusServiceUnavailable \<equiv> 503"

record 's interval_controller =
  ic_interval :: "'s \<Rightarrow> duration"
  ic_set_interval :: "duration \<Rightarrow> 's \<Rightarrow> 's"

record 's rules_controller =
  rc_rules :: "'s \<Rightarrow> rule slice \<times> service_rule slice"
  rc_set_rules :: "rule slice \<Rightarrow> service_rule slice \<Rightarrow> 's \<Rightarrow> 's"

record 's push_token_store =
  pt_count :: "'s \<Rightarrow> nat"
  pt_labels :: "'s \<Rightarrow> string list"
  pt_set :: "string \<Rightarrow> string \<Rightarrow> string \<Rightarrow> 's \<Rightarrow> 's \<times> string option"

record ('s, 'r) deps =
  d_query :: "time \<Rightarrow> time \<Rightarrow> 's \<Rightarrow> store_error + sample list"
  d_latest :: "'s \<Rightarrow> store_error + sample"
  d_pairing_token :: string
  d_server_name :: string
  d_version :: string
  d_interval :: "'s interval_controller option"
  d_persist :: "(duration \<Rightarrow> 's \<Rightarrow> 's \<times> string option) option"
  d_rules :: "'s rules_controller option"
  d_persist_rules :: "(rule slice \<Rightarrow> service_rule slice \<Rightarrow> 's \<Rightarrow> 's \<times> string option) option"
  d_scan :: "(bool \<Rightarrow> 's \<Rightarrow> 's \<times> 'r) option"
  d_push_tokens :: "'s push_token_store option"
  d_publish :: "(string \<Rightarrow> 's \<Rightarrow> 's \<times> string option) option"
  d_send_test :: "(string \<Rightarrow> string \<Rightarrow> 's \<Rightarrow> 's \<times> string option) option"

subsection \<open>Authentication\<close>

text \<open>The loop \<open>diff |= expected[i] ^ candidate[i]\<close>, over all bytes.\<close>

fun diff_loop :: "8 word \<Rightarrow> string \<Rightarrow> string \<Rightarrow> 8 word" where
  "diff_loop diff (e # es) (c # cs) = diff_loop (or diff (xor (of_char e) (of_char c))) es cs"
| "diff_loop diff _ _ = diff"

definition constant_time_token_equal :: "string \<Rightarrow> string \<Rightarrow> bool" where
  "constant_time_token_equal expected candidate =
     (if expected = [] then False
      else if length expected \<noteq> length candidate then False
      else diff_loop 0 expected candidate = 0)"

definition authorized :: "string \<Rightarrow> http_request \<Rightarrow> bool" where
  "authorized pairing_token rq =
     (case cut_prefix (h_authorization rq) ''Bearer '' of
        None \<Rightarrow> False
      | Some token \<Rightarrow> constant_time_token_equal pairing_token token)"

definition authed ::
  "string \<Rightarrow> (http_request \<Rightarrow> 's \<Rightarrow> 's \<times> 'r response) \<Rightarrow> http_request \<Rightarrow> 's \<Rightarrow> 's \<times> 'r response" where
  "authed pairing_token next_handler rq w =
     (if authorized pairing_token rq then next_handler rq w
      else (w, write_error StatusUnauthorized ''missing or invalid bearer token''))"

subsection \<open>Reading\<close>

definition query_get :: "http_request \<Rightarrow> string \<Rightarrow> string" where
  "query_get rq k = (case map_of (h_query rq) k of None \<Rightarrow> [] | Some v \<Rightarrow> v)"

definition num_error_text :: "string \<Rightarrow> num_error \<Rightarrow> string" where
  "num_error_text s e = ''strconv.ParseInt: parsing '' @ quote s @ '': '' @
     (case e of ErrSyntax \<Rightarrow> ''invalid syntax'' | ErrRange \<Rightarrow> ''value out of range'')"

definition parse_bound :: "http_request \<Rightarrow> string \<Rightarrow> time \<Rightarrow> time result" where
  "parse_bound rq k dflt =
     (let v = query_get rq k
      in if v \<noteq> []
         then (case parse_int v of
             Inl e \<Rightarrow> Inl (''invalid '' @ [CHR 0x27] @ k @ [CHR 0x27] @ '': '' @ num_error_text v e)
           | Inr sec \<Rightarrow> Inr (unix_time sec))
         else Inr dflt)"

definition parse_range :: "time \<Rightarrow> http_request \<Rightarrow> (time \<times> time) result" where
  "parse_range now rq =
     (case parse_bound rq ''from'' (time_add now (- hour)) of
        Inl e \<Rightarrow> Inl e
      | Inr f \<Rightarrow>
          (case parse_bound rq ''to'' now of
             Inl e \<Rightarrow> Inl e
           | Inr t \<Rightarrow>
               if time_after f t
               then Inl ([CHR 0x27] @ ''from'' @ [CHR 0x27] @ '' must not be after '' @ [CHR 0x27] @ ''to'' @ [CHR 0x27])
               else Inr (f, t)))"

definition handle_healthz :: "('s, 'r) deps \<Rightarrow> http_request \<Rightarrow> 's \<Rightarrow> 's \<times> 'r response" where
  "handle_healthz d rq w = (w, write_json StatusOK
     (PMap [(''server'', d_server_name d), (''status'', ''ok''), (''version'', d_version d)]))"

definition handle_metrics :: "('s, 'r) deps \<Rightarrow> time \<Rightarrow> http_request \<Rightarrow> 's \<Rightarrow> 's \<times> 'r response" where
  "handle_metrics d now rq w =
     (case parse_range now rq of
        Inl e \<Rightarrow> (w, write_error StatusBadRequest e)
      | Inr (f, t) \<Rightarrow>
          (case d_query d f t w of
             Inl e \<Rightarrow> (w, write_error StatusInternalServerError ''failed to query metrics'')
           | Inr xs \<Rightarrow> (w, write_json StatusOK (PSamples xs))))"

definition handle_services :: "('s, 'r) deps \<Rightarrow> http_request \<Rightarrow> 's \<Rightarrow> 's \<times> 'r response" where
  "handle_services d rq w =
     (case d_latest d w of
        Inl ErrNoSamples \<Rightarrow> (w, write_json StatusOK (PServices []))
      | Inl (StoreError e) \<Rightarrow> (w, write_error StatusInternalServerError ''failed to load services'')
      | Inr s \<Rightarrow> (w, write_json StatusOK (PServices (services s))))"

definition handle_latest :: "('s, 'r) deps \<Rightarrow> http_request \<Rightarrow> 's \<Rightarrow> 's \<times> 'r response" where
  "handle_latest d rq w =
     (case d_latest d w of
        Inl ErrNoSamples \<Rightarrow> (w, write_error StatusNotFound ''no samples collected yet'')
      | Inl (StoreError e) \<Rightarrow> (w, write_error StatusInternalServerError ''failed to load latest sample'')
      | Inr s \<Rightarrow> (w, write_json StatusOK (PSample s)))"

definition handle_security :: "('s, 'r) deps \<Rightarrow> http_request \<Rightarrow> 's \<Rightarrow> 's \<times> 'r response" where
  "handle_security d rq w =
     (case d_scan d of
        None \<Rightarrow> (w, write_error StatusServiceUnavailable ''security scanner not available'')
      | Some scan \<Rightarrow>
          (let (w', r) = scan (query_get rq ''refresh'' = ''1'') w in (w', write_json StatusOK (PReport r))))"

subsection \<open>Configuration\<close>

record config_payload = cp_poll_interval :: string

definition config_payload_fields :: "config_payload fields" where
  "config_payload_fields =
     [(''pollInterval'', lift_field cp_poll_interval (\<lambda>x s. s\<lparr>cp_poll_interval := x\<rparr>) dec_string)]"

text \<open>\<open>json.NewDecoder(r.Body).Decode(&payload)\<close>: the variable afterwards and whether it failed.\<close>

definition decode_body :: "'a fields \<Rightarrow> 'a \<Rightarrow> http_request \<Rightarrow> 'a \<times> bool" where
  "decode_body fs z rq = (case h_body rq of BadText \<Rightarrow> (z, True) | Text j \<Rightarrow> dec_struct fs j z)"

definition handle_get_config :: "('s, 'r) deps \<Rightarrow> http_request \<Rightarrow> 's \<Rightarrow> 's \<times> 'r response" where
  "handle_get_config d rq w =
     (case d_interval d of
        None \<Rightarrow> (w, write_error StatusServiceUnavailable ''config controller not available'')
      | Some ic \<Rightarrow> (w, write_json StatusOK (PConfig (duration_string (ic_interval ic w)))))"

definition handle_patch_config :: "('s, 'r) deps \<Rightarrow> http_request \<Rightarrow> 's \<Rightarrow> 's \<times> 'r response" where
  "handle_patch_config d rq w =
     (case d_interval d of
        None \<Rightarrow> (w, write_error StatusServiceUnavailable ''config controller not available'')
      | Some ic \<Rightarrow>
          (let (p, bad) = decode_body config_payload_fields \<lparr>cp_poll_interval = []\<rparr> rq
           in if bad then (w, write_error StatusBadRequest ''invalid JSON body'')
              else if cp_poll_interval p = [] then (w, write_error StatusBadRequest ''pollInterval is required'')
              else case parse_duration (cp_poll_interval p) of
                Inl e \<Rightarrow> (w, write_error StatusBadRequest (''invalid pollInterval: '' @ e))
              | Inr dur \<Rightarrow>
                  if dur < 0 then (w, write_error StatusBadRequest ''pollInterval must not be negative'')
                  else if 0 < dur \<and> dur < MinPollInterval
                  then (w, write_error StatusBadRequest
                          (''pollInterval must be 0 (paused) or at least '' @ duration_string MinPollInterval))
                  else (let w1 = ic_set_interval ic dur w
                        in case d_persist d of
                             None \<Rightarrow> (w1, write_json StatusOK (PConfig (duration_string dur)))
                           | Some persist \<Rightarrow>
                               (let (w2, err) = persist dur w1
                                in if err \<noteq> None
                                   then (w2, write_error StatusInternalServerError
                                     ''poll interval applied at runtime but could not be persisted; it will not survive a restart'')
                                   else (w2, write_json StatusOK (PConfig (duration_string dur)))))))"

record alerts_payload =
  ap_rules :: "rule slice"
  ap_service_rules :: "service_rule slice"

definition alerts_payload_fields :: "alerts_payload fields" where
  "alerts_payload_fields =
     [(''rules'', lift_field ap_rules (\<lambda>x s. s\<lparr>ap_rules := x\<rparr>) (dec_slice (dec_custom rule_unmarshal) zero_rule)),
      (''service_rules'', lift_field ap_service_rules (\<lambda>x s. s\<lparr>ap_service_rules := x\<rparr>)
         (dec_slice (dec_custom service_rule_unmarshal) zero_service_rule))]"

definition handle_get_alerts :: "('s, 'r) deps \<Rightarrow> http_request \<Rightarrow> 's \<Rightarrow> 's \<times> 'r response" where
  "handle_get_alerts d rq w =
     (case d_rules d of
        None \<Rightarrow> (w, write_error StatusServiceUnavailable ''alerts controller not available'')
      | Some rc \<Rightarrow>
          (let (rs, srs) = rc_rules rc w
           in (w, write_json StatusOK (PAlerts (Some (elems rs)) (Some (elems srs))))))"

definition valid_metric :: "metric \<Rightarrow> bool" where
  "valid_metric m \<longleftrightarrow> m \<in> {MetricCPUPercent, MetricMemPercent, MetricDiskPercent, MetricLoadAvg1}"

definition valid_comparator :: "comparator \<Rightarrow> bool" where
  "valid_comparator c \<longleftrightarrow> c \<in> {ComparatorGreaterThan, ComparatorLessThan}"

fun validate_threshold_rules :: "rule list \<Rightarrow> string option" where
  "validate_threshold_rules [] = None"
| "validate_threshold_rules (r # rs) =
     (if r_name r = [] then Some ''alerts: every rule needs a name''
      else if \<not> valid_metric (r_metric r)
      then Some (''alerts: rule '' @ quote (r_name r) @ '' has unknown metric '' @ quote (r_metric r))
      else if \<not> valid_comparator (r_comparator r)
      then Some (''alerts: rule '' @ quote (r_name r) @ '' has unknown comparator '' @ quote (r_comparator r))
      else if r_for r < 0 then Some (''alerts: rule '' @ quote (r_name r) @ '' has a negative \"for\" duration'')
      else validate_threshold_rules rs)"

fun validate_service_rules :: "service_rule list \<Rightarrow> string option" where
  "validate_service_rules [] = None"
| "validate_service_rules (r # rs) =
     (if sr_name r = [] then Some ''alerts: every service rule needs a name''
      else if sr_service r = []
      then Some (''alerts: service rule '' @ quote (sr_name r) @ '' needs a service_name to watch'')
      else validate_service_rules rs)"

definition validate_rules :: "rule slice \<Rightarrow> service_rule slice \<Rightarrow> string option" where
  "validate_rules rs srs =
     (case validate_threshold_rules (elems rs) of
        Some e \<Rightarrow> Some e
      | None \<Rightarrow> validate_service_rules (elems srs))"

definition handle_patch_alerts :: "('s, 'r) deps \<Rightarrow> http_request \<Rightarrow> 's \<Rightarrow> 's \<times> 'r response" where
  "handle_patch_alerts d rq w =
     (case d_rules d of
        None \<Rightarrow> (w, write_error StatusServiceUnavailable ''alerts controller not available'')
      | Some rc \<Rightarrow>
          (let (p, bad) = decode_body alerts_payload_fields \<lparr>ap_rules = None, ap_service_rules = None\<rparr> rq
           in if bad then (w, write_error StatusBadRequest ''invalid JSON body'')
              else case validate_rules (ap_rules p) (ap_service_rules p) of
                Some e \<Rightarrow> (w, write_error StatusBadRequest e)
              | None \<Rightarrow>
                  (let w1 = rc_set_rules rc (ap_rules p) (ap_service_rules p) w
                   in case d_persist_rules d of
                        None \<Rightarrow> (w1, write_json StatusOK (PAlerts (ap_rules p) (ap_service_rules p)))
                      | Some persist \<Rightarrow>
                          (let (w2, err) = persist (ap_rules p) (ap_service_rules p) w1
                           in if err \<noteq> None
                              then (w2, write_error StatusInternalServerError
                                ''alert rules applied at runtime but could not be persisted; they will not survive a restart'')
                              else (w2, write_json StatusOK (PAlerts (ap_rules p) (ap_service_rules p)))))))"

subsection \<open>Push\<close>

definition handle_get_push_token :: "('s, 'r) deps \<Rightarrow> http_request \<Rightarrow> 's \<Rightarrow> 's \<times> 'r response" where
  "handle_get_push_token d rq w =
     (case d_push_tokens d of
        None \<Rightarrow> (w, write_error StatusServiceUnavailable ''push delivery is not configured on this agent'')
      | Some pt \<Rightarrow> (w, write_json StatusOK (PPushToken (0 < pt_count pt w) (pt_count pt w) (pt_labels pt w))))"

record push_token_request =
  pr_token :: string
  pr_environment :: string
  pr_label :: string

definition push_token_fields :: "push_token_request fields" where
  "push_token_fields =
     [(''token'', lift_field pr_token (\<lambda>x s. s\<lparr>pr_token := x\<rparr>) dec_string),
      (''environment'', lift_field pr_environment (\<lambda>x s. s\<lparr>pr_environment := x\<rparr>) dec_string),
      (''label'', lift_field pr_label (\<lambda>x s. s\<lparr>pr_label := x\<rparr>) dec_string)]"

definition handle_post_push_token :: "('s, 'r) deps \<Rightarrow> http_request \<Rightarrow> 's \<Rightarrow> 's \<times> 'r response" where
  "handle_post_push_token d rq w =
     (case d_push_tokens d of
        None \<Rightarrow> (w, write_error StatusServiceUnavailable ''push delivery is not configured on this agent'')
      | Some pt \<Rightarrow>
          (let (p, bad) = decode_body push_token_fields \<lparr>pr_token = [], pr_environment = [], pr_label = []\<rparr> rq
           in if bad \<or> pr_token p = [] then (w, write_error StatusBadRequest ''token is required'')
              else (let (w1, err) = pt_set pt (pr_token p) (pr_environment p) (pr_label p) w
                    in if err \<noteq> None
                       then (w1, write_error StatusInternalServerError ''failed to register push token'')
                       else (w1, write_json StatusOK (PPushToken True (pt_count pt w1) (pt_labels pt w1))))))"

record test_alert_request = tr_device_token :: string

definition test_alert_fields :: "test_alert_request fields" where
  "test_alert_fields =
     [(''device_token'', lift_field tr_device_token (\<lambda>x s. s\<lparr>tr_device_token := x\<rparr>) dec_string)]"

definition handle_post_test_alert :: "('s, 'r) deps \<Rightarrow> http_request \<Rightarrow> 's \<Rightarrow> 's \<times> 'r response" where
  "handle_post_test_alert d rq w =
     (let p = fst (decode_body test_alert_fields \<lparr>tr_device_token = []\<rparr> rq);
          message = ''Test alert from '' @ d_server_name d
      in if tr_device_token p \<noteq> []
         then (case d_send_test d of
             None \<Rightarrow> (w, write_error StatusServiceUnavailable ''push delivery is not configured on this agent'')
           | Some f \<Rightarrow>
               (let (w1, err) = f (tr_device_token p) message w
                in case err of
                     Some e \<Rightarrow> (w1, write_error StatusBadGateway e)
                   | None \<Rightarrow> (w1, write_json StatusOK (PMap [(''status'', ''sent'')]))))
         else (case d_publish d of
             None \<Rightarrow> (w, write_error StatusServiceUnavailable
               ''no alert delivery configured on this agent (register a push token from the app)'')
           | Some f \<Rightarrow>
               (let (w1, err) = f message w
                in case err of
                     Some e \<Rightarrow> (w1, write_error StatusInternalServerError
                       (''at least one delivery path failed (others may have still succeeded): '' @ e))
                   | None \<Rightarrow> (w1, write_json StatusOK (PMap [(''status'', ''sent'')])))))"

text \<open>The head of the stream; the live part is modelled in \<open>Stream_Hub\<close>.\<close>

definition handle_stream :: "('s, 'r) deps \<Rightarrow> http_request \<Rightarrow> 's \<Rightarrow> 's \<times> 'r response" where
  "handle_stream d rq w =
     (if \<not> h_can_flush rq then (w, write_error StatusInternalServerError ''streaming not supported'')
      else (w, write_json StatusOK PStream))"

subsection \<open>Routes\<close>

type_synonym ('s, 'r) handler = "http_request \<Rightarrow> 's \<Rightarrow> 's \<times> 'r response"

text \<open>Method, path, whether the bearer token is demanded, handler.\<close>

definition routes :: "('s, 'r) deps \<Rightarrow> time \<Rightarrow> (string \<times> string \<times> bool \<times> ('s, 'r) handler) list" where
  "routes d now =
     [(''GET'', ''/healthz'', False, handle_healthz d),
      (''GET'', ''/api/v1/metrics'', True, handle_metrics d now),
      (''GET'', ''/api/v1/services'', True, handle_services d),
      (''GET'', ''/api/v1/latest'', True, handle_latest d),
      (''GET'', ''/api/v1/stream'', True, handle_stream d),
      (''GET'', ''/api/v1/config'', True, handle_get_config d),
      (''PATCH'', ''/api/v1/config'', True, handle_patch_config d),
      (''GET'', ''/api/v1/alerts'', True, handle_get_alerts d),
      (''PATCH'', ''/api/v1/alerts'', True, handle_patch_alerts d),
      (''GET'', ''/api/v1/security'', True, handle_security d),
      (''GET'', ''/api/v1/push-token'', True, handle_get_push_token d),
      (''POST'', ''/api/v1/push-token'', True, handle_post_push_token d),
      (''POST'', ''/api/v1/alerts/test'', True, handle_post_test_alert d)]"

text \<open>A GET pattern of \<open>http.ServeMux\<close> also matches HEAD.\<close>

definition method_matches :: "string \<Rightarrow> string \<Rightarrow> bool" where
  "method_matches pat m \<longleftrightarrow> pat = m \<or> pat = ''GET'' \<and> m = ''HEAD''"

definition serve_http :: "('s, 'r) deps \<Rightarrow> time \<Rightarrow> ('s, 'r) handler" where
  "serve_http d now rq w =
     (case filter (\<lambda>(m, p, a, h). p = h_path rq \<and> method_matches m (h_method rq)) (routes d now) of
        (m, p, auth, h) # _ \<Rightarrow>
          (if auth then authed (d_pairing_token d) h rq w else h rq w)
      | [] \<Rightarrow>
          (if list_ex (\<lambda>(m, p, a, h). p = h_path rq) (routes d now)
           then (w, write_error StatusMethodNotAllowed ''Method Not Allowed'')
           else (w, write_error StatusNotFound ''404 page not found'')))"

end
