(* ===== verification/Api_Claims.thy ===== *)
theory Api_Claims
  imports Api
begin

text \<open>
  Properties of the HTTP interface: nothing without the token, the behaviour of the two PATCH
  endpoints on every branch, and what the handlers keep of the state, stated against the contract of
  the collaborators (the locale \<open>agent_deps\<close>).
\<close>

subsection \<open>The token\<close>

lemma or_zero_word: "or (a :: 8 word) b = 0 \<longleftrightarrow> a = 0 \<and> b = 0"
proof -
  have "a = 0 \<and> b = 0" if e: "or a b = 0"
  proof -
    have "\<not> bit a n \<and> \<not> bit b n" for n
    proof -
      have "bit (or a b) n \<longleftrightarrow> bit (0 :: 8 word) n" by (simp add: e)
      then show ?thesis by (simp add: bit_or_iff)
    qed
    then show ?thesis by (simp add: bit_eq_iff)
  qed
  then show ?thesis by auto
qed

lemma of_char_word_inj: "(of_char c :: 8 word) = of_char d \<longleftrightarrow> c = d"
proof
  assume "(of_char c :: 8 word) = of_char d"
  then have "unat (of_char c :: 8 word) = unat (of_char d :: 8 word)" by simp
  moreover have "unat (of_char c :: 8 word) = of_char c" for c
    using nat_of_char_less_256 [of c] by (simp add: of_char_def unat_of_nat take_bit_nat_def)
  ultimately show "c = d" by (metis of_char_eq_iff)
qed simp

lemma xor_zero_word: "xor (a :: 8 word) b = 0 \<longleftrightarrow> a = b"
proof
  assume z: "xor a b = 0"
  have "a = xor (xor a b) b" by (simp add: xor.assoc)
  also have "\<dots> = b" unfolding z by simp
  finally show "a = b" .
qed simp

lemma diff_loop_zero:
  "length es = length cs \<Longrightarrow> diff_loop d es cs = 0 \<longleftrightarrow> d = 0 \<and> es = cs"
proof (induction es cs arbitrary: d rule: list_induct2)
  case (Cons e es c cs)
  then show ?case by (auto simp: or_zero_word xor_zero_word of_char_word_inj)
qed simp

lemma constant_time_token_equal_iff: "constant_time_token_equal e c \<longleftrightarrow> e \<noteq> [] \<and> e = c"
  by (auto simp: constant_time_token_equal_def diff_loop_zero)

lemma cut_prefix_iff: "cut_prefix s p = Some t \<longleftrightarrow> s = p @ t"
  by (auto simp: cut_prefix_def has_prefix_def split: if_splits) (metis append_take_drop_id)

lemma authorized_iff: "authorized tok rq \<longleftrightarrow> tok \<noteq> [] \<and> h_authorization rq = ''Bearer '' @ tok"
proof (cases "cut_prefix (h_authorization rq) ''Bearer ''")
  case None
  then have "h_authorization rq \<noteq> ''Bearer '' @ tok" by (metis cut_prefix_iff option.distinct(1))
  then show ?thesis using None unfolding authorized_def by simp
next
  case (Some t)
  then have "h_authorization rq = ''Bearer '' @ t" by (simp only: cut_prefix_iff)
  then show ?thesis using Some unfolding authorized_def by (auto simp: constant_time_token_equal_iff)
qed

lemma routes_auth: "(m, p, False, h) \<in> set (routes d now) \<Longrightarrow> p = ''/healthz'' \<and> h = handle_healthz d"
  by (simp add: routes_def)

lemma healthz_route: "filter (\<lambda>(m, p, a, h). p = ''/healthz'' \<and> method_matches m x) (routes d now) =
    (if method_matches ''GET'' x then [(''GET'', ''/healthz'', False, handle_healthz d)] else [])"
  by (simp add: routes_def)

text \<open>What a request is dispatched to.\<close>

lemma serve_http_cases:
  obtains (route) m a h where "(m, h_path rq, a, h) \<in> set (routes d now)" "method_matches m (h_method rq)"
      "serve_http d now rq w = (if a then authed (d_pairing_token d) h rq w else h rq w)"
  | (wrong_method) "serve_http d now rq w = (w, write_error StatusMethodNotAllowed ''Method Not Allowed'')"
  | (not_found) "serve_http d now rq w = (w, write_error StatusNotFound ''404 page not found'')"
proof (cases "filter (\<lambda>(m, p, a, h). p = h_path rq \<and> method_matches m (h_method rq)) (routes d now)")
  case Nil
  show ?thesis
  proof (cases "list_ex (\<lambda>(m, p, a, h). p = h_path rq) (routes d now)")
    case True
    then show ?thesis using wrong_method Nil unfolding serve_http_def by simp
  next
    case False
    then show ?thesis using not_found Nil unfolding serve_http_def by simp
  qed
next
  case (Cons r rs)
  obtain m p a h where r: "r = (m, p, a, h)" by (cases r) auto
  have "r \<in> set (filter (\<lambda>(m, p, a, h). p = h_path rq \<and> method_matches m (h_method rq)) (routes d now))"
    unfolding Cons by (rule list.set_intros(1))
  then have "(m, h_path rq, a, h) \<in> set (routes d now)" "method_matches m (h_method rq)" by (auto simp: r)
  moreover have "serve_http d now rq w = (if a then authed (d_pairing_token d) h rq w else h rq w)"
    unfolding serve_http_def Cons r by simp
  ultimately show ?thesis by (rule route)
qed

text \<open>
  C22. Nothing without the token. A request that does not carry the header \<open>Authorization: Bearer\<close>
  with exactly the configured, non-empty pairing token changes nothing of the agent's state and is
  answered 401, 404 or 405 with an error text only; the one exception is \<open>/healthz\<close>, which reports
  status, name and version.
\<close>
theorem no_access_without_token:
  assumes "d_pairing_token d = [] \<or> h_authorization rq \<noteq> ''Bearer '' @ d_pairing_token d"
    "serve_http d now rq w = (w', resp)"
  shows "w' = w \<and>
    (if h_path rq = ''/healthz'' \<and> method_matches ''GET'' (h_method rq)
     then resp = write_json StatusOK (PMap [(''server'', d_server_name d), (''status'', ''ok''), (''version'', d_version d)])
     else \<exists>msg. resp = write_error (resp_status resp) msg \<and> resp_status resp \<in> {401, 404, 405})"
proof -
  have na: "\<not> authorized (d_pairing_token d) rq" using assms(1) authorized_iff by blast
  show ?thesis
  proof (cases "h_path rq = ''/healthz'' \<and> method_matches ''GET'' (h_method rq)")
    case True
    then have "serve_http d now rq w = handle_healthz d rq w"
      unfolding serve_http_def by (simp only: healthz_route) simp
    then show ?thesis using True assms(2) by (simp add: handle_healthz_def)
  next
    case False
    from assms(2) show ?thesis
    proof (cases rule: serve_http_cases [where rq = rq and d = d and now = now and w = w])
      case (route m a h)
      have a
      proof (rule ccontr)
        assume "\<not> a"
        then have "(m, h_path rq, False, h) \<in> set (routes d now)" using route(1) by simp
        then have "h_path rq = ''/healthz'' \<and> m = ''GET''" by (simp add: routes_def)
        then show False using False route(2) by simp
      qed
      then show ?thesis using route(3) assms(2) na False
        by (auto simp: authed_def write_error_def write_json_def)
    qed (use assms(2) False in \<open>auto simp: write_error_def write_json_def\<close>)
  qed
qed

definition bare_deps :: "(unit, unit) deps" where
  "bare_deps = \<lparr>d_query = (\<lambda>_ _ _. Inr []), d_latest = (\<lambda>_. Inl ErrNoSamples), d_pairing_token = ''secret'',
     d_server_name = ''web1'', d_version = ''1.0'', d_interval = None, d_persist = None, d_rules = None,
     d_persist_rules = None, d_scan = None, d_push_tokens = None, d_publish = None, d_send_test = None\<rparr>"

definition plain_request :: "string \<Rightarrow> string \<Rightarrow> string \<Rightarrow> body_text \<Rightarrow> http_request" where
  "plain_request m p auth b = \<lparr>h_method = m, h_path = p, h_query = [], h_authorization = auth, h_body = b,
     h_can_flush = True\<rparr>"

theorem no_access_without_token_witness:
  "\<exists>msg. snd (serve_http bare_deps 0 (plain_request ''GET'' ''/api/v1/latest'' ''Bearer secre'' BadText) ()) = write_error 401 msg"
proof -
  let ?rq = "plain_request ''GET'' ''/api/v1/latest'' ''Bearer secre'' BadText"
  obtain w' resp where s: "serve_http bare_deps 0 ?rq () = (w', resp)" by (rule prod.exhaust)
  have "resp_status (snd (serve_http bare_deps 0 ?rq ())) = 401" by code_simp
  moreover have "d_pairing_token bare_deps = [] \<or> h_authorization ?rq \<noteq> ''Bearer '' @ d_pairing_token bare_deps"
    by (simp add: bare_deps_def plain_request_def)
  moreover have "h_path ?rq \<noteq> ''/healthz''" by (simp add: plain_request_def)
  ultimately show ?thesis using no_access_without_token [OF _ s] s by auto
qed

subsection \<open>Changing the poll interval\<close>

definition requested_interval :: "http_request \<Rightarrow> duration option" where
  "requested_interval rq =
     (let (p, bad) = decode_body config_payload_fields \<lparr>cp_poll_interval = []\<rparr> rq
      in if bad \<or> cp_poll_interval p = [] then None
         else case parse_duration (cp_poll_interval p) of Inl _ \<Rightarrow> None | Inr x \<Rightarrow> Some x)"

definition acceptable_interval :: "duration \<Rightarrow> bool" where
  "acceptable_interval x \<longleftrightarrow> x = 0 \<or> MinPollInterval \<le> x"

lemma patch_config_step:
  assumes "d_interval d = Some ic"
  shows "case requested_interval rq of
      None \<Rightarrow> \<exists>msg. handle_patch_config d rq w = (w, write_error 400 msg)
    | Some x \<Rightarrow>
        if acceptable_interval x
        then handle_patch_config d rq w =
          (let w1 = ic_set_interval ic x w;
               (w2, err) = (case d_persist d of None \<Rightarrow> (w1, None) | Some persist \<Rightarrow> persist x w1)
           in (w2, if err = None then write_json 200 (PConfig (duration_string x))
                   else write_error 500 ''poll interval applied at runtime but could not be persisted; it will not survive a restart''))
        else \<exists>msg. handle_patch_config d rq w = (w, write_error 400 msg)"
proof -
  obtain p bad where b: "decode_body config_payload_fields \<lparr>cp_poll_interval = []\<rparr> rq = (p, bad)" by fastforce
  show ?thesis
  proof (cases "bad \<or> cp_poll_interval p = []")
    case True
    then show ?thesis by (auto simp: handle_patch_config_def requested_interval_def assms b)
  next
    case False
    then have nb: "\<not> bad" "cp_poll_interval p \<noteq> []" by simp_all
    show ?thesis
    proof (cases "parse_duration (cp_poll_interval p)")
      case (Inl e)
      then show ?thesis using nb by (auto simp: handle_patch_config_def requested_interval_def assms b)
    next
      case (Inr x)
      have r: "requested_interval rq = Some x" using nb Inr by (simp add: requested_interval_def b)
      show ?thesis
      proof (cases "acceptable_interval x")
        case True
        then have c: "(x < 0) = False" "(0 < x \<and> x < MinPollInterval) = False"
          by (auto simp: acceptable_interval_def MinPollInterval_def)
        have "handle_patch_config d rq w =
          (let w1 = ic_set_interval ic x w;
               (w2, err) = (case d_persist d of None \<Rightarrow> (w1, None) | Some persist \<Rightarrow> persist x w1)
           in (w2, if err = None then write_json 200 (PConfig (duration_string x))
                   else write_error 500 ''poll interval applied at runtime but could not be persisted; it will not survive a restart''))"
          unfolding handle_patch_config_def assms b option.case Let_def prod.case Inr sum.case c if_False
          using nb by (auto split: option.splits prod.splits)
        then show ?thesis using r True by simp
      next
        case False
        then have "x < 0 \<or> 0 < x \<and> x < MinPollInterval" by (auto simp: acceptable_interval_def)
        then show ?thesis using r False nb Inr by (auto simp: handle_patch_config_def assms b)
      qed
    qed
  qed
qed

text \<open>
  C23. Changing the poll interval. A PATCH whose body names an interval that is 0 or at least five
  seconds sets it on the running collector, then persists it; the answer is 200 with the interval
  when persisting succeeded (or none is configured) and 500 when it failed, the change being live
  either way. Any other body changes nothing and is answered 400.
\<close>
theorem patch_config_validates:
  assumes "d_interval d = Some ic"
  shows "case requested_interval rq of
      None \<Rightarrow> \<exists>msg. handle_patch_config d rq w = (w, write_error 400 msg)
    | Some x \<Rightarrow>
        if acceptable_interval x
        then handle_patch_config d rq w =
          (let w1 = ic_set_interval ic x w;
               (w2, err) = (case d_persist d of None \<Rightarrow> (w1, None) | Some persist \<Rightarrow> persist x w1)
           in (w2, if err = None then write_json 200 (PConfig (duration_string x))
                   else write_error 500 ''poll interval applied at runtime but could not be persisted; it will not survive a restart''))
        else \<exists>msg. handle_patch_config d rq w = (w, write_error 400 msg)"
  using patch_config_step [OF assms] .

text \<open>A state that is just the interval.\<close>

definition interval_deps :: "(int, unit) deps" where
  "interval_deps = \<lparr>d_query = (\<lambda>_ _ _. Inr []), d_latest = (\<lambda>_. Inl ErrNoSamples), d_pairing_token = ''secret'',
     d_server_name = ''web1'', d_version = ''1.0'',
     d_interval = Some \<lparr>ic_interval = (\<lambda>w. w), ic_set_interval = (\<lambda>x w. x)\<rparr>, d_persist = None, d_rules = None,
     d_persist_rules = None, d_scan = None, d_push_tokens = None, d_publish = None, d_send_test = None\<rparr>"

theorem patch_config_validates_witness:
  "handle_patch_config interval_deps
      (plain_request ''PATCH'' ''/api/v1/config'' [] (Text (JObj [(''pollInterval'', JStr ''30s'')]))) (5 * minute)
     = (30000000000, write_json 200 (PConfig ''30s'')) \<and>
   (\<exists>msg. handle_patch_config interval_deps
      (plain_request ''PATCH'' ''/api/v1/config'' [] (Text (JObj [(''pollInterval'', JStr ''1s'')]))) (5 * minute)
     = (5 * minute, write_error 400 msg))"
proof -
  let ?rq = "\<lambda>s. plain_request ''PATCH'' ''/api/v1/config'' [] (Text (JObj [(''pollInterval'', JStr s)]))"
  have ic: "d_interval interval_deps = Some \<lparr>ic_interval = (\<lambda>w. w), ic_set_interval = (\<lambda>x w. x)\<rparr>"
    by (simp add: interval_deps_def)
  have "requested_interval (?rq ''30s'') = Some 30000000000" "requested_interval (?rq ''1s'') = Some 1000000000"
    "acceptable_interval 30000000000" "\<not> acceptable_interval 1000000000" "duration_string 30000000000 = ''30s''"
    by code_simp+
  moreover have "d_persist interval_deps = None" by (simp add: interval_deps_def)
  ultimately show ?thesis
    using patch_config_validates [OF ic, of "?rq ''30s''" "5 * minute"]
      patch_config_validates [OF ic, of "?rq ''1s''" "5 * minute"] by simp
qed

subsection \<open>Changing the rules\<close>

definition rule_accepted :: "rule \<Rightarrow> bool" where
  "rule_accepted r \<longleftrightarrow> r_name r \<noteq> [] \<and> valid_metric (r_metric r) \<and> valid_comparator (r_comparator r) \<and> 0 \<le> r_for r"

definition service_rule_accepted :: "service_rule \<Rightarrow> bool" where
  "service_rule_accepted r \<longleftrightarrow> sr_name r \<noteq> [] \<and> sr_service r \<noteq> []"

definition rules_valid :: "rule slice \<times> service_rule slice \<Rightarrow> bool" where
  "rules_valid p \<longleftrightarrow>
     (\<forall>r \<in> set (elems (fst p)). rule_accepted r \<and> in_int64 (r_for r) \<and> in_int64 (r_repeat r) \<and> 0 \<le> r_repeat r) \<and>
     (\<forall>r \<in> set (elems (snd p)). service_rule_accepted r \<and> service_rule_ok r)"

lemma validate_threshold_rules_None: "validate_threshold_rules rs = None \<longleftrightarrow> (\<forall>r \<in> set rs. rule_accepted r)"
  by (induction rs) (auto simp: rule_accepted_def)

lemma validate_service_rules_None: "validate_service_rules rs = None \<longleftrightarrow> (\<forall>r \<in> set rs. service_rule_accepted r)"
  by (induction rs) (auto simp: service_rule_accepted_def)

lemma validate_rules_None:
  "validate_rules rs srs = None \<longleftrightarrow> (\<forall>r \<in> set (elems rs). rule_accepted r) \<and> (\<forall>r \<in> set (elems srs). service_rule_accepted r)"
  unfolding validate_rules_def
  by (auto split: option.splits simp: validate_threshold_rules_None [symmetric] validate_service_rules_None)

lemma dec_slice_custom:
  assumes "\<not> snd (dec_slice (dec_custom u) z j old)" "\<And>j old x. u j old = Inr x \<Longrightarrow> P x"
    "\<forall>x \<in> set (elems old). P x"
  shows "\<forall>x \<in> set (elems (fst (dec_slice (dec_custom u) z j old))). P x"
proof (cases j)
  case (JArr js)
  have "P (fst (dec_custom u i z))" if "i \<in> set js" for i
    using assms(1,2) that by (auto simp: JArr Let_def list_ex_iff dec_custom_def split: sum.splits)
  then show ?thesis by (auto simp: JArr Let_def)
qed (use assms in auto)

definition payload_in_range :: "alerts_payload \<Rightarrow> bool" where
  "payload_in_range p \<longleftrightarrow>
     (\<forall>r \<in> set (elems (ap_rules p)). rule_ok r) \<and>
     (\<forall>r \<in> set (elems (ap_service_rules p)). service_rule_ok r)"

lemma alerts_find_cases:
  assumes "find_field alerts_payload_fields k = Some d"
  shows "d = lift_field ap_rules (\<lambda>x s. s\<lparr>ap_rules := x\<rparr>) (dec_slice (dec_custom rule_unmarshal) zero_rule) \<or>
    d = lift_field ap_service_rules (\<lambda>x s. s\<lparr>ap_service_rules := x\<rparr>)
      (dec_slice (dec_custom service_rule_unmarshal) zero_service_rule)"
  using assms by (auto simp: find_field_def alerts_payload_fields_def split: if_splits)

lemma alerts_payload_decoded:
  assumes "decode_body alerts_payload_fields \<lparr>ap_rules = None, ap_service_rules = None\<rparr> rq = (p, False)"
  shows "payload_in_range p"
proof -
  let ?z = "\<lparr>ap_rules = None, ap_service_rules = None\<rparr>"
  have z: "payload_in_range ?z" by (simp add: payload_in_range_def)
  have step: "payload_in_range (fst (d v s))"
    if "find_field alerts_payload_fields k = Some d" "payload_in_range s" "\<not> snd (d v s)" for k d v s
    using alerts_find_cases [OF that(1)]
  proof
    assume d: "d = lift_field ap_rules (\<lambda>x s. s\<lparr>ap_rules := x\<rparr>) (dec_slice (dec_custom rule_unmarshal) zero_rule)"
    have "\<forall>r \<in> set (elems (fst (dec_slice (dec_custom rule_unmarshal) zero_rule v (ap_rules s)))).
        rule_ok r"
      using that(2,3) by (intro dec_slice_custom)
        (auto simp: d lift_field_def payload_in_range_def dest: rule_unmarshal_ok split: prod.splits)
    then show ?thesis using that(2) by (auto simp: d lift_field_def payload_in_range_def split: prod.splits)
  next
    assume d: "d = lift_field ap_service_rules (\<lambda>x s. s\<lparr>ap_service_rules := x\<rparr>)
      (dec_slice (dec_custom service_rule_unmarshal) zero_service_rule)"
    have "\<forall>r \<in> set (elems (fst (dec_slice (dec_custom service_rule_unmarshal) zero_service_rule v (ap_service_rules s)))).
        service_rule_ok r"
      using that(2,3) by (intro dec_slice_custom)
        (auto simp: d lift_field_def payload_in_range_def dest: service_rule_unmarshal_in_range split: prod.splits)
    then show ?thesis using that(2) by (auto simp: d lift_field_def payload_in_range_def split: prod.splits)
  qed
  have "payload_in_range p" if "dec_struct alerts_payload_fields j ?z = (p, False)" for j
    by (rule dec_struct_invariant [where I = payload_in_range, OF _ z that]) (rule step)
  then show ?thesis using assms by (auto simp: decode_body_def split: body_text.splits)
qed

definition requested_rules :: "http_request \<Rightarrow> (rule slice \<times> service_rule slice) option" where
  "requested_rules rq =
     (let (p, bad) = decode_body alerts_payload_fields \<lparr>ap_rules = None, ap_service_rules = None\<rparr> rq
      in if bad then None else Some (ap_rules p, ap_service_rules p))"

lemma requested_rules_ok:
  assumes "requested_rules rq = Some (rs, srs)"
  shows "\<forall>r \<in> set (elems rs). rule_ok r" "\<forall>r \<in> set (elems srs). service_rule_ok r"
  using assms alerts_payload_decoded [of rq]
  by (auto simp: requested_rules_def payload_in_range_def Let_def split: prod.splits if_splits)

lemma requested_rules_range:
  assumes "requested_rules rq = Some (rs, srs)" "validate_rules rs srs = None"
  shows "rules_valid (rs, srs)"
proof -
  obtain p where "decode_body alerts_payload_fields \<lparr>ap_rules = None, ap_service_rules = None\<rparr> rq = (p, False)"
    "rs = ap_rules p" "srs = ap_service_rules p"
    using assms(1) by (auto simp: requested_rules_def Let_def split: prod.splits if_splits)
  then show ?thesis
    using alerts_payload_decoded assms(2)
    by (auto simp: validate_rules_None rules_valid_def payload_in_range_def rule_ok_def)
qed


text \<open>A state that is just the rule set.\<close>

definition rules_deps :: "(rule slice \<times> service_rule slice, unit) deps" where
  "rules_deps = \<lparr>d_query = (\<lambda>_ _ _. Inr []), d_latest = (\<lambda>_. Inl ErrNoSamples), d_pairing_token = ''secret'',
     d_server_name = ''web1'', d_version = ''1.0'', d_interval = None, d_persist = None,
     d_rules = Some \<lparr>rc_rules = (\<lambda>w. w), rc_set_rules = (\<lambda>a b w. (a, b))\<rparr>,
     d_persist_rules = None, d_scan = None, d_push_tokens = None, d_publish = None, d_send_test = None\<rparr>"

definition load_rule_json :: "string \<Rightarrow> json" where
  "load_rule_json metric_name = JObj [(''rules'', JArr [JObj [(''name'', JStr ''load''), (''metric'', JStr metric_name),
     (''comparator'', JStr ''gt''), (''threshold'', JNum 4), (''for'', JStr ''5m'')]])]"


subsection \<open>The collaborators' contract\<close>

locale agent_deps =
  fixes d :: "('s, 'r) deps"
    and interval_of :: "'s \<Rightarrow> duration"
    and rules_of :: "'s \<Rightarrow> rule slice \<times> service_rule slice"
  assumes interval_law: "d_interval d = Some ic \<Longrightarrow> ic_interval ic w = interval_of w \<and>
      interval_of (ic_set_interval ic x w) = x \<and> rules_of (ic_set_interval ic x w) = rules_of w"
    and rules_law: "d_rules d = Some rc \<Longrightarrow> rc_rules rc w = rules_of w \<and>
      rules_of (rc_set_rules rc a b w) = (a, b) \<and> interval_of (rc_set_rules rc a b w) = interval_of w"
    and persist_frame: "d_persist d = Some f \<Longrightarrow>
      interval_of (fst (f x w)) = interval_of w \<and> rules_of (fst (f x w)) = rules_of w"
    and persist_rules_frame: "d_persist_rules d = Some g \<Longrightarrow>
      interval_of (fst (g a b w)) = interval_of w \<and> rules_of (fst (g a b w)) = rules_of w"
    and scan_frame: "d_scan d = Some sc \<Longrightarrow>
      interval_of (fst (sc fresh w)) = interval_of w \<and> rules_of (fst (sc fresh w)) = rules_of w"
    and push_frame: "d_push_tokens d = Some pt \<Longrightarrow>
      interval_of (fst (pt_set pt t e l w)) = interval_of w \<and> rules_of (fst (pt_set pt t e l w)) = rules_of w"
    and publish_frame: "d_publish d = Some p \<Longrightarrow>
      interval_of (fst (p m w)) = interval_of w \<and> rules_of (fst (p m w)) = rules_of w"
    and test_frame: "d_send_test d = Some q \<Longrightarrow>
      interval_of (fst (q t m w)) = interval_of w \<and> rules_of (fst (q t m w)) = rules_of w"
begin

definition same_view :: "'s \<Rightarrow> 's \<Rightarrow> bool" where
  "same_view w w' \<longleftrightarrow> interval_of w' = interval_of w \<and> rules_of w' = rules_of w"

lemma same_view_refl: "same_view w w"
  by (simp add: same_view_def)

lemma read_only:
  "same_view w (fst (handle_healthz d rq w))" "same_view w (fst (handle_metrics d now rq w))"
  "same_view w (fst (handle_services d rq w))" "same_view w (fst (handle_latest d rq w))"
  "same_view w (fst (handle_stream d rq w))" "same_view w (fst (handle_get_config d rq w))"
  "same_view w (fst (handle_get_alerts d rq w))" "same_view w (fst (handle_get_push_token d rq w))"
  by (auto simp: same_view_def handle_healthz_def handle_metrics_def handle_services_def handle_latest_def
      handle_stream_def handle_get_config_def handle_get_alerts_def handle_get_push_token_def
      split: sum.splits option.splits prod.splits store_error.splits)

lemma security_keeps: "same_view w (fst (handle_security d rq w))"
  using scan_frame by (auto simp: same_view_def handle_security_def split: option.splits prod.splits) (metis fst_conv)+

lemma post_push_token_keeps: "same_view w (fst (handle_post_push_token d rq w))"
proof (cases "d_push_tokens d")
  case None
  then show ?thesis by (simp add: same_view_def handle_post_push_token_def)
next
  case (Some pt)
  obtain p bad where b: "decode_body push_token_fields \<lparr>pr_token = [], pr_environment = [], pr_label = []\<rparr> rq = (p, bad)"
    by fastforce
  obtain w1 err where s: "pt_set pt (pr_token p) (pr_environment p) (pr_label p) w = (w1, err)" by fastforce
  then have "same_view w w1" using push_frame [OF Some] by (metis fst_conv same_view_def)
  then show ?thesis by (auto simp: handle_post_push_token_def Some b s same_view_refl)
qed

lemma post_test_alert_keeps: "same_view w (fst (handle_post_test_alert d rq w))"
proof -
  let ?p = "fst (decode_body test_alert_fields \<lparr>tr_device_token = []\<rparr> rq)"
  let ?m = "''Test alert from '' @ d_server_name d"
  consider (device) f where "tr_device_token ?p \<noteq> []" "d_send_test d = Some f"
    | (all) f where "tr_device_token ?p = []" "d_publish d = Some f"
    | (none) "fst (handle_post_test_alert d rq w) = w"
    by (cases "tr_device_token ?p = []"; cases "d_send_test d"; cases "d_publish d")
      (auto simp: handle_post_test_alert_def Let_def)
  then show ?thesis
  proof cases
    case device
    then have "fst (handle_post_test_alert d rq w) = fst (f (tr_device_token ?p) ?m w)"
      by (simp add: handle_post_test_alert_def Let_def split: prod.splits option.splits)
    then show ?thesis using test_frame [OF device(2)] by (simp add: same_view_def)
  next
    case all
    then have "fst (handle_post_test_alert d rq w) = fst (f ?m w)"
      by (simp add: handle_post_test_alert_def Let_def split: prod.splits option.splits)
    then show ?thesis using publish_frame [OF all(2)] by (simp add: same_view_def)
  qed (simp add: same_view_refl)
qed

lemma patch_config_view:
  "rules_of (fst (handle_patch_config d rq w)) = rules_of w \<and>
   (interval_of (fst (handle_patch_config d rq w)) = interval_of w \<or>
    acceptable_interval (interval_of (fst (handle_patch_config d rq w))))"
proof (cases "d_interval d")
  case None
  then show ?thesis by (simp add: handle_patch_config_def)
next
  case (Some ic)
  note law = interval_law [OF Some]
  show ?thesis
  proof (cases "requested_interval rq")
    case None
    then show ?thesis using patch_config_step [OF Some, of rq w] by auto
  next
    case (Some x)
    show ?thesis
    proof (cases "acceptable_interval x")
      case False
      then show ?thesis using patch_config_step [OF \<open>d_interval d = Some ic\<close>, of rq w] Some by auto
    next
      case True
      have "interval_of (fst (handle_patch_config d rq w)) = x \<and> rules_of (fst (handle_patch_config d rq w)) = rules_of w"
        using patch_config_step [OF \<open>d_interval d = Some ic\<close>, of rq w] Some True law persist_frame
        by (auto simp: Let_def split: option.splits prod.splits) (metis fst_conv)+
      then show ?thesis using True by simp
    qed
  qed
qed

lemma patch_alerts_view:
  "interval_of (fst (handle_patch_alerts d rq w)) = interval_of w \<and>
   (rules_of (fst (handle_patch_alerts d rq w)) = rules_of w \<or>
    rules_valid (rules_of (fst (handle_patch_alerts d rq w))))"
proof (cases "d_rules d")
  case None
  then show ?thesis by (simp add: handle_patch_alerts_def)
next
  case (Some rc)
  note law = rules_law [OF Some]
  obtain p bad where b: "decode_body alerts_payload_fields \<lparr>ap_rules = None, ap_service_rules = None\<rparr> rq = (p, bad)"
    by fastforce
  show ?thesis
  proof (cases "bad \<or> validate_rules (ap_rules p) (ap_service_rules p) \<noteq> None")
    case True
    then show ?thesis by (auto simp: handle_patch_alerts_def Some b)
  next
    case False
    have r: "requested_rules rq = Some (ap_rules p, ap_service_rules p)" using False by (simp add: requested_rules_def b)
    have v: "rules_valid (ap_rules p, ap_service_rules p)" using requested_rules_range [OF r] False by simp
    have "interval_of (fst (handle_patch_alerts d rq w)) = interval_of w \<and>
        rules_of (fst (handle_patch_alerts d rq w)) = (ap_rules p, ap_service_rules p)"
      using False law persist_rules_frame
      by (auto simp: handle_patch_alerts_def Some b Let_def split: option.splits prod.splits) (metis fst_conv)+
    then show ?thesis using v by simp
  qed
qed

lemma serve_view:
  assumes "serve_http d now rq w = (w', resp)"
  shows "(rules_of w' = rules_of w \<or> rules_valid (rules_of w')) \<and>
    (interval_of w' = interval_of w \<or> acceptable_interval (interval_of w'))"
proof -
  have handler: "(rules_of (fst (h rq w)) = rules_of w \<or> rules_valid (rules_of (fst (h rq w)))) \<and>
      (interval_of (fst (h rq w)) = interval_of w \<or> acceptable_interval (interval_of (fst (h rq w))))"
    if "(m, p, a, h) \<in> set (routes d now)" for m p a h
    using that read_only security_keeps post_push_token_keeps post_test_alert_keeps patch_config_view patch_alerts_view
    unfolding routes_def same_view_def by (simp only: list.set insert_iff empty_iff prod.inject) metis
  show ?thesis
  proof (cases rule: serve_http_cases [where rq = rq and d = d and now = now and w = w])
    case (route m a h)
    then have "fst (serve_http d now rq w) = w \<or> fst (serve_http d now rq w) = fst (h rq w)"
      by (simp add: authed_def)
    then have "w' = w \<or> w' = fst (h rq w)" using assms by simp
    then show ?thesis using handler [OF route(1)] by auto
  qed (use assms in auto)
qed

end

end
