(* ===== verification/Stream_Hub.thy ===== *)
theory Stream_Hub
  imports Collector_Types "HOL-Library.Sublist"
begin

text \<open>
  The live stream of internal/api: \<open>BroadcastSample\<close> offers a sample to the buffered channel of every
  registered client without blocking, \<open>handleStream\<close> registers a channel, forwards from it and, when the
  client leaves, unregisters it and then closes it. Each locked section and each channel operation is
  one step; the steps of all clients and of the broadcaster interleave. A send on a closed channel
  would panic, the flag \<open>hub_panic\<close>. \<open>sc_offered\<close> and \<open>sc_dropped\<close> record what was broadcast to a
  registered client and how much of it found the buffer full.
\<close>

definition stream_buffer :: nat where "stream_buffer = 8"

record stream_client =
  sc_registered :: bool
  sc_closed :: bool
  sc_queue :: "sample list"
  sc_delivered :: "sample list"
  sc_offered :: "sample list"
  sc_dropped :: nat

record hub =
  hub_clients :: "stream_client list"
  hub_panic :: bool

definition new_client_channel :: stream_client where
  "new_client_channel = \<lparr>sc_registered = True, sc_closed = False, sc_queue = [], sc_delivered = [],
     sc_offered = [], sc_dropped = 0\<rparr>"

text \<open>One turn of the loop of \<open>BroadcastSample\<close>.\<close>

definition offer :: "sample \<Rightarrow> stream_client \<Rightarrow> stream_client" where
  "offer s c =
     (if \<not> sc_registered c then c
      else if length (sc_queue c) < stream_buffer
      then c\<lparr>sc_queue := sc_queue c @ [s], sc_offered := sc_offered c @ [s]\<rparr>
      else c\<lparr>sc_offered := sc_offered c @ [s], sc_dropped := sc_dropped c + 1\<rparr>)"

definition broadcast_sample :: "sample \<Rightarrow> hub \<Rightarrow> hub" where
  "broadcast_sample s h =
     h\<lparr>hub_clients := map (offer s) (hub_clients h),
       hub_panic := (hub_panic h \<or> list_ex (\<lambda>c. sc_registered c \<and> sc_closed c) (hub_clients h))\<rparr>"

inductive hub_step :: "hub \<Rightarrow> hub \<Rightarrow> bool" where
  subscribe: "hub_step h (h\<lparr>hub_clients := hub_clients h @ [new_client_channel]\<rparr>)"
| broadcast: "hub_step h (broadcast_sample s h)"
| forward: "i < length (hub_clients h) \<Longrightarrow> hub_clients h ! i = c \<Longrightarrow> sc_registered c \<Longrightarrow> sc_queue c = s # q \<Longrightarrow>
    hub_step h (h\<lparr>hub_clients := (hub_clients h)[i := c\<lparr>sc_queue := q, sc_delivered := sc_delivered c @ [s]\<rparr>]\<rparr>)"
| unregister: "i < length (hub_clients h) \<Longrightarrow> hub_clients h ! i = c \<Longrightarrow> sc_registered c \<Longrightarrow>
    hub_step h (h\<lparr>hub_clients := (hub_clients h)[i := c\<lparr>sc_registered := False\<rparr>]\<rparr>)"
| close: "i < length (hub_clients h) \<Longrightarrow> hub_clients h ! i = c \<Longrightarrow> \<not> sc_registered c \<Longrightarrow> \<not> sc_closed c \<Longrightarrow>
    hub_step h (h\<lparr>hub_clients := (hub_clients h)[i := c\<lparr>sc_closed := True\<rparr>]\<rparr>)"

definition empty_hub :: hub where
  "empty_hub = \<lparr>hub_clients = [], hub_panic = False\<rparr>"

definition client_inv :: "stream_client \<Rightarrow> bool" where
  "client_inv c \<longleftrightarrow> (sc_registered c \<longrightarrow> \<not> sc_closed c) \<and> length (sc_queue c) \<le> stream_buffer \<and>
     subseq (sc_delivered c @ sc_queue c) (sc_offered c) \<and>
     length (sc_offered c) = length (sc_delivered c @ sc_queue c) + sc_dropped c"

definition hub_inv :: "hub \<Rightarrow> bool" where
  "hub_inv h \<longleftrightarrow> \<not> hub_panic h \<and> (\<forall>c \<in> set (hub_clients h). client_inv c)"

lemma subseq_snoc: "subseq xs ys \<Longrightarrow> subseq (xs @ [x]) (ys @ [x])"
  by (simp add: list_emb_append_mono)

lemma subseq_more: "subseq xs ys \<Longrightarrow> subseq xs (ys @ zs)"
  by (rule subseq_rev_drop_many)

lemma offer_inv: "client_inv c \<Longrightarrow> client_inv (offer s c)"
  using subseq_snoc [of "sc_delivered c @ sc_queue c" "sc_offered c" s]
  by (auto simp: client_inv_def offer_def intro: subseq_more)

lemma hub_inv_update:
  assumes "hub_inv h" "client_inv x"
  shows "hub_inv (h\<lparr>hub_clients := (hub_clients h)[i := x]\<rparr>)"
  using assms set_update_subset_insert [of "hub_clients h" i x] by (auto simp: hub_inv_def)

lemma hub_step_inv: "hub_step h h' \<Longrightarrow> hub_inv h \<Longrightarrow> hub_inv h'"
proof (induction rule: hub_step.induct)
  case (subscribe h)
  then show ?case by (simp add: hub_inv_def new_client_channel_def client_inv_def)
next
  case (broadcast h s)
  then have "\<not> list_ex (\<lambda>c. sc_registered c \<and> sc_closed c) (hub_clients h)"
    by (auto simp: hub_inv_def list_ex_iff client_inv_def)
  with broadcast show ?case by (simp add: hub_inv_def broadcast_sample_def offer_inv)
next
  case (forward i h c s q)
  then have "client_inv c" by (metis hub_inv_def nth_mem)
  then have "client_inv (c\<lparr>sc_queue := q, sc_delivered := sc_delivered c @ [s]\<rparr>)"
    using forward(4) by (simp add: client_inv_def)
  then show ?case by (rule hub_inv_update [OF forward.prems])
next
  case (unregister i h c)
  then have "client_inv c" by (metis hub_inv_def nth_mem)
  then have "client_inv (c\<lparr>sc_registered := False\<rparr>)" by (simp add: client_inv_def)
  then show ?case by (rule hub_inv_update [OF unregister.prems])
next
  case (close i h c)
  then have "client_inv c" by (metis hub_inv_def nth_mem)
  then have "client_inv (c\<lparr>sc_closed := True\<rparr>)" using close(3) by (simp add: client_inv_def)
  then show ?case by (rule hub_inv_update [OF close.prems])
qed

lemma hub_inv_reachable: "hub_step\<^sup>*\<^sup>* empty_hub h \<Longrightarrow> hub_inv h"
proof (induction rule: rtranclp_induct)
  case base
  show ?case by (simp add: hub_inv_def empty_hub_def)
qed (rule hub_step_inv)

text \<open>
  C28. The live stream. However clients come, read and leave while samples are broadcast, no sample is
  ever sent on a closed channel, no client's buffer exceeds eight samples, and what a client has
  received, followed by its buffer, is the broadcast sequence since it joined, in order, with only
  the samples missing that found the buffer full: with none dropped it is complete.
\<close>
theorem stream_in_order:
  assumes "hub_step\<^sup>*\<^sup>* empty_hub h" "c \<in> set (hub_clients h)"
  shows "\<not> hub_panic h \<and> length (sc_queue c) \<le> 8 \<and> subseq (sc_delivered c @ sc_queue c) (sc_offered c) \<and>
    length (sc_offered c) = length (sc_delivered c) + length (sc_queue c) + sc_dropped c \<and>
    (sc_dropped c = 0 \<longrightarrow> sc_delivered c @ sc_queue c = sc_offered c)"
proof -
  have h: "\<not> hub_panic h" "client_inv c"
    using hub_inv_reachable [OF assms(1)] assms(2) by (simp_all add: hub_inv_def)
  then have s: "subseq (sc_delivered c @ sc_queue c) (sc_offered c)"
    "length (sc_offered c) = length (sc_delivered c @ sc_queue c) + sc_dropped c"
    by (simp_all add: client_inv_def)
  have "sc_delivered c @ sc_queue c = sc_offered c" if "sc_dropped c = 0"
    using s that by (metis add_0_right subseq_same_length)
  then show ?thesis using h s by (simp add: client_inv_def stream_buffer_def)
qed

theorem stream_in_order_witness:
  "\<exists>h c. hub_step\<^sup>*\<^sup>* empty_hub h \<and> c \<in> set (hub_clients h) \<and> sc_delivered c = [zero_sample] \<and>
     sc_delivered c @ sc_queue c = sc_offered c \<and> sc_offered c = [zero_sample, zero_sample\<lparr>timestamp := 1\<rparr>]"
proof -
  let ?s = "zero_sample\<lparr>timestamp := 1\<rparr>"
  let ?c = "\<lambda>q dl off. \<lparr>sc_registered = True, sc_closed = False, sc_queue = q, sc_delivered = dl, sc_offered = off, sc_dropped = 0\<rparr>"
  let ?h = "\<lambda>cs. \<lparr>hub_clients = cs, hub_panic = False\<rparr>"
  have 1: "hub_step empty_hub (?h [?c [] [] []])"
    using subscribe [of empty_hub] by (simp add: empty_hub_def new_client_channel_def)
  have 2: "hub_step (?h [?c [] [] []]) (?h [?c [zero_sample] [] [zero_sample]])"
    using broadcast [of "?h [?c [] [] []]" zero_sample] by (simp add: broadcast_sample_def offer_def stream_buffer_def)
  have 3: "hub_step (?h [?c [zero_sample] [] [zero_sample]]) (?h [?c [] [zero_sample] [zero_sample]])"
    using forward [of 0 "?h [?c [zero_sample] [] [zero_sample]]" "?c [zero_sample] [] [zero_sample]" zero_sample "[]"]
    by simp
  have 4: "hub_step (?h [?c [] [zero_sample] [zero_sample]]) (?h [?c [?s] [zero_sample] [zero_sample, ?s]])"
    using broadcast [of "?h [?c [] [zero_sample] [zero_sample]]" ?s]
    by (simp add: broadcast_sample_def offer_def stream_buffer_def)
  have r: "hub_step\<^sup>*\<^sup>* empty_hub (?h [?c [?s] [zero_sample] [zero_sample, ?s]])"
    using 1 2 3 4 by (meson converse_rtranclp_into_rtranclp r_into_rtranclp)
  have "?c [?s] [zero_sample] [zero_sample, ?s] \<in> set (hub_clients (?h [?c [?s] [zero_sample] [zero_sample, ?s]]))"
    by simp
  from stream_in_order [OF r this] show ?thesis using r
    by (intro exI [of _ "?h [?c [?s] [zero_sample] [zero_sample, ?s]]"]
        exI [of _ "?c [?s] [zero_sample] [zero_sample, ?s]"]) simp
qed

end
