(* ===== verification/Collector_Loop.thy ===== *)
theory Collector_Loop
  imports Collector_Types
begin

text \<open>
  The poll loop of internal/collector/collector.go: \<open>Run\<close>, \<open>wait\<close> and \<open>SetInterval\<close>. The loop reads the
  interval under its lock, gathers a sample when it is positive, reads the interval again and waits;
  \<open>SetInterval\<close> stores a new interval and then posts a wake-up in a one-slot channel, two steps between
  which the loop may run. Time passes in the waiting loop; the timer may fire late but not early.
\<close>

datatype loop_pc = AtCheck | InTick | BeforeWait | Waiting duration time | Stopped

record poll_loop =
  pl_interval :: duration
  pl_reconfig :: bool
  pl_pc :: loop_pc
  pl_clock :: time
  pl_posting :: nat
  pl_ticks :: "(time \<times> duration) list"

text \<open>\<open>pl_posting\<close> counts the \<open>SetInterval\<close> calls that have stored their value but not yet posted the
  wake-up; \<open>pl_ticks\<close> records when each gathering started and the interval read for it.\<close>

definition new_loop :: "duration \<Rightarrow> time \<Rightarrow> poll_loop" where
  "new_loop d t = \<lparr>pl_interval = d, pl_reconfig = False, pl_pc = AtCheck, pl_clock = t, pl_posting = 0,
     pl_ticks = []\<rparr>"

text \<open>The loop's own next step, when it has one: \<open>None\<close> while it is blocked or has returned.\<close>

definition loop_step :: "poll_loop \<Rightarrow> poll_loop option" where
  "loop_step p = (case pl_pc p of
      AtCheck \<Rightarrow> Some (if 0 < pl_interval p
                        then p\<lparr>pl_pc := InTick, pl_ticks := (pl_clock p, pl_interval p) # pl_ticks p\<rparr>
                        else p\<lparr>pl_pc := BeforeWait\<rparr>)
    | InTick \<Rightarrow> Some (p\<lparr>pl_pc := BeforeWait\<rparr>)
    | BeforeWait \<Rightarrow> Some (p\<lparr>pl_pc := Waiting (pl_interval p) (pl_clock p)\<rparr>)
    | Waiting d since \<Rightarrow>
        if pl_reconfig p then Some (p\<lparr>pl_reconfig := False, pl_pc := AtCheck\<rparr>)
        else if 0 < d \<and> since + d \<le> pl_clock p then Some (p\<lparr>pl_pc := AtCheck\<rparr>)
        else None
    | Stopped \<Rightarrow> None)"

inductive poll_step :: "poll_loop \<Rightarrow> poll_loop \<Rightarrow> bool" where
  loop: "loop_step p = Some p' \<Longrightarrow> poll_step p p'"
| timer_wins: "pl_pc p = Waiting d since \<Longrightarrow> 0 < d \<Longrightarrow> since + d \<le> pl_clock p \<Longrightarrow>
    poll_step p (p\<lparr>pl_pc := AtCheck\<rparr>)"
| store_interval: "poll_step p (p\<lparr>pl_interval := d, pl_posting := pl_posting p + 1\<rparr>)"
| post_wakeup: "0 < pl_posting p \<Longrightarrow> poll_step p (p\<lparr>pl_posting := pl_posting p - 1, pl_reconfig := True\<rparr>)"
| elapse: "0 \<le> n \<Longrightarrow> poll_step p (p\<lparr>pl_clock := pl_clock p + n\<rparr>)"
| cancel: "pl_pc p = Waiting d since \<Longrightarrow> poll_step p (p\<lparr>pl_pc := Stopped\<rparr>)"

text \<open>A wait with an interval that is no longer the current one has a wake-up pending or coming;
  and the loop never gathered with an interval that was not positive.\<close>

definition loop_inv :: "poll_loop \<Rightarrow> bool" where
  "loop_inv p \<longleftrightarrow>
     (\<forall>d since. pl_pc p = Waiting d since \<longrightarrow> d = pl_interval p \<or> pl_reconfig p \<or> 0 < pl_posting p) \<and>
     (\<forall>(t, d) \<in> set (pl_ticks p). 0 < d)"

lemma loop_inv_step: "poll_step p p' \<Longrightarrow> loop_inv p \<Longrightarrow> loop_inv p'"
proof (induction rule: poll_step.induct)
  case (loop p p')
  then show ?case
    by (auto simp: loop_step_def loop_inv_def split: loop_pc.splits if_splits)
next
  case (post_wakeup p)
  then show ?case by (auto simp: loop_inv_def)
qed (auto simp: loop_inv_def)

lemma loop_inv_reachable: "poll_step\<^sup>*\<^sup>* (new_loop d t) p \<Longrightarrow> loop_inv p"
proof (induction rule: rtranclp_induct)
  case base
  show ?case by (simp add: loop_inv_def new_loop_def)
qed (rule loop_inv_step)

text \<open>
  C26. No lost wake-up. However \<open>SetInterval\<close> calls fall among the loop's steps: once they have
  returned, a waiting loop either waits for the current interval or steps on at once, and then,
  in at most two more steps and without waiting, it gathers a sample if the current interval is
  positive and otherwise waits paused. No sample is ever gathered on an interval that is not
  positive.
\<close>
theorem set_interval_takes_effect:
  assumes "poll_step\<^sup>*\<^sup>* (new_loop d0 t0) p" "pl_posting p = 0" "pl_pc p = Waiting d since"
  shows "(d = pl_interval p \<or>
      (if 0 < pl_interval p
       then \<exists>p1 p2. loop_step p = Some p1 \<and> loop_step p1 = Some p2 \<and> pl_pc p2 = InTick \<and>
              pl_ticks p2 = (pl_clock p, pl_interval p) # pl_ticks p
       else \<exists>p1 p2 p3. loop_step p = Some p1 \<and> loop_step p1 = Some p2 \<and> loop_step p2 = Some p3 \<and>
              pl_pc p3 = Waiting (pl_interval p) (pl_clock p) \<and> pl_ticks p3 = pl_ticks p)) \<and>
    (\<forall>(t, i) \<in> set (pl_ticks p). 0 < i)"
proof -
  have inv: "loop_inv p" by (rule loop_inv_reachable [OF assms(1)])
  then have "d = pl_interval p \<or> pl_reconfig p" using assms(2,3) by (auto simp: loop_inv_def)
  then show ?thesis
  proof
    assume "pl_reconfig p"
    then have "loop_step p = Some (p\<lparr>pl_reconfig := False, pl_pc := AtCheck\<rparr>)"
      using assms(3) by (simp add: loop_step_def)
    then show ?thesis using inv by (simp add: loop_step_def loop_inv_def)
  qed (use inv in \<open>auto simp: loop_inv_def\<close>)
qed

theorem set_interval_takes_effect_witness:
  "\<exists>p1 p2. loop_step \<lparr>pl_interval = minute, pl_reconfig = True, pl_pc = Waiting 0 0, pl_clock = 0, pl_posting = 0,
       pl_ticks = []\<rparr> = Some p1 \<and> loop_step p1 = Some p2 \<and> pl_ticks p2 = [(0, minute)]"
proof -
  let ?p = "\<lambda>i r pc n. \<lparr>pl_interval = i, pl_reconfig = r, pl_pc = pc, pl_clock = 0, pl_posting = n, pl_ticks = []\<rparr>"
  have 1: "poll_step (new_loop 0 0) (?p 0 False BeforeWait 0)" by (rule loop) (simp add: loop_step_def new_loop_def)
  have 2: "poll_step (?p 0 False BeforeWait 0) (?p 0 False (Waiting 0 0) 0)" by (rule loop) (simp add: loop_step_def)
  have 3: "poll_step (?p 0 False (Waiting 0 0) 0) (?p minute False (Waiting 0 0) 1)"
    using store_interval [of "?p 0 False (Waiting 0 0) 0" minute] by simp
  have 4: "poll_step (?p minute False (Waiting 0 0) 1) (?p minute True (Waiting 0 0) 0)"
    using post_wakeup [of "?p minute False (Waiting 0 0) 1"] by simp
  have r: "poll_step\<^sup>*\<^sup>* (new_loop 0 0) (?p minute True (Waiting 0 0) 0)"
    using 1 2 3 4 by (meson converse_rtranclp_into_rtranclp r_into_rtranclp)
  from set_interval_takes_effect [OF r, of 0 0] show ?thesis by auto
qed

end
