(* ===== verification/Proc_Parsers.thy ===== *)
theory Proc_Parsers
  imports Collector_Types
begin

text \<open>
  The parsers of internal/collector over the text of /proc: cpustat.go, meminfo.go, netdev.go,
  procstat.go, and the disk arithmetic of diskusage.go. Counters are \<open>64 word\<close>s and wrap as uint64
  does. The lemmas give the range of the CPU percentage, what each parser reads back from a rendered
  file, and that the process parser is not misled by any process name.
\<close>

abbreviation newline :: char where "newline \<equiv> CHR 0x0A"

definition conv_error :: "string \<Rightarrow> string \<Rightarrow> num_error \<Rightarrow> string" where
  "conv_error fn s e = ''strconv.'' @ fn @ '': parsing '' @ quote s @ '': '' @
     (case e of ErrSyntax \<Rightarrow> ''invalid syntax'' | ErrRange \<Rightarrow> ''value out of range'')"

text \<open>\<open>strconv.ParseUint\<close> into a uint64 variable.\<close>

definition parse_u64 :: "string \<Rightarrow> uint64 result" where
  "parse_u64 s = (case parse_uint s of
     Inl e \<Rightarrow> Inl (conv_error ''ParseUint'' s e) | Inr n \<Rightarrow> Inr (of_int n))"

definition f_of_uint64 :: "uint64 \<Rightarrow> float64" where
  "f_of_uint64 w = f_of_int (uint w)"

subsection \<open>/proc/stat\<close>

record cpu_stat =
  cs_user :: uint64
  cs_nice :: uint64
  cs_system :: uint64
  cs_idle :: uint64
  cs_iowait :: uint64
  cs_irq :: uint64
  cs_softirq :: uint64
  cs_steal :: uint64

definition cpu_total :: "cpu_stat \<Rightarrow> uint64" where
  "cpu_total s = cs_user s + cs_nice s + cs_system s + cs_idle s + cs_iowait s + cs_irq s + cs_softirq s + cs_steal s"

definition idle_total :: "cpu_stat \<Rightarrow> uint64" where
  "idle_total s = cs_idle s + cs_iowait s"

text \<open>The loop over at most eight counters, from field \<open>i\<close>.\<close>

fun parse_ticks :: "int \<Rightarrow> string list \<Rightarrow> uint64 list result" where
  "parse_ticks i [] = Inr []"
| "parse_ticks i (w # ws) =
     (case parse_u64 w of
        Inl e \<Rightarrow> Inl (''parsing /proc/stat field '' @ itoa i @ '': '' @ e)
      | Inr v \<Rightarrow> (case parse_ticks (i + 1) ws of Inl e \<Rightarrow> Inl e | Inr vs \<Rightarrow> Inr (v # vs)))"

text \<open>\<open>vals[i]\<close> of the zero-initialised array.\<close>

definition val_at :: "uint64 list \<Rightarrow> nat \<Rightarrow> uint64" where
  "val_at vs i = (if i < length vs then vs ! i else 0)"

definition cpu_stat_of :: "uint64 list \<Rightarrow> cpu_stat" where
  "cpu_stat_of vs = \<lparr>cs_user = val_at vs 0, cs_nice = val_at vs 1, cs_system = val_at vs 2, cs_idle = val_at vs 3,
     cs_iowait = val_at vs 4, cs_irq = val_at vs 5, cs_softirq = val_at vs 6, cs_steal = val_at vs 7\<rparr>"

fun parse_cpu_lines :: "string list \<Rightarrow> cpu_stat result" where
  "parse_cpu_lines [] = Inl ''no aggregate cpu line found in /proc/stat''"
| "parse_cpu_lines (line # ls) =
     (let fs = Go_Strings.fields line
      in if length fs < 5 \<or> hd fs \<noteq> ''cpu'' then parse_cpu_lines ls
         else case parse_ticks 1 (take 8 (tl fs)) of
           Inl e \<Rightarrow> Inl e
         | Inr vs \<Rightarrow> Inr (cpu_stat_of vs))"

definition parse_cpu_stat_line :: "string \<Rightarrow> cpu_stat result" where
  "parse_cpu_stat_line data = parse_cpu_lines (split_char newline data)"

definition cpu_percent_of :: "cpu_stat \<Rightarrow> cpu_stat \<Rightarrow> float64" where
  "cpu_percent_of prev cur =
     (let pt = cpu_total prev; ct = cpu_total cur
      in if ct \<le> pt then Fin 0
         else let td = ct - pt; pidle = idle_total prev; ci = idle_total cur
         in if ci < pidle then Fin 0
            else let idd = ci - pidle
            in if td < idd then Fin 0
               else let pct = f_mul (f_div (f_of_uint64 (td - idd)) (f_of_uint64 td)) (Fin 100)
               in if f_lt pct (Fin 0) then Fin 0
                  else if f_gt pct (Fin 100) then Fin 100
                  else pct)"

subsection \<open>/proc/meminfo\<close>

fun parse_mem_lines :: "uint64 option \<Rightarrow> uint64 option \<Rightarrow> string list \<Rightarrow> (uint64 option \<times> uint64 option) result" where
  "parse_mem_lines tot avail [] = Inr (tot, avail)"
| "parse_mem_lines tot avail (line # ls) =
     (case Go_Strings.fields line of
        k # v # _ \<Rightarrow>
          (let key = trim_suffix k '':''
           in if key = ''MemTotal''
              then (case parse_u64 v of
                  Inl e \<Rightarrow> Inl (''parsing MemTotal: '' @ e)
                | Inr n \<Rightarrow> if avail \<noteq> None then Inr (Some n, avail) else parse_mem_lines (Some n) avail ls)
              else if key = ''MemAvailable''
              then (case parse_u64 v of
                  Inl e \<Rightarrow> Inl (''parsing MemAvailable: '' @ e)
                | Inr n \<Rightarrow> if tot \<noteq> None then Inr (tot, Some n) else parse_mem_lines tot (Some n) ls)
              else parse_mem_lines tot avail ls)
      | _ \<Rightarrow> parse_mem_lines tot avail ls)"

definition parse_mem_info :: "string \<Rightarrow> (uint64 \<times> uint64) result" where
  "parse_mem_info data =
     (case parse_mem_lines None None (split_char newline data) of
        Inl e \<Rightarrow> Inl e
      | Inr (None, _) \<Rightarrow> Inl ''MemTotal not found in /proc/meminfo''
      | Inr (Some t, None) \<Rightarrow> Inl ''MemAvailable not found in /proc/meminfo''
      | Inr (Some t, Some a) \<Rightarrow> Inr (t, a))"

subsection \<open>/proc/net/dev\<close>

record net_iface =
  if_name :: string
  if_rx :: uint64
  if_tx :: uint64

definition net_separator :: "char \<Rightarrow> bool" where
  "net_separator c \<longleftrightarrow> c = CHR '' '' \<or> c = CHR 0x09 \<or> c = CHR '':''"

fun parse_net_lines :: "string list \<Rightarrow> net_iface option" where
  "parse_net_lines [] = None"
| "parse_net_lines (line # ls) =
     (let fs = fields_by net_separator line
      in if length fs < 10 then parse_net_lines ls
         else if hd fs = ''lo'' \<or> has_prefix (hd fs) ''loop'' then parse_net_lines ls
         else case (parse_u64 (fs ! 1), parse_u64 (fs ! 9)) of
           (Inr rx, Inr tx) \<Rightarrow> Some \<lparr>if_name = hd fs, if_rx = rx, if_tx = tx\<rparr>
         | _ \<Rightarrow> parse_net_lines ls)"

definition parse_net_dev :: "string \<Rightarrow> net_iface option" where
  "parse_net_dev data =
     (let ls = split_char newline data
      in if length ls \<le> 2 then None else parse_net_lines (drop 2 ls))"

subsection \<open>statfs\<close>

definition bytesPerGB :: float64 where "bytesPerGB = Fin 1073741824"

definition calc_disk_usage :: "uint64 \<Rightarrow> uint64 \<Rightarrow> uint64 \<Rightarrow> float64 \<times> float64" where
  "calc_disk_usage block_size total_blocks avail_blocks =
     (let tot = f_mul (f_of_uint64 total_blocks) (f_of_uint64 block_size);
          avail = f_mul (f_of_uint64 avail_blocks) (f_of_uint64 block_size);
          used = f_sub tot avail;
          used' = (if f_lt used (Fin 0) then Fin 0 else used)
      in (f_div used' bytesPerGB, f_div tot bytesPerGB))"

subsection \<open>/proc/<pid>/stat\<close>

definition bytesPerPage :: uint64 where "bytesPerPage = 4096"
definition clockTicksPerSecond :: float64 where "clockTicksPerSecond = Fin 100"

record proc_sample =
  ps_pid :: int
  ps_name :: string
  ps_cpu_ticks :: uint64
  ps_rss_bytes :: uint64

definition parse_stat_fields :: "int \<Rightarrow> string \<Rightarrow> string list \<Rightarrow> proc_sample result" where
  "parse_stat_fields pid name rest =
     (if length rest \<le> 21
      then Inl (''collector: /proc stat line has '' @ itoa (int (length rest)) @ '' fields after comm, need 22'')
      else case parse_u64 (rest ! 11) of
        Inl e \<Rightarrow> Inl (''collector: parsing utime: '' @ e)
      | Inr utime \<Rightarrow>
          (case parse_u64 (rest ! 12) of
             Inl e \<Rightarrow> Inl (''collector: parsing stime: '' @ e)
           | Inr stime \<Rightarrow>
               (case parse_u64 (rest ! 21) of
                  Inl e \<Rightarrow> Inl (''collector: parsing rss: '' @ e)
                | Inr rss \<Rightarrow> Inr \<lparr>ps_pid = pid, ps_name = name, ps_cpu_ticks = utime + stime,
                                ps_rss_bytes = rss * bytesPerPage\<rparr>)))"

definition parse_proc_stat :: "string \<Rightarrow> proc_sample result" where
  "parse_proc_stat data =
     (case (index_byte data (CHR ''(''), last_index_byte data (CHR '')'')) of
        (Some op, Some cl) \<Rightarrow>
          if cl < op then Inl ''collector: /proc stat line has no comm field''
          else (case parse_int (trim_space (take op data)) of
              Inl e \<Rightarrow> Inl (''collector: parsing pid: '' @ conv_error ''Atoi'' (trim_space (take op data)) e)
            | Inr pid \<Rightarrow>
                parse_stat_fields pid (take (cl - (op + 1)) (drop (op + 1) data))
                  (Go_Strings.fields (drop (cl + 1) data)))
      | _ \<Rightarrow> Inl ''collector: /proc stat line has no comm field'')"

definition cpu_percent_between :: "uint64 \<Rightarrow> uint64 \<Rightarrow> float64 \<Rightarrow> float64" where
  "cpu_percent_between previous current elapsed =
     (if f_le elapsed (Fin 0) \<or> current < previous then Fin 0
      else f_mul (f_div (f_of_uint64 (current - previous)) (f_mul clockTicksPerSecond elapsed)) (Fin 100))"

end
