(* ===== verification/Proc_Claims.thy ===== *)
theory Proc_Claims
  imports Proc_Parsers Float_Bounds
begin

text \<open>What the /proc parsers guarantee, stated over the text the kernel writes.\<close>

subsection \<open>CPU percentage\<close>

lemma f_of_uint64_fin: "f_of_uint64 w = Fin (round_rat (of_int (uint w)))"
proof -
  have u: "uint w < 2 ^ 64" "0 \<le> uint w" using uint_lt2p [of w] by simp_all
  have "(2 :: int) ^ 64 \<le> 2 ^ 900" by (rule power_increasing) simp_all
  with u have "\<bar>uint w\<bar> \<le> 2 ^ 900" by linarith
  then show ?thesis unfolding f_of_uint64_def by (rule f_of_int_fin)
qed

lemma f64_small: "0 \<le> x \<Longrightarrow> x \<le> 1000 \<Longrightarrow> f64 x = Fin (round_rat x)"
proof (rule f64_fin)
  assume "0 \<le> x" "x \<le> 1000"
  have "(1000 :: rat) \<le> 2 powi 10" by simp
  also have "\<dots> \<le> 2 powi 1000" by (simp only: powi2_le_iff)
  finally show "\<bar>x\<bar> \<le> 2 powi 1000" using \<open>0 \<le> x\<close> \<open>x \<le> 1000\<close> by simp
qed

text \<open>The quotient of two counters, the smaller by the larger, times a hundred.\<close>

lemma ratio_percent:
  assumes "0 \<le> a" "a \<le> b" "1 \<le> b"
  shows "\<exists>p. f_mul (f_div (Fin a) (Fin b)) (Fin 100) = Fin p \<and> 0 \<le> p \<and> p \<le> 100 \<and>
    (a = b \<longrightarrow> p = 100) \<and> (a = 0 \<longrightarrow> p = 0)"
proof -
  let ?q = "round_rat (a / b)"
  have ab: "0 \<le> a / b" "a / b \<le> 1" using assms by (simp_all add: field_simps)
  then have q: "0 \<le> ?q" "?q \<le> 1" using round_rat_nonneg round_rat_mono [of "a / b" 1] by simp_all
  have "a / b \<le> 1000" using ab(2) by linarith
  then have "f_div (Fin a) (Fin b) = Fin ?q" using assms(3) f64_small [OF ab(1)] by simp
  then have m: "f_mul (f_div (Fin a) (Fin b)) (Fin 100) = Fin (round_rat (?q * 100))"
    using q f64_small [of "?q * 100"] by simp
  have "0 \<le> round_rat (?q * 100)" "round_rat (?q * 100) \<le> 100"
    using q round_rat_nonneg [of "?q * 100"] round_rat_mono [of "?q * 100" 100] by simp_all
  then show ?thesis using m assms by auto
qed

lemma cpu_percent_cases:
  assumes "cpu_total prev < cpu_total cur" "idle_total prev \<le> idle_total cur"
    "idle_total cur - idle_total prev \<le> cpu_total cur - cpu_total prev"
  shows "\<exists>p. cpu_percent_of prev cur = Fin p \<and> 0 \<le> p \<and> p \<le> 100 \<and>
    (idle_total cur = idle_total prev \<longrightarrow> p = 100) \<and>
    (idle_total cur - idle_total prev = cpu_total cur - cpu_total prev \<longrightarrow> p = 0)"
proof -
  let ?td = "cpu_total cur - cpu_total prev" and ?id = "idle_total cur - idle_total prev"
  have td: "1 \<le> uint ?td"
    using assms(1) by (metis int_one_le_iff_zero_less less_le_not_le linorder_not_le order_less_irrefl right_minus_eq uint_0_iff uint_ge_0 verit_la_disequality)
  have le: "uint (?td - ?id) \<le> uint ?td"
    using assms(3) by (simp add: uint_minus_simple_alt [THEN iffD1] word_le_def)
  let ?a = "round_rat (of_int (uint (?td - ?id)))" and ?b = "round_rat (of_int (uint ?td))"
  have "1 \<le> (of_int (uint ?td) :: rat)" using td by (simp only: of_int_1_le_iff)
  from round_rat_mono [OF this] have "1 \<le> ?b" by (simp only: round_rat_1)
  moreover have "?a \<le> ?b" using le by (intro round_rat_mono) (simp only: of_int_le_iff)
  moreover have "0 \<le> ?a" by (rule round_rat_nonneg) (simp only: of_int_0_le_iff unsigned_greater_eq)
  ultimately obtain p where p: "f_mul (f_div (Fin ?a) (Fin ?b)) (Fin 100) = Fin p" "0 \<le> p" "p \<le> 100"
    "?a = ?b \<longrightarrow> p = 100" "?a = 0 \<longrightarrow> p = 0"
    using ratio_percent by blast
  have "cpu_percent_of prev cur = Fin p"
    using assms p by (simp add: cpu_percent_of_def Let_def f_of_uint64_fin f_gt_def not_le not_less)
  then show ?thesis using p by auto
qed

lemma cpu_percent_zero:
  assumes "\<not> (cpu_total prev < cpu_total cur \<and> idle_total prev \<le> idle_total cur \<and>
    idle_total cur - idle_total prev \<le> cpu_total cur - cpu_total prev)"
  shows "cpu_percent_of prev cur = Fin 0"
  using assms by (auto simp: cpu_percent_of_def Let_def not_le not_less)

lemma cpu_percent_range: "\<exists>p. cpu_percent_of prev cur = Fin p \<and> 0 \<le> p \<and> p \<le> 100"
  using cpu_percent_cases [of prev cur] cpu_percent_zero [of prev cur] by fastforce

text \<open>
  C38. CPU utilisation. For any two readings of the counters, wrapped, reset or running backwards, the
  percentage is a finite number between 0 and 100. A total that did not grow or idle time that went
  back reads 0; otherwise an interval without idle ticks reads exactly 100 and one with nothing but
  idle ticks exactly 0.
\<close>
theorem cpu_percentage_bounds:
  "\<exists>p. cpu_percent_of prev cur = Fin p \<and> 0 \<le> p \<and> p \<le> 100 \<and>
     (cpu_total cur \<le> cpu_total prev \<or> idle_total cur < idle_total prev \<longrightarrow> p = 0) \<and>
     (cpu_total prev < cpu_total cur \<and> idle_total cur = idle_total prev \<longrightarrow> p = 100) \<and>
     (idle_total prev \<le> idle_total cur \<and>
      idle_total cur - idle_total prev = cpu_total cur - cpu_total prev \<longrightarrow> p = 0)"
proof (cases "cpu_total prev < cpu_total cur \<and> idle_total prev \<le> idle_total cur \<and>
    idle_total cur - idle_total prev \<le> cpu_total cur - cpu_total prev")
  case True
  then show ?thesis using cpu_percent_cases [of prev cur] by (auto simp: not_le not_less)
next
  case False
  then have "cpu_percent_of prev cur = Fin 0" by (rule cpu_percent_zero)
  moreover have "\<not> (cpu_total prev < cpu_total cur \<and> idle_total cur = idle_total prev)"
    using False by auto
  ultimately show ?thesis by auto
qed

definition stat_before :: cpu_stat where "stat_before = cpu_stat_of [100, 0, 50, 800, 50]"
definition stat_after :: cpu_stat where "stat_after = cpu_stat_of [150, 0, 75, 800, 50]"

theorem cpu_percentage_bounds_witness: "cpu_percent_of stat_before stat_after = Fin 100"
proof -
  have v: "cpu_total stat_before < cpu_total stat_after" "idle_total stat_after = idle_total stat_before"
    by code_simp+
  show ?thesis using cpu_percentage_bounds [of stat_before stat_after] v by auto
qed

subsection \<open>/proc/<pid>/stat\<close>

lemma parse_u64_digits: "parse_u64 (uint_digits (uint w)) = Inr w"
proof -
  have "uint w < 2 ^ 64" "0 \<le> uint w" using uint_lt2p [of w] by simp_all
  then have "parse_uint (uint_digits (uint w)) = Inr (uint w)" by (intro parse_uint_uint_digits)
  then show ?thesis by (simp add: parse_u64_def)
qed

lemma fields_by_lead: "p c \<Longrightarrow> fields_by p (c # s) = fields_by p s"
  by (simp add: fields_by_def)

lemma fields_by_from_trail: "p c \<Longrightarrow> fields_by_from p acc (s @ [c]) = fields_by_from p acc s"
  by (induction s arbitrary: acc) auto

lemma fields_by_trail: "p c \<Longrightarrow> fields_by p (s @ [c]) = fields_by p s"
  by (simp add: fields_by_def fields_by_from_trail)

text \<open>Words: what stands between white space in a /proc file.\<close>

definition plain_word :: "string \<Rightarrow> bool" where
  "plain_word w \<longleftrightarrow> w \<noteq> [] \<and> is_ascii w \<and> (\<forall>c \<in> set w. \<not> ascii_space c)"

lemma is_ascii_join: "is_ascii sep \<Longrightarrow> \<forall>w \<in> set ws. is_ascii w \<Longrightarrow> is_ascii (join sep ws)"
  by (induction sep ws rule: join.induct) auto

lemma set_join: "set (join sep ws) \<subseteq> set sep \<union> \<Union> (set ` set ws)"
  by (induction sep ws rule: join.induct) auto

lemma fields_words:
  assumes "\<forall>w \<in> set ws. plain_word w"
  shows "Go_Strings.fields (CHR '' '' # join '' '' ws @ [newline]) = ws"
proof -
  have a: "is_ascii (CHR '' '' # join '' '' ws @ [newline])"
    using assms by (simp add: is_ascii_join plain_word_def)
  have sp: "ascii_space (CHR '' '')" "ascii_space newline" by (simp_all add: ascii_space_def)
  have "fields_by ascii_space (CHR '' '' # join '' '' ws @ [newline]) = fields_by ascii_space (join '' '' ws)"
    using fields_by_trail [of ascii_space newline "join '' '' ws"] sp by (simp add: fields_by_lead)
  also have "\<dots> = ws" using assms sp by (intro fields_by_join) (auto simp: plain_word_def)
  finally show ?thesis using a by (simp add: fields_ascii)
qed

lemma trim_trailing_space:
  assumes "plain_word s"
  shows "trim_space (s @ '' '') = s"
proof -
  have l: "trim_left (s @ '' '') = s @ '' ''"
    using assms by (intro trim_left_no_space) (cases s; simp add: plain_word_def space_len_ascii)
  have a: "is_ascii (rev (s @ '' ''))" using assms by (simp add: plain_word_def is_ascii_def)
  have r: "trim_rev (rev s) = rev s"
  proof (rule trim_rev_no_space)
    obtain c t where "rev s = c # t" using assms by (cases "rev s") (auto simp: plain_word_def)
    moreover have "c \<in> set s" using calculation by (metis list.set_intros(1) set_rev)
    moreover have "is_ascii (rev s)" using assms by (simp add: plain_word_def is_ascii_def)
    ultimately show "rev s = [] \<or> rspace_len (rev s) = 0"
      using assms by (simp add: rspace_len_ascii plain_word_def)
  qed
  have "rspace_len (CHR '' '' # rev s) = 1" using a rspace_len_ascii [of "CHR '' ''" "rev s"] by (simp add: ascii_space_def)
  then have "trim_rev (CHR '' '' # rev s) = trim_rev (rev s)" by (simp add: trim_rev.simps(2))
  then show ?thesis using l r by (simp add: trim_space_def)
qed

lemma digit_ascii: "is_digit c \<Longrightarrow> (of_char c :: nat) < 128"
proof -
  assume "is_digit c"
  then have "(of_char c :: int) < 128" by (simp add: is_digit_def)
  then show ?thesis by (metis of_nat_less_iff of_nat_numeral of_nat_of_char)
qed

lemma itoa_plain: "plain_word (itoa i)"
proof -
  have "c = CHR ''-'' \<or> is_digit c" if "c \<in> set (itoa i)" for c
    using that uint_digits_digits [of i c] uint_digits_digits [of "- i" c] by (auto simp: itoa_def split: if_splits)
  then show ?thesis
    using digit_ascii is_digit_not_space
    by (fastforce simp: plain_word_def is_ascii_def itoa_def ascii_space_def)
qed

lemma itoa_no_paren: "CHR ''('' \<notin> set (itoa i)"
proof
  assume "CHR ''('' \<in> set (itoa i)"
  then have "is_digit (CHR ''('')"
    using uint_digits_digits [of i "CHR ''(''"] uint_digits_digits [of "- i" "CHR ''(''"]
    by (auto simp: itoa_def split: if_splits)
  then show False by (simp add: is_digit_def)
qed

lemma drop_past: "drop (length xs + 1) (xs @ c # t) = t"
  by simp

definition stat_line :: "int \<Rightarrow> string \<Rightarrow> string list \<Rightarrow> string" where
  "stat_line pid name rest = itoa pid @ '' ('' @ name @ '') '' @ join '' '' rest @ [newline]"

text \<open>
  C37. A process cannot hide behind its name. Whatever bytes a process has put in its name, parentheses
  and spaces included, the parser of the line the kernel writes for it returns its pid, exactly that
  name, user plus system ticks and its resident bytes, at 64 bits.
\<close>
theorem proc_stat_any_name:
  assumes "in_int64 pid" "22 \<le> length rest" "\<forall>w \<in> set rest. plain_word w \<and> CHR '')'' \<notin> set w"
    "rest ! 11 = uint_digits (uint utime)" "rest ! 12 = uint_digits (uint stime)" "rest ! 21 = uint_digits (uint rss)"
  shows "parse_proc_stat (stat_line pid name rest) =
    Inr \<lparr>ps_pid = pid, ps_name = name, ps_cpu_ticks = utime + stime, ps_rss_bytes = rss * 4096\<rparr>"
proof -
  let ?tail = "CHR '' '' # join '' '' rest @ [newline]"
  let ?op = "length (itoa pid @ '' '')" and ?cl = "length (itoa pid @ '' ('' @ name)"
  have d1: "stat_line pid name rest = (itoa pid @ '' '') @ CHR ''('' # (name @ '') '' @ join '' '' rest @ [newline])"
    by (simp add: stat_line_def)
  have d2: "stat_line pid name rest = (itoa pid @ '' ('' @ name) @ CHR '')'' # ?tail"
    by (simp add: stat_line_def)
  have "CHR ''('' \<notin> set (itoa pid @ '' '')" using itoa_no_paren by simp
  then have i: "index_byte (stat_line pid name rest) (CHR ''('') = Some ?op"
    unfolding d1 by (rule index_byte_append)
  have "CHR '')'' \<notin> set ?tail" using set_join [of "'' ''" rest] assms(3) by auto
  then have l: "last_index_byte (stat_line pid name rest) (CHR '')'') = Some ?cl"
    unfolding d2 by (rule last_index_byte_append)
  have t: "take ?op (stat_line pid name rest) = itoa pid @ '' ''" unfolding d1 by simp
  have n: "take (?cl - (?op + 1)) (drop (?op + 1) (stat_line pid name rest)) = name"
    unfolding d1 by simp
  have r: "Go_Strings.fields (drop (?cl + 1) (stat_line pid name rest)) = rest"
    unfolding d2 drop_past using assms(3) by (intro fields_words) simp
  have p: "parse_int (trim_space (itoa pid @ '' '')) = Inr pid"
    using trim_trailing_space [OF itoa_plain] parse_int_itoa [OF assms(1)] by simp
  have "parse_stat_fields pid name rest =
      Inr \<lparr>ps_pid = pid, ps_name = name, ps_cpu_ticks = utime + stime, ps_rss_bytes = rss * 4096\<rparr>"
    using assms(2,4-6) by (simp add: parse_stat_fields_def parse_u64_digits bytesPerPage_def)
  moreover have "\<not> ?cl < ?op" by simp
  ultimately show ?thesis using i l t n r p unfolding parse_proc_stat_def by (simp only: option.case prod.case if_False sum.case)
qed

definition hostile_fields :: "string list" where
  "hostile_fields = ''S'' # replicate 10 ''0'' @ [''7'', ''5''] @ replicate 8 ''0'' @ [''3'', ''0'']"

theorem proc_stat_any_name_witness:
  "parse_proc_stat (stat_line 42 '') 1 (sh'' hostile_fields) =
     Inr \<lparr>ps_pid = 42, ps_name = '') 1 (sh'', ps_cpu_ticks = 12, ps_rss_bytes = 12288\<rparr>"
proof -
  have f: "22 \<le> length hostile_fields" "\<forall>w \<in> set hostile_fields. plain_word w \<and> CHR '')'' \<notin> set w"
    "hostile_fields ! 11 = uint_digits (uint (7 :: uint64))" "hostile_fields ! 12 = uint_digits (uint (5 :: uint64))"
    "hostile_fields ! 21 = uint_digits (uint (3 :: uint64))" "in_int64 42"
    by (code_simp, code_simp, code_simp, code_simp, code_simp, code_simp)
  show ?thesis using proc_stat_any_name [OF f(6,1-5), of "'') 1 (sh''"] by simp
qed

subsection \<open>/proc/meminfo\<close>

definition mem_line :: "string \<times> uint64 \<Rightarrow> string" where
  "mem_line kv = fst kv @ '':       '' @ uint_digits (uint (snd kv)) @ '' kB''"

definition meminfo_text :: "(string \<times> uint64) list \<Rightarrow> string" where
  "meminfo_text kvs = concat (map (\<lambda>kv. mem_line kv @ [newline]) kvs)"

text \<open>What \<open>parseMemInfo\<close> should answer: two lookups in the table.\<close>

definition meminfo_lookup :: "(string \<times> uint64) list \<Rightarrow> (uint64 \<times> uint64) result" where
  "meminfo_lookup kvs = (case (map_of kvs ''MemTotal'', map_of kvs ''MemAvailable'') of
     (Some t, Some a) \<Rightarrow> Inr (t, a)
   | (Some t, None) \<Rightarrow> Inl ''MemAvailable not found in /proc/meminfo''
   | (None, _) \<Rightarrow> Inl ''MemTotal not found in /proc/meminfo'')"

lemma digits_plain: "plain_word (uint_digits (uint (w :: uint64)))"
  using itoa_plain [of "uint w"] unsigned_greater_eq [of w] by (simp add: itoa_def not_less [symmetric])

lemma fields_by_from_spaces:
  "\<forall>c \<in> set sp. p c \<Longrightarrow> fields_by_from p [] (sp @ s) = fields_by_from p [] s"
  by (induction sp) auto

lemma mem_line_fields:
  assumes "plain_word (fst kv)"
  shows "Go_Strings.fields (mem_line kv) = [fst kv @ '':'', uint_digits (uint (snd kv)), ''kB'']"
proof -
  let ?d = "uint_digits (uint (snd kv))"
  have a: "is_ascii (mem_line kv)" using assms digits_plain by (simp add: mem_line_def plain_word_def)
  have sp: "ascii_space (CHR '' '')" by (simp add: ascii_space_def)
  have k: "\<forall>c \<in> set (fst kv @ '':''). \<not> ascii_space c" using assms by (auto simp: plain_word_def ascii_space_def)
  have d: "\<forall>c \<in> set ?d. \<not> ascii_space c" "?d \<noteq> []" using digits_plain [of "snd kv"] by (auto simp: plain_word_def)
  have "fields_by_from ascii_space [] ((fst kv @ '':'') @ ''       '' @ ?d @ '' kB'') =
      (fst kv @ '':'') # fields_by_from ascii_space [] (''      '' @ ?d @ '' kB'')"
    using fields_by_from_word [OF k, of "[]" "''       '' @ ?d @ '' kB''"] sp by simp
  also have "fields_by_from ascii_space [] (''      '' @ ?d @ '' kB'') = fields_by_from ascii_space [] (?d @ '' kB'')"
    by (rule fields_by_from_spaces) (simp add: sp)
  also have "\<dots> = ?d # fields_by_from ascii_space [] ''kB''"
    using fields_by_from_word [OF d(1), of "[]" "'' kB''"] d(2) sp by simp
  also have "fields_by_from ascii_space [] ''kB'' = [''kB'']" by (simp add: ascii_space_def)
  finally show ?thesis using a by (simp add: fields_ascii fields_by_def mem_line_def)
qed

lemma trim_suffix_append: "trim_suffix (s @ p) p = s"
  by (simp add: trim_suffix_def trim_prefix_def)

definition seen :: "'a option \<Rightarrow> string \<Rightarrow> (string \<times> 'a) list \<Rightarrow> 'a option" where
  "seen old k kvs = (case old of Some v \<Rightarrow> Some v | None \<Rightarrow> map_of kvs k)"

lemma parse_mem_line:
  assumes "plain_word k"
  shows "parse_mem_lines t a (mem_line (k, v) # ls) =
    (if k = ''MemTotal'' then if a \<noteq> None then Inr (Some v, a) else parse_mem_lines (Some v) a ls
     else if k = ''MemAvailable'' then if t \<noteq> None then Inr (t, Some v) else parse_mem_lines t (Some v) ls
     else parse_mem_lines t a ls)"
  using mem_line_fields [of "(k, v)"] assms by (simp add: parse_u64_digits trim_suffix_append Let_def)

lemma parse_mem_lines_table:
  "\<forall>kv \<in> set kvs. plain_word (fst kv) \<Longrightarrow> distinct (map fst kvs) \<Longrightarrow>
   (t \<noteq> None \<Longrightarrow> ''MemTotal'' \<notin> fst ` set kvs) \<Longrightarrow> (a \<noteq> None \<Longrightarrow> ''MemAvailable'' \<notin> fst ` set kvs) \<Longrightarrow>
   t = None \<or> a = None \<Longrightarrow>
   parse_mem_lines t a (map mem_line kvs @ [[]]) = Inr (seen t ''MemTotal'' kvs, seen a ''MemAvailable'' kvs)"
proof (induction kvs arbitrary: t a)
  case Nil
  have "Go_Strings.fields [] = []" by (simp add: Go_Strings.fields_def)
  then show ?case by (auto simp: seen_def split: option.splits)
next
  case (Cons kv kvs)
  obtain k v where kv: "kv = (k, v)" by (rule prod.exhaust)
  have k: "plain_word k" "k \<notin> fst ` set kvs" "distinct (map fst kvs)" "\<forall>kv \<in> set kvs. plain_word (fst kv)"
    using Cons.prems(1,2) by (simp_all add: kv image_iff)
  show ?case
  proof (cases "k = ''MemTotal''")
    case True
    then have "t = None" using Cons.prems(3) kv by (cases t) auto
    then show ?thesis
      using Cons.IH [of "Some v" a] Cons.prems(4) k True
      by (cases a) (simp_all add: kv parse_mem_line seen_def del: parse_mem_lines.simps)
  next
    case tot: False
    show ?thesis
    proof (cases "k = ''MemAvailable''")
      case True
      then have "a = None" using Cons.prems(4) kv by (cases a) auto
      then show ?thesis
        using Cons.IH [of t "Some v"] Cons.prems(3) k True tot
        by (cases t) (simp_all add: kv parse_mem_line seen_def del: parse_mem_lines.simps)
    next
      case False
      then show ?thesis
        using Cons.IH [of t a] Cons.prems(3-5) k tot False
        by (cases t; cases a) (simp_all add: kv parse_mem_line seen_def del: parse_mem_lines.simps)
    qed
  qed
qed

lemma plain_word_newline: "plain_word w \<Longrightarrow> newline \<notin> set w"
  by (auto simp: plain_word_def ascii_space_def)

lemma split_meminfo:
  "\<forall>kv \<in> set kvs. plain_word (fst kv) \<Longrightarrow> split_char newline (meminfo_text kvs) = map mem_line kvs @ [[]]"
proof (induction kvs)
  case (Cons kv kvs)
  have "newline \<notin> set (mem_line kv)"
    using Cons.prems plain_word_newline [of "fst kv"] plain_word_newline [OF digits_plain [of "snd kv"]]
    by (simp add: mem_line_def)
  then have "split_char newline (mem_line kv @ newline # meminfo_text kvs) = mem_line kv # split_char newline (meminfo_text kvs)"
    by (rule split_char_append)
  then show ?case using Cons by (simp add: meminfo_text_def)
qed (simp add: meminfo_text_def)

text \<open>
  Memory figures. On the table the kernel prints, whatever other entries it has and in whatever
  order they stand, the parser that stops at the second figure answers what the two lookups by name
  answer: both figures, or the error naming the missing one.
\<close>
theorem meminfo_is_lookup:
  assumes "\<forall>kv \<in> set kvs. plain_word (fst kv)" "distinct (map fst kvs)"
  shows "parse_mem_info (meminfo_text kvs) = meminfo_lookup kvs"
proof -
  have "parse_mem_lines None None (split_char newline (meminfo_text kvs)) =
      Inr (map_of kvs ''MemTotal'', map_of kvs ''MemAvailable'')"
    using parse_mem_lines_table [OF assms, of None None] by (simp add: split_meminfo [OF assms(1)] seen_def)
  then show ?thesis by (simp add: parse_mem_info_def meminfo_lookup_def split: option.splits)
qed

definition small_host :: "(string \<times> uint64) list" where
  "small_host = [(''MemTotal'', 2048), (''MemFree'', 100), (''MemAvailable'', 512), (''Buffers'', 7)]"

theorem meminfo_is_lookup_witness: "parse_mem_info (meminfo_text small_host) = Inr (2048, 512)"
proof -
  have h: "\<forall>kv \<in> set small_host. plain_word (fst kv)" "distinct (map fst small_host)" by (code_simp, code_simp)
  show ?thesis using meminfo_is_lookup [OF h] by (simp add: meminfo_lookup_def small_host_def)
qed

end
