(* ===== verification/Service_Checkers.thy ===== *)
theory Service_Checkers
  imports Proc_Parsers Go_Json_Map
begin

text \<open>
  The service probes of internal/collector: docker.go, systemd.go, pm2.go and cron.go. Each runs a
  local tool and turns its output into service statuses; a missing tool or a failing command is no
  services and no error. The tools are the host's: \<open>host\<close> says which are installed and what each
  command prints (\<open>None\<close> for a failing one). \<open>host_json\<close> reads JSON text, which is outside the model.
\<close>

record host =
  host_os :: string
  look_path :: "string \<Rightarrow> bool"
  exec_output :: "string list \<Rightarrow> string option"
  host_json :: "string \<Rightarrow> json option"

text \<open>The opening every \<open>Check\<close> shares; \<open>f\<close> reads the output.\<close>

definition run_tool :: "host \<Rightarrow> string list \<Rightarrow> (string \<Rightarrow> service_status list) \<Rightarrow> service_status list result" where
  "run_tool h cmd f =
     (if host_os h \<noteq> ''linux'' then Inr []
      else if \<not> look_path h (hd cmd) then Inr []
      else case exec_output h cmd of None \<Rightarrow> Inr [] | Some out \<Rightarrow> Inr (f out))"

subsection \<open>Docker\<close>

record docker_container =
  dc_name :: string
  dc_image :: string
  dc_status :: string
  dc_ports :: string
  dc_id :: string
  dc_running :: bool

definition tab :: char where "tab = CHR 0x09"

definition docker_row :: "string \<Rightarrow> docker_container option" where
  "docker_row line =
     (if trim_space line = [] then None
      else let parts = split_char tab line
      in if length parts < 5 then None
         else let name = trim_space (parts ! 0); id = trim_space (parts ! 4)
         in if name = [] \<or> id = [] then None
            else let status = trim_space (parts ! 2)
            in Some \<lparr>dc_name = name, dc_image = trim_space (parts ! 1), dc_status = status,
                     dc_ports = trim_space (parts ! 3), dc_id = id, dc_running = has_prefix status ''Up ''\<rparr>)"

definition parse_docker_ps :: "string \<Rightarrow> docker_container list" where
  "parse_docker_ps output = List.map_filter docker_row (scan_lines output)"

definition docker_format :: string where
  "docker_format = ''{{.Names}}'' @ [tab] @ ''{{.Image}}'' @ [tab] @ ''{{.Status}}'' @ [tab] @ ''{{.Ports}}'' @ [tab] @ ''{{.ID}}''"

definition docker_check :: "host \<Rightarrow> time \<Rightarrow> service_status list result" where
  "docker_check h now = run_tool h [''docker'', ''ps'', ''-a'', ''--format'', docker_format]
     (\<lambda>out. map (\<lambda>c. \<lparr>ss_kind = ServiceKindDocker, ss_name = dc_name c, ss_running = dc_running c,
                      ss_detail = dc_status c, ss_last_check = now\<rparr>) (parse_docker_ps out))"

subsection \<open>systemd\<close>

record systemd_unit =
  su_name :: string
  su_load :: string
  su_active :: string
  su_sub :: string

text \<open>The black circle U+25CF in UTF-8.\<close>

definition bullet :: string where "bullet = [CHR 0xE2, CHR 0x97, CHR 0x8F]"

definition systemd_row :: "string \<Rightarrow> systemd_unit option" where
  "systemd_row text =
     (let line = trim_space text
      in if line = [] then None
         else let fs = Go_Strings.fields line;
                  fs' = (if 0 < length fs \<and> hd fs = bullet then tl fs else fs)
         in if length fs' < 4 then None
            else Some \<lparr>su_name = fs' ! 0, su_load = fs' ! 1, su_active = fs' ! 2, su_sub = fs' ! 3\<rparr>)"

definition parse_systemd_units :: "string \<Rightarrow> systemd_unit list" where
  "parse_systemd_units output = List.map_filter systemd_row (scan_lines output)"

definition systemd_check :: "host \<Rightarrow> time \<Rightarrow> service_status list result" where
  "systemd_check h now = run_tool h [''systemctl'', ''list-units'', ''--type=service'', ''--all'', ''--no-legend'',
       ''--no-pager'', ''--plain'']
     (\<lambda>out. map (\<lambda>u. \<lparr>ss_kind = ServiceKindSystemd, ss_name = su_name u, ss_running = (su_active u = ''active''),
                      ss_detail = su_active u @ ''/'' @ su_sub u, ss_last_check = now\<rparr>) (parse_systemd_units out))"

subsection \<open>PM2\<close>

record pm2_process =
  pm_name :: string
  pm_status :: string
  pm_pid :: int
  pm_id :: int

fun any_int :: "json option \<Rightarrow> int option" where
  "any_int (Some (JNum x)) = Some (f_to_int64 (Fin x))"
| "any_int (Some (JStr s)) = (case parse_int s of Inl e \<Rightarrow> None | Inr i \<Rightarrow> Some i)"
| "any_int _ = None"

text \<open>The failed type assertion \<open>x, _ := v.(string)\<close> gives the empty string.\<close>

fun any_string :: "json option \<Rightarrow> string" where
  "any_string (Some (JStr s)) = s"
| "any_string _ = []"

text \<open>\<open>json.Unmarshal\<close> into \<open>[]map[string]any\<close>: \<open>None\<close> when it fails.\<close>

fun decode_maps :: "json list \<Rightarrow> (string \<times> json) list list option" where
  "decode_maps [] = Some []"
| "decode_maps (JObj kvs # js) =
     (case (to_any_pairs kvs, decode_maps js) of (Some m, Some ms) \<Rightarrow> Some (m # ms) | _ \<Rightarrow> None)"
| "decode_maps (JNull # js) = map_option (\<lambda>ms. [] # ms) (decode_maps js)"
| "decode_maps (_ # js) = None"

fun decode_map_slice :: "json \<Rightarrow> (string \<times> json) list list option" where
  "decode_map_slice (JArr js) = decode_maps js"
| "decode_map_slice JNull = Some []"
| "decode_map_slice _ = None"

definition pm2_item :: "(string \<times> json) list \<Rightarrow> pm2_process option" where
  "pm2_item item =
     (let name = any_string (obj_get item ''name''); pid = any_int (obj_get item ''pid'')
      in case (obj_get item ''pm2_env'', pid) of
           (Some (JObj env), Some p) \<Rightarrow>
             if name = [] then None
             else let status = any_string (obj_get env ''status'')
             in (case any_int (obj_get env ''pm_id'') of
                   None \<Rightarrow> None
                 | Some i \<Rightarrow> if status = [] then None
                            else Some \<lparr>pm_name = name, pm_status = status, pm_pid = p, pm_id = i\<rparr>)
         | _ \<Rightarrow> None)"

definition parse_pm2_jlist :: "json option \<Rightarrow> pm2_process list" where
  "parse_pm2_jlist doc =
     (case doc of
        None \<Rightarrow> []
      | Some j \<Rightarrow> (case decode_map_slice j of None \<Rightarrow> [] | Some raw \<Rightarrow> List.map_filter pm2_item raw))"

definition pm2_check :: "host \<Rightarrow> time \<Rightarrow> service_status list result" where
  "pm2_check h now = run_tool h [''pm2'', ''jlist'']
     (\<lambda>out. map (\<lambda>p. \<lparr>ss_kind = ServiceKindPM2, ss_name = pm_name p, ss_running = (pm_status p = ''online''),
                      ss_detail = pm_status p, ss_last_check = now\<rparr>) (parse_pm2_jlist (host_json h out)))"

subsection \<open>cron\<close>

record cron_job =
  cj_schedule :: string
  cj_command :: string
  cj_enabled :: bool

definition cron_row :: "string \<Rightarrow> cron_job option" where
  "cron_row text =
     (let line = trim_space text
      in if line = [] then None
         else let is_comment = has_prefix line ''#''
         in if is_comment \<and> \<not> contains line '' *'' \<and> \<not> contains line (tab # ''*'') then None
            else let content = (if is_comment then trim_space (trim_prefix line ''#'') else line);
                     parts = splitn_char (CHR '' '') 5 content
            in if length parts < 6 then None
               else Some \<lparr>cj_schedule = join '' '' (take 5 parts), cj_command = parts ! 5, cj_enabled = (\<not> is_comment)\<rparr>)"

definition parse_crontab :: "string \<Rightarrow> cron_job list" where
  "parse_crontab output = List.map_filter cron_row (scan_lines output)"

definition cron_status :: "time \<Rightarrow> nat \<times> cron_job \<Rightarrow> service_status" where
  "cron_status now ij =
     (let (i, j) = ij
      in \<lparr>ss_kind = ServiceKindCron,
          ss_name = (if cj_command j = [] then ''cron-job-'' @ itoa (int i + 1) else cj_command j),
          ss_running = cj_enabled j, ss_detail = cj_schedule j, ss_last_check = now\<rparr>)"

definition cron_check :: "host \<Rightarrow> time \<Rightarrow> service_status list result" where
  "cron_check h now = run_tool h [''crontab'', ''-l''] (\<lambda>out. map (cron_status now) (List.enumerate 0 (parse_crontab out)))"

text \<open>The collector's list of checkers, with their kinds, in the order of \<open>New\<close>.\<close>

definition checkers :: "(service_kind \<times> (host \<Rightarrow> time \<Rightarrow> service_status list result)) list" where
  "checkers = [(ServiceKindDocker, docker_check), (ServiceKindSystemd, systemd_check), (ServiceKindPM2, pm2_check),
     (ServiceKindCron, cron_check)]"

end
