(* ===== verification/Service_Claims.thy ===== *)
theory Service_Claims
  imports Service_Checkers Proc_Claims
begin

text \<open>What the service probes report, stated over the output of the tools.\<close>

text \<open>An entry of a crontab as an operator writes it, and its line, commented out when disabled.\<close>

definition cron_line :: "cron_job \<times> string list \<Rightarrow> string" where
  "cron_line jw = (if cj_enabled (fst jw) then [] else ''# '') @ join '' '' (snd jw) @ '' '' @ cj_command (fst jw)"

definition crontab_text :: "(cron_job \<times> string list) list \<Rightarrow> string" where
  "crontab_text jws = concat (map (\<lambda>jw. cron_line jw @ [newline]) jws)"

text \<open>Five schedule words and a command; a disabled entry is recognised by a field starting with a star.\<close>

definition cron_entry_ok :: "cron_job \<times> string list \<Rightarrow> bool" where
  "cron_entry_ok jw \<longleftrightarrow>
     (let j = fst jw; ws = snd jw
      in length ws = 5 \<and> list_all plain_word ws \<and> hd (hd ws) \<noteq> CHR ''#'' \<and> cj_schedule j = join '' '' ws \<and>
         cj_command j \<noteq> [] \<and> is_ascii (cj_command j) \<and> newline \<notin> set (cj_command j) \<and>
         \<not> ascii_space (hd (cj_command j)) \<and> \<not> ascii_space (last (cj_command j)) \<and>
         (cj_enabled j \<or> list_ex (\<lambda>w. hd w = CHR ''*'') ws) \<and> length (cron_line jw) < 65536)"

lemma splitn_char_words:
  "\<forall>w \<in> set ws. c \<notin> set w \<Longrightarrow> ws \<noteq> [] \<Longrightarrow> splitn_char c (length ws) (join [c] ws @ c # r) = ws @ [r]"
proof (induction ws rule: induct_list012)
  case (2 w)
  then have "\<forall>x \<in> set w. x \<noteq> c" by auto
  then show ?case by (simp add: take_while_append_stop drop_while_append_stop)
next
  case (3 w v ws)
  then have "\<forall>x \<in> set w. x \<noteq> c" by auto
  then have "takeWhile (\<lambda>x. x \<noteq> c) (w @ c # join [c] (v # ws) @ c # r) = w"
    "dropWhile (\<lambda>x. x \<noteq> c) (w @ c # join [c] (v # ws) @ c # r) = c # join [c] (v # ws) @ c # r"
    by (simp_all add: take_while_append_stop drop_while_append_stop)
  then show ?case using 3 by simp
qed simp

lemma trim_leading_space: "is_ascii s \<Longrightarrow> trim_space (CHR '' '' # s) = trim_space s"
  using space_len_ascii [of "CHR '' ''" s]
  by (simp add: trim_space_def trim_left.simps(2) ascii_space_def)

lemma scan_lines_text:
  assumes "\<forall>l \<in> set ls. newline \<notin> set l \<and> l \<noteq> [] \<and> \<not> ascii_space (last l) \<and> length l < 65536"
  shows "scan_lines (concat (map (\<lambda>l. l @ [newline]) ls)) = ls"
proof -
  have s: "split_char newline (concat (map (\<lambda>l. l @ [newline]) ls)) = ls @ [[]]"
    using assms by (induction ls) (simp_all add: split_char_append)
  have t: "takeWhile (\<lambda>l. length l < 65536) ls = ls"
    unfolding takeWhile_eq_all_conv using assms by blast
  have "map drop_cr ls = ls"
    using assms by (intro map_idI) (auto simp: drop_cr_def ascii_space_def)
  then show ?thesis by (simp only: scan_lines_def s Let_def t last_snoc butlast_snoc if_True simp_thms)
qed

lemma has_prefix_one: "s \<noteq> [] \<Longrightarrow> has_prefix s [c] \<longleftrightarrow> hd s = c"
  by (cases s) (simp_all add: has_prefix_def)

lemma joined_words:
  assumes "list_all plain_word ws" "ws \<noteq> []"
  shows "is_ascii (join '' '' ws)" "join '' '' ws \<noteq> []" "hd (join '' '' ws) = hd (hd ws)" "newline \<notin> set (join '' '' ws)"
proof -
  have p: "\<forall>w \<in> set ws. plain_word w" using assms(1) by (simp add: list_all_iff)
  then show "is_ascii (join '' '' ws)" by (simp add: is_ascii_join plain_word_def)
  obtain w vs where ws: "ws = w # vs" using assms(2) by (cases ws) auto
  then have "w \<noteq> []" using p by (simp add: plain_word_def)
  then show "join '' '' ws \<noteq> []" "hd (join '' '' ws) = hd (hd ws)" using ws by (cases vs; simp)+
  show "newline \<notin> set (join '' '' ws)" using set_join [of "'' ''" ws] p plain_word_newline by fastforce
qed

lemma join_member: "w \<in> set ws \<Longrightarrow> \<exists>a b. '' '' @ join '' '' ws = a @ '' '' @ w @ b"
proof (induction ws rule: induct_list012)
  case (3 v u ws)
  then consider "w = v" | "w \<in> set (u # ws)" by auto
  then show ?case
  proof cases
    case 2
    then obtain a b where "'' '' @ join '' '' (u # ws) = a @ '' '' @ w @ b" using 3 by auto
    then have "'' '' @ join '' '' (v # u # ws) = ('' '' @ v @ a) @ '' '' @ w @ b" by simp
    then show ?thesis by blast
  qed (intro exI [of _ "[]"] exI, simp)
qed (auto intro: exI [of _ "[]"])

lemma cron_row_line:
  assumes "cron_entry_ok jw"
  shows "cron_row (cron_line jw) = Some (fst jw)"
proof -
  obtain j ws where jw: "jw = (j, ws)" by (rule prod.exhaust)
  let ?body = "join '' '' ws @ '' '' @ cj_command j"
  have ok: "length ws = 5" "list_all plain_word ws" "hd (hd ws) \<noteq> CHR ''#''" "cj_schedule j = join '' '' ws"
    "cj_command j \<noteq> []" "is_ascii (cj_command j)" "\<not> ascii_space (last (cj_command j))"
    "cj_enabled j \<or> list_ex (\<lambda>w. hd w = CHR ''*'') ws"
    using assms by (simp_all add: cron_entry_ok_def jw)
  have ne: "ws \<noteq> []" using ok(1) by auto
  note jn = joined_words [OF ok(2) ne]
  have body: "is_ascii ?body" "?body \<noteq> []" "hd ?body = hd (hd ws)" "last ?body = last (cj_command j)"
    using jn ok by simp_all
  have "plain_word (hd ws)" using ok(2) ne by (simp add: list_all_iff)
  then have hs: "\<not> ascii_space (hd ?body)" unfolding body(3) by (simp add: plain_word_def)
  have tb: "trim_space ?body = ?body" using body hs ok(7) by (intro trim_space_id) (simp_all only: body(4) simp_thms)
  have parts: "splitn_char (CHR '' '') 5 ?body = ws @ [cj_command j]"
  proof -
    have "\<forall>w \<in> set ws. CHR '' '' \<notin> set w" using ok(2) by (auto simp: list_all_iff plain_word_def ascii_space_def)
    from splitn_char_words [OF this ne, of "cj_command j"] show ?thesis using ok(1) by simp
  qed
  have job: "\<lparr>cj_schedule = join '' '' (take 5 (ws @ [cj_command j])), cj_command = (ws @ [cj_command j]) ! 5,
      cj_enabled = e\<rparr> = j" if "e = cj_enabled j" for e
    using ok(1,4) that by (simp add: nth_append)
  show ?thesis
  proof (cases "cj_enabled j")
    case True
    then have l: "cron_line jw = ?body" by (simp add: cron_line_def jw)
    have "\<not> has_prefix ?body ''#''"
      using has_prefix_one [OF body(2), of "CHR ''#''"] body(3) ok(3) by argo
    then show ?thesis
      unfolding l cron_row_def tb Let_def using body(2) parts ok(1) job [of True] True by (simp add: jw)
  next
    case False
    then have l: "cron_line jw = CHR ''#'' # CHR '' '' # ?body" by (simp add: cron_line_def jw)
    have tl: "trim_space (cron_line jw) = cron_line jw"
      unfolding l using body ok(7) by (intro trim_space_id) (simp_all add: ascii_space_def)
    obtain w where "w \<in> set ws" "hd w = CHR ''*''" using ok(8) False by (auto simp: list_ex_iff)
    moreover then have "w \<noteq> []" using ok(2) by (auto simp: list_all_iff plain_word_def)
    ultimately obtain w' where w: "CHR ''*'' # w' \<in> set ws" by (metis list.collapse)
    obtain a b where "'' '' @ join '' '' ws = a @ '' '' @ (CHR ''*'' # w') @ b" using join_member [OF w] by blast
    then have "cron_line jw = (''#'' @ a) @ '' *'' @ (w' @ b @ '' '' @ cj_command j)" by (simp add: l)
    then have star: "contains (cron_line jw) '' *''" unfolding contains_iff by blast
    have pre: "has_prefix (cron_line jw) ''#''" by (simp add: l has_prefix_def)
    have cut: "trim_prefix (cron_line jw) ''#'' = CHR '' '' # ?body" by (simp add: l trim_prefix_def has_prefix_def)
    have content: "trim_space (CHR '' '' # ?body) = ?body" using trim_leading_space [OF body(1)] tb by simp
    show ?thesis
      unfolding cron_row_def tl Let_def using l star pre cut content parts ok(1) job [of False] False by (simp add: jw)
  qed
qed

lemma map_filter_all: "\<forall>x \<in> set xs. f x = Some (g x) \<Longrightarrow> List.map_filter f xs = map g xs"
  by (induction xs) (simp_all add: List.map_filter_simps)

lemma parse_crontab_text:
  assumes "\<forall>jw \<in> set jws. cron_entry_ok jw"
  shows "parse_crontab (crontab_text jws) = map fst jws"
proof -
  have l: "\<forall>l \<in> set (map cron_line jws). newline \<notin> set l \<and> l \<noteq> [] \<and> \<not> ascii_space (last l) \<and> length l < 65536"
  proof
    fix l
    assume "l \<in> set (map cron_line jws)"
    then obtain j ws where jw: "cron_entry_ok (j, ws)" "l = cron_line (j, ws)" using assms by auto
    then have "ws \<noteq> []" "list_all plain_word ws" by (auto simp: cron_entry_ok_def)
    with jw joined_words(4) [of ws] show "newline \<notin> set l \<and> l \<noteq> [] \<and> \<not> ascii_space (last l) \<and> length l < 65536"
      by (auto simp: cron_entry_ok_def cron_line_def)
  qed
  have "crontab_text jws = concat (map (\<lambda>l. l @ [newline]) (map cron_line jws))"
    by (simp add: crontab_text_def comp_def)
  then have "parse_crontab (crontab_text jws) = List.map_filter cron_row (map cron_line jws)"
    using scan_lines_text [OF l] by (simp add: parse_crontab_def)
  also have "\<dots> = List.map_filter (\<lambda>jw. cron_row (cron_line jw)) jws"
    by (induction jws) (simp_all add: List.map_filter_simps split: option.splits)
  finally show ?thesis using assms cron_row_line by (simp add: map_filter_all)
qed

text \<open>
  Cron jobs. From a crontab of any entries, each five schedule fields and a command, the probe
  reports every one in order, under its command, with its schedule, running exactly when the entry is
  not commented out. No crontab, a failing command or another system is no service and no error.
\<close>
theorem cron_jobs_reported:
  assumes "\<forall>jw \<in> set jws. cron_entry_ok jw"
  shows "(host_os h = ''linux'' \<and> look_path h ''crontab'' \<and> exec_output h [''crontab'', ''-l''] = Some (crontab_text jws) \<longrightarrow>
      cron_check h now =
        Inr (map (\<lambda>jw. \<lparr>ss_kind = ServiceKindCron, ss_name = cj_command (fst jw), ss_running = cj_enabled (fst jw),
                        ss_detail = cj_schedule (fst jw), ss_last_check = now\<rparr>) jws)) \<and>
    (host_os h \<noteq> ''linux'' \<or> \<not> look_path h ''crontab'' \<or> exec_output h [''crontab'', ''-l''] = None \<longrightarrow>
      cron_check h now = Inr [])"
proof -
  have "map (cron_status now) (List.enumerate n (map fst js)) =
      map (\<lambda>jw. \<lparr>ss_kind = ServiceKindCron, ss_name = cj_command (fst jw), ss_running = cj_enabled (fst jw),
                 ss_detail = cj_schedule (fst jw), ss_last_check = now\<rparr>) js"
    if "\<forall>jw \<in> set js. cron_entry_ok jw" for js n
    using that by (induction js arbitrary: n) (auto simp: cron_status_def cron_entry_ok_def Let_def)
  then show ?thesis
    using assms parse_crontab_text [OF assms] by (simp add: cron_check_def run_tool_def)
qed

definition sample_crontab :: "(cron_job \<times> string list) list" where
  "sample_crontab =
     [(\<lparr>cj_schedule = ''0 3 * * 1'', cj_command = ''backup --all /srv'', cj_enabled = True\<rparr>, [''0'', ''3'', ''*'', ''*'', ''1'']),
      (\<lparr>cj_schedule = ''5 4 * * *'', cj_command = ''rotate'', cj_enabled = False\<rparr>, [''5'', ''4'', ''*'', ''*'', ''*''])]"

definition cron_host :: host where
  "cron_host = \<lparr>host_os = ''linux'', look_path = (\<lambda>p. True), exec_output = (\<lambda>c. Some (crontab_text sample_crontab)),
     host_json = (\<lambda>s. None)\<rparr>"

theorem cron_jobs_reported_witness:
  "cron_check cron_host 7 = Inr
     [\<lparr>ss_kind = ''cron'', ss_name = ''backup --all /srv'', ss_running = True, ss_detail = ''0 3 * * 1'', ss_last_check = 7\<rparr>,
      \<lparr>ss_kind = ''cron'', ss_name = ''rotate'', ss_running = False, ss_detail = ''5 4 * * *'', ss_last_check = 7\<rparr>]"
proof -
  have "\<forall>jw \<in> set sample_crontab. cron_entry_ok jw"
    by (simp add: sample_crontab_def cron_entry_ok_def cron_line_def plain_word_def ascii_space_def)
  from cron_jobs_reported [OF this, of cron_host 7] show ?thesis
    by (simp add: cron_host_def sample_crontab_def ServiceKindCron_def)
qed

end
