(* ===== verification/Readers.thy ===== *)
theory Readers
  imports Service_Checkers
begin

text \<open>
  internal/collector/reader.go and \<open>gather\<close> of collector.go: the readers over /proc and statfs, the
  process table with its memory of the previous poll, and one sample assembled from all of them. The
  host's files, directory listing, statfs and clock are the fields of \<open>machine\<close>; a reader that
  samples a file twice reads it in \<open>mc_read\<close> and, after its sleep, in \<open>mc_read_later\<close>.
\<close>

record machine =
  mc_host :: host
  mc_now :: time
  mc_read :: "string \<Rightarrow> string result"
  mc_read_later :: "string \<Rightarrow> string result"
  mc_statfs :: "string \<Rightarrow> (uint64 \<times> uint64 \<times> uint64) result"
  mc_proc_dir :: "(string \<times> bool) list result"
  mc_proc_at :: time
  mc_check_at :: time

abbreviation on_linux :: "machine \<Rightarrow> bool" where "on_linux m \<equiv> host_os (mc_host m) = ''linux''"

subsection \<open>Load average, uptime, memory, disk\<close>

definition parse_f64 :: "string \<Rightarrow> string \<Rightarrow> float64 result" where
  "parse_f64 what s = (case parse_float s of
     Inl e \<Rightarrow> Inl (''parsing '' @ what @ '': '' @ conv_error ''ParseFloat'' s e) | Inr x \<Rightarrow> Inr x)"

definition load_avg_read :: "machine \<Rightarrow> (float64 \<times> float64 \<times> float64) result" where
  "load_avg_read m =
     (if \<not> on_linux m then Inr (Fin 0, Fin 0, Fin 0)
      else case mc_read m ''/proc/loadavg'' of
        Inl e \<Rightarrow> Inl (''reading /proc/loadavg: '' @ e)
      | Inr data \<Rightarrow>
          (let fs = Go_Strings.fields data
           in if length fs < 3 then Inl (''unexpected /proc/loadavg format: '' @ quote data)
              else case parse_f64 ''load1'' (fs ! 0) of
                Inl e \<Rightarrow> Inl e
              | Inr l1 \<Rightarrow>
                  (case parse_f64 ''load5'' (fs ! 1) of
                     Inl e \<Rightarrow> Inl e
                   | Inr l5 \<Rightarrow>
                       (case parse_f64 ''load15'' (fs ! 2) of
                          Inl e \<Rightarrow> Inl e
                        | Inr l15 \<Rightarrow> Inr (l1, l5, l15)))))"

definition uptime_read :: "machine \<Rightarrow> duration result" where
  "uptime_read m =
     (if \<not> on_linux m then Inr 0
      else case mc_read m ''/proc/uptime'' of
        Inl e \<Rightarrow> Inl (''reading /proc/uptime: '' @ e)
      | Inr data \<Rightarrow>
          (let fs = Go_Strings.fields data
           in if length fs < 1 then Inl (''unexpected /proc/uptime format: '' @ quote data)
              else case parse_f64 ''uptime seconds'' (fs ! 0) of
                Inl e \<Rightarrow> Inl e
              | Inr s \<Rightarrow> Inr (f_to_int64 (f_mul s (f_of_int second)))))"

definition memory_read :: "machine \<Rightarrow> (float64 \<times> float64) result" where
  "memory_read m =
     (if \<not> on_linux m then Inr (Fin 0, Fin 0)
      else case mc_read m ''/proc/meminfo'' of
        Inl e \<Rightarrow> Inl (''reading /proc/meminfo: '' @ e)
      | Inr data \<Rightarrow>
          (case parse_mem_info data of
             Inl e \<Rightarrow> Inl e
           | Inr (tkb, akb) \<Rightarrow>
               (let used = wrap_int64 (sint tkb - sint akb);
                    used' = (if used < 0 then 0 else used)
                in Inr (f_div (f_of_int used') (Fin 1024), f_div (f_of_uint64 tkb) (Fin 1024)))))"

definition disk_read :: "machine \<Rightarrow> string \<Rightarrow> (float64 \<times> float64) result" where
  "disk_read m path =
     (if \<not> on_linux m then Inr (Fin 0, Fin 0)
      else let p = (if path = [] then ''/'' else path)
      in case mc_statfs m p of
           Inl e \<Rightarrow> Inl (''statfs '' @ p @ '': '' @ e)
         | Inr (bsize, blocks, bavail) \<Rightarrow> Inr (calc_disk_usage bsize blocks bavail))"

subsection \<open>CPU and network\<close>

definition defaultCPUSampleInterval :: duration where "defaultCPUSampleInterval = 200 * millisecond"
definition defaultNetSampleInterval :: duration where "defaultNetSampleInterval = 200 * millisecond"

definition read_proc_stat_cpu :: "(string \<Rightarrow> string result) \<Rightarrow> cpu_stat result" where
  "read_proc_stat_cpu rd = (case rd ''/proc/stat'' of
     Inl e \<Rightarrow> Inl (''reading /proc/stat: '' @ e) | Inr data \<Rightarrow> parse_cpu_stat_line data)"

text \<open>\<open>CPUReader.Read\<close>; the interval only says how long the reader sleeps between the two files.\<close>

definition cpu_read :: "machine \<Rightarrow> float64 result" where
  "cpu_read m =
     (if \<not> on_linux m then Inr (Fin 0)
      else case read_proc_stat_cpu (mc_read m) of
        Inl e \<Rightarrow> Inl e
      | Inr a \<Rightarrow> (case read_proc_stat_cpu (mc_read_later m) of Inl e \<Rightarrow> Inl e | Inr b \<Rightarrow> Inr (cpu_percent_of a b)))"

definition read_proc_net_dev :: "(string \<Rightarrow> string result) \<Rightarrow> net_iface option result" where
  "read_proc_net_dev rd = (case rd ''/proc/net/dev'' of
     Inl e \<Rightarrow> Inl (''reading /proc/net/dev: '' @ e) | Inr data \<Rightarrow> Inr (parse_net_dev data))"

definition non_negative_delta :: "uint64 \<Rightarrow> uint64 \<Rightarrow> float64" where
  "non_negative_delta cur prev = (if cur < prev then Fin 0 else f_of_uint64 (cur - prev))"

definition net_read :: "duration \<Rightarrow> machine \<Rightarrow> (float64 \<times> float64) result" where
  "net_read sample_interval m =
     (if \<not> on_linux m then Inr (Fin 0, Fin 0)
      else let interval = (if sample_interval \<le> 0 then defaultNetSampleInterval else sample_interval)
      in case read_proc_net_dev (mc_read m) of
           Inl e \<Rightarrow> Inl e
         | Inr None \<Rightarrow> Inr (Fin 0, Fin 0)
         | Inr (Some a) \<Rightarrow>
             (case read_proc_net_dev (mc_read_later m) of
                Inl e \<Rightarrow> Inl e
              | Inr None \<Rightarrow> Inr (Fin 0, Fin 0)
              | Inr (Some b) \<Rightarrow>
                  (let elapsed = duration_seconds interval
                   in if f_le elapsed (Fin 0) then Inr (Fin 0, Fin 0)
                      else Inr (f_div (non_negative_delta (if_rx b) (if_rx a)) elapsed,
                                f_div (non_negative_delta (if_tx b) (if_tx a)) elapsed))))"

subsection \<open>Top processes\<close>

record top_reader =
  tr_previous :: "(int \<rightharpoonup> uint64) option"
  tr_read_at :: time

definition new_top_reader :: top_reader where
  "new_top_reader = \<lparr>tr_previous = None, tr_read_at = zero_time\<rparr>"

text \<open>One turn of the loop over the entries of /proc.\<close>

definition proc_entry :: "machine \<Rightarrow> string \<times> bool \<Rightarrow> proc_sample option" where
  "proc_entry m entry =
     (if \<not> snd entry then None
      else case parse_int (fst entry) of
        Inl _ \<Rightarrow> None
      | Inr _ \<Rightarrow>
          (case mc_read m (''/proc/'' @ fst entry @ ''/stat'') of
             Inl _ \<Rightarrow> None
           | Inr data \<Rightarrow> (case parse_proc_stat data of Inl _ \<Rightarrow> None | Inr s \<Rightarrow> Some s)))"

definition read_proc_samples :: "machine \<Rightarrow> proc_sample list result" where
  "read_proc_samples m =
     (case mc_proc_dir m of
        Inl e \<Rightarrow> Inl (''collector: reading /proc: '' @ e)
      | Inr entries \<Rightarrow> Inr (List.map_filter (proc_entry m) entries))"

definition ticks_by_pid :: "proc_sample list \<Rightarrow> (int \<rightharpoonup> uint64)" where
  "ticks_by_pid ss = foldl (\<lambda>cur s. cur(ps_pid s \<mapsto> ps_cpu_ticks s)) (\<lambda>_. None) ss"

definition process_row :: "bool \<Rightarrow> (int \<rightharpoonup> uint64) \<Rightarrow> float64 \<Rightarrow> proc_sample \<Rightarrow> process_info" where
  "process_row have_baseline previous elapsed s =
     (let cpu = (if have_baseline
                 then (case previous (ps_pid s) of
                         None \<Rightarrow> Fin 0 | Some prev \<Rightarrow> cpu_percent_between prev (ps_cpu_ticks s) elapsed)
                 else Fin 0)
      in \<lparr>pi_pid = ps_pid s, pi_name = ps_name s, pi_cpu_percent = cpu,
          pi_mem_mb = f_div (f_of_uint64 (ps_rss_bytes s)) (Fin 1048576)\<rparr>)"

text \<open>The \<open>less\<close> function passed to \<open>sort.Slice\<close>.\<close>

definition ranks_before :: "bool \<Rightarrow> process_info \<Rightarrow> process_info \<Rightarrow> bool" where
  "ranks_before have_baseline p q =
     (if have_baseline \<and> \<not> f_eq (pi_cpu_percent p) (pi_cpu_percent q)
      then f_gt (pi_cpu_percent p) (pi_cpu_percent q)
      else f_gt (pi_mem_mb p) (pi_mem_mb q))"

text \<open>
  \<open>sort.Slice\<close>. The library leaves the order of elements neither of which is less than the other
  open; this is the stable one.
\<close>

fun sort_insert :: "('a \<Rightarrow> 'a \<Rightarrow> bool) \<Rightarrow> 'a \<Rightarrow> 'a list \<Rightarrow> 'a list" where
  "sort_insert lt x [] = [x]"
| "sort_insert lt x (y # ys) = (if lt y x then y # sort_insert lt x ys else x # y # ys)"

definition sort_slice :: "('a \<Rightarrow> 'a \<Rightarrow> bool) \<Rightarrow> 'a list \<Rightarrow> 'a list" where
  "sort_slice lt xs = foldr (sort_insert lt) xs []"

definition top_rows :: "top_reader \<Rightarrow> time \<Rightarrow> proc_sample list \<Rightarrow> bool \<times> process_info list" where
  "top_rows r read_at ss =
     (let elapsed = duration_seconds (time_sub read_at (tr_read_at r));
          have_baseline = (tr_previous r \<noteq> None \<and> f_gt elapsed (Fin 0));
          previous = (case tr_previous r of None \<Rightarrow> (\<lambda>_. None) | Some p \<Rightarrow> p)
      in (have_baseline, map (process_row have_baseline previous elapsed) ss))"

definition top_processes_read :: "machine \<Rightarrow> int \<Rightarrow> top_reader \<Rightarrow> top_reader \<times> process_info list result" where
  "top_processes_read m n r =
     (if \<not> on_linux m then (r, Inr [])
      else let n' = (if n \<le> 0 then 5 else n)
      in case read_proc_samples m of
           Inl e \<Rightarrow> (r, Inl e)
         | Inr ss \<Rightarrow>
             (let (have_baseline, rows) = top_rows r (mc_proc_at m) ss;
                  procs = sort_slice (ranks_before have_baseline) rows
              in (\<lparr>tr_previous = Some (ticks_by_pid ss), tr_read_at = mc_proc_at m\<rparr>,
                  Inr (take (nat n') procs))))"

subsection \<open>One sample\<close>

definition or_zero :: "'a \<Rightarrow> 'a result \<Rightarrow> 'a" where
  "or_zero z r = (case r of Inl _ \<Rightarrow> z | Inr x \<Rightarrow> x)"

fun check_services :: "(service_kind \<times> (host \<Rightarrow> time \<Rightarrow> service_status list result)) list \<Rightarrow> machine \<Rightarrow> service_status list" where
  "check_services [] m = []"
| "check_services ((kind, check) # cs) m =
     (case check (mc_host m) (mc_check_at m) of Inl e \<Rightarrow> check_services cs m | Inr ss \<Rightarrow> ss @ check_services cs m)"

definition gather :: "string \<Rightarrow> machine \<Rightarrow> top_reader \<Rightarrow> top_reader \<times> sample" where
  "gather disk_path m r =
     (let (l1, l5, l15) = or_zero (Fin 0, Fin 0, Fin 0) (load_avg_read m);
          uptime = or_zero 0 (uptime_read m);
          (mem_used, mem_total) = or_zero (Fin 0, Fin 0) (memory_read m);
          (disk_used, disk_total) = or_zero (Fin 0, Fin 0) (disk_read m disk_path);
          cpu = or_zero (Fin 0) (cpu_read m);
          (rx, tx) = or_zero (Fin 0, Fin 0) (net_read 0 m);
          (r', procs) = top_processes_read m 5 r
      in (r', \<lparr>timestamp = mc_now m, cpu_percent = cpu, mem_used_mb = mem_used, mem_total_mb = mem_total,
               disk_used_gb = disk_used, disk_total_gb = disk_total, load_avg_1 = l1, load_avg_5 = l5,
               load_avg_15 = l15, uptime_seconds = f_to_int64 (duration_seconds uptime),
               net_rx_bytes_per_sec = rx, net_tx_bytes_per_sec = tx, top_processes = or_zero [] procs,
               services = check_services checkers m\<rparr>))"

text \<open>\<open>tick\<close>: the sample goes to every sink in order.\<close>

definition tick :: "(sample \<Rightarrow> 's \<Rightarrow> 's) list \<Rightarrow> string \<Rightarrow> machine \<Rightarrow> top_reader \<times> 's \<Rightarrow> top_reader \<times> 's" where
  "tick sinks disk_path m rs =
     (let (r', s) = gather disk_path m (fst rs) in (r', foldl (\<lambda>w sink. sink s w) (snd rs) sinks))"

end
