(* ===== verification/Reader_Claims.thy ===== *)
theory Reader_Claims
  imports Readers Proc_Claims "HOL-Library.Multiset"
begin

text \<open>
  What the readers and the assembled sample guarantee. \<open>ranking\<close> is the contract \<open>sort.Slice\<close> needs of
  its comparison, interpreted on the comparison of the process table: it is a strict weak order on
  rows whose figures are finite, and all rows are.
\<close>

subsection \<open>Sorting\<close>

locale ranking =
  fixes lt :: "'a \<Rightarrow> 'a \<Rightarrow> bool" and ok :: "'a \<Rightarrow> bool"
  assumes lt_irrefl: "ok x \<Longrightarrow> \<not> lt x x"
    and lt_trans: "ok x \<Longrightarrow> ok y \<Longrightarrow> ok z \<Longrightarrow> lt x y \<Longrightarrow> lt y z \<Longrightarrow> lt x z"
    and lt_weak: "ok x \<Longrightarrow> ok y \<Longrightarrow> ok z \<Longrightarrow> \<not> lt x y \<Longrightarrow> \<not> lt y z \<Longrightarrow> \<not> lt x z"
begin

lemma mset_insert: "mset (sort_insert lt x xs) = add_mset x (mset xs)"
  by (induction xs) simp_all

lemma mset_sort: "mset (sort_slice lt xs) = mset xs"
  by (induction xs) (simp_all add: sort_slice_def mset_insert)

lemma set_sort: "set (sort_slice lt xs) = set xs"
  by (metis mset_sort set_mset_mset)

lemma sorted_insert:
  assumes "ok x" "\<forall>y \<in> set xs. ok y" "sorted_wrt (\<lambda>p q. \<not> lt q p) xs"
  shows "sorted_wrt (\<lambda>p q. \<not> lt q p) (sort_insert lt x xs)"
  using assms(2,3)
proof (induction xs)
  case (Cons y ys)
  show ?case
  proof (cases "lt y x")
    case True
    have "\<not> lt x y" using True lt_trans [of x y x] lt_irrefl [of x] Cons.prems(1) assms(1) by auto
    moreover have "set (sort_insert lt x ys) = insert x (set ys)"
      by (metis mset_insert set_mset_add_mset_insert set_mset_mset)
    ultimately show ?thesis using True Cons by simp
  next
    case False
    have "\<not> lt z x" if "z \<in> set ys" for z
      using lt_weak [of z y x] False Cons.prems that assms(1) by auto
    then show ?thesis using False Cons.prems by simp
  qed
qed simp

lemma sorted_sort: "\<forall>x \<in> set xs. ok x \<Longrightarrow> sorted_wrt (\<lambda>p q. \<not> lt q p) (sort_slice lt xs)"
proof (induction xs)
  case (Cons x xs)
  moreover have "\<forall>y \<in> set (sort_slice lt xs). ok y" using Cons.prems by (simp add: set_sort)
  ultimately show ?case using sorted_insert by (simp add: sort_slice_def)
qed (simp add: sort_slice_def)

end

definition finite_row :: "process_info \<Rightarrow> bool" where
  "finite_row p \<longleftrightarrow> fin_le 101 (pi_cpu_percent p) \<and> fin_le 44 (pi_mem_mb p)"

interpretation rank: ranking "ranks_before b" finite_row
  by unfold_locales (auto simp: finite_row_def fin_le_def ranks_before_def f_gt_def f_eq_def split: if_splits)

subsection \<open>Rows of the process table\<close>

lemma f_of_uint64_fin_le: "fin_le 64 (f_of_uint64 w)"
proof -
  have "uint w \<le> 2 ^ 64" "0 \<le> uint w" using uint_lt2p [of w] by simp_all
  then show ?thesis unfolding f_of_uint64_def using f_of_int_fin_le [of "uint w" 64] by simp
qed

lemma cpu_percent_between_fin:
  assumes "2 powi (- 30) \<le> e" "e \<le> 2 powi 40"
  shows "fin_le 101 (cpu_percent_between a b (Fin e))"
proof -
  have e: "0 < e" using assms(1) zero_less_power_int [of "2 :: rat" "- 30"] by linarith
  have "(100 :: rat) * e \<le> 2 powi 7 * 2 powi 40" using assms(2) e by (intro mult_mono) simp_all
  then have "100 * e \<le> 2 powi 47" by (simp add: power_int_add)
  then have m: "f_mul (Fin 100) (Fin e) = Fin (round_rat (100 * e))" using f64_fin_le(1) [of "100 * e" 47] e by simp
  have "2 powi (- 30) \<le> 100 * e" using assms(1) e by linarith
  then have "2 powi (- 30) \<le> round_rat (100 * e)"
    using round_rat_mono [of "2 powi (- 30)" "100 * e"] round_rat_powi [of "- 30"] by simp
  then have "fin_le 94 (f_div (f_of_uint64 (b - a)) (f_mul (Fin 100) (Fin e)))"
    using f_div_fin_le [OF f_of_uint64_fin_le, of "- 30" "round_rat (100 * e)" "b - a"] unfolding m by simp
  moreover have "fin_le 7 (Fin 100)" by (intro fin_leI) simp_all
  ultimately show ?thesis
    using f_mul_fin_le [of 94 "f_div (f_of_uint64 (b - a)) (f_mul (Fin 100) (Fin e))" 7 "Fin 100"]
    by (simp add: cpu_percent_between_def clockTicksPerSecond_def)
qed

lemma row_finite:
  assumes "b \<longrightarrow> (\<exists>e. elapsed = Fin e \<and> 2 powi (- 30) \<le> e \<and> e \<le> 2 powi 40)"
  shows "finite_row (process_row b prev elapsed s)"
proof -
  have "fin_le 44 (f_div (f_of_uint64 (ps_rss_bytes s)) (Fin 1048576))"
    using f_div_fin_le [OF f_of_uint64_fin_le, of 20 1048576 "ps_rss_bytes s"] by simp
  then show ?thesis
    using assms cpu_percent_between_fin by (auto simp: finite_row_def process_row_def Let_def split: option.splits)
qed

lemma top_rows_finite: "p \<in> set (snd (top_rows r now ss)) \<Longrightarrow> finite_row p"
proof -
  assume p: "p \<in> set (snd (top_rows r now ss))"
  obtain e where e: "duration_seconds (time_sub now (tr_read_at r)) = Fin e" "e \<le> 2 powi 40"
    "0 < time_sub now (tr_read_at r) \<longrightarrow> 2 powi (- 30) \<le> e" "time_sub now (tr_read_at r) \<le> 0 \<longrightarrow> e \<le> 0"
    using duration_seconds_fin [of "time_sub now (tr_read_at r)"] sat_int64_range by (auto simp: time_sub_def)
  have "f_gt (Fin e) (Fin 0) \<Longrightarrow> 2 powi (- 30) \<le> e" using e(3,4) by (auto simp: f_gt_def not_less [symmetric])
  then show ?thesis using p e(1,2) row_finite by (auto simp: top_rows_def Let_def)
qed


definition table_files :: "string \<Rightarrow> string result" where
  "table_files f =
     (if f = ''/proc/1/stat'' then Inr (stat_line 1 ''init'' hostile_fields)
      else if f = ''/proc/7/stat'' then Inr (stat_line 7 ''a (b) c'' hostile_fields)
      else Inl ''no such file'')"

definition quiet_host :: host where
  "quiet_host = \<lparr>host_os = ''linux'', look_path = (\<lambda>p. False), exec_output = (\<lambda>c. None), host_json = (\<lambda>s. None)\<rparr>"

definition table_machine :: machine where
  "table_machine = \<lparr>mc_host = quiet_host, mc_now = 5 * second, mc_read = table_files, mc_read_later = table_files,
     mc_statfs = (\<lambda>p. Inl ''down''), mc_proc_dir = Inr [(''1'', True), (''cpuinfo'', False), (''7'', True), (''9'', True)],
     mc_proc_at = 5 * second, mc_check_at = 6 * second\<rparr>"

definition table_samples :: "proc_sample list" where
  "table_samples = [\<lparr>ps_pid = 1, ps_name = ''init'', ps_cpu_ticks = 12, ps_rss_bytes = 12288\<rparr>,
     \<lparr>ps_pid = 7, ps_name = ''a (b) c'', ps_cpu_ticks = 12, ps_rss_bytes = 12288\<rparr>]"


subsection \<open>The assembled sample\<close>

lemma memory_read_fin: "memory_read m = Inr (u, t) \<Longrightarrow> fin_le 54 u \<and> fin_le 54 t"
proof -
  assume m: "memory_read m = Inr (u, t)"
  show ?thesis
  proof (cases "on_linux m")
    case True
    then obtain data tkb akb where "mc_read m ''/proc/meminfo'' = Inr data" "parse_mem_info data = Inr (tkb, akb)"
      using m by (auto simp: memory_read_def split: sum.splits)
    moreover define used where "used = wrap_int64 (sint tkb - sint akb)"
    ultimately have ut: "u = f_div (f_of_int (if used < 0 then 0 else used)) (Fin 1024)" "t = f_div (f_of_uint64 tkb) (Fin 1024)"
      using m True by (auto simp: memory_read_def Let_def used_def)
    have "used \<le> 2 ^ 63" using wrap_int64_range [of "sint tkb - sint akb"] by (simp add: used_def in_int64_iff)
    then have "fin_le 63 (f_of_int (if used < 0 then 0 else used))" using f_of_int_fin_le [of "if used < 0 then 0 else used" 63] by auto
    from f_div_fin_le [OF this, of 10 1024] f_div_fin_le [OF f_of_uint64_fin_le, of 10 1024 tkb]
    show ?thesis using ut fin_le_mono [of 53 u 54] by simp
  qed (use m in \<open>auto simp: memory_read_def\<close>)
qed

text \<open>Used space is never negative nor more than the total, whatever the three counters hold.\<close>

lemma calc_disk_usage_bounds:
  assumes "calc_disk_usage bs tb ab = (u, t)"
  shows "\<exists>x y. u = Fin x \<and> t = Fin y \<and> 0 \<le> x \<and> x \<le> y"
proof -
  have fin: "fin_le 128 (f_mul (f_of_uint64 v) (f_of_uint64 bs))" for v
    using f_mul_fin_le [OF f_of_uint64_fin_le f_of_uint64_fin_le, of v bs] by simp
  have rounded: "\<exists>x. f_mul (f_of_uint64 v) (f_of_uint64 bs) = Fin (round_rat x)" for v
  proof -
    obtain a b where ab: "f_of_uint64 v = Fin a" "f_of_uint64 bs = Fin b" using f_of_uint64_fin by blast
    then have "fin_le 128 (f64 (a * b))" using fin [of v] by simp
    then show ?thesis using ab by (auto simp: fin_le_def f64_def Let_def split: if_splits)
  qed
  obtain T where T: "f_mul (f_of_uint64 tb) (f_of_uint64 bs) = Fin (round_rat T)" using rounded by blast
  obtain A where A: "f_mul (f_of_uint64 ab) (f_of_uint64 bs) = Fin (round_rat A)" using rounded by blast
  let ?T = "round_rat T" and ?A = "round_rat A"
  have b: "0 \<le> ?T" "?T \<le> 2 powi 128" "0 \<le> ?A" "?A \<le> 2 powi 128" using fin [of tb] fin [of ab] by (auto simp: T A fin_le_def)
  have "(2 :: rat) powi 128 \<le> 2 powi 1000" by (simp only: powi2_le_iff)
  then have "\<bar>?T - ?A\<bar> \<le> 2 powi 1000" using b by linarith
  then have sub: "f_sub (Fin ?T) (Fin ?A) = Fin (round_rat (?T - ?A))" by (simp add: f_sub_def f64_fin)
  let ?U = "max 0 (round_rat (?T - ?A))"
  have "round_rat (?T - ?A) \<le> ?T" using round_rat_mono [of "?T - ?A" ?T] b by simp
  then have U: "0 \<le> ?U" "?U \<le> ?T" using b by simp_all
  have "(if f_lt (Fin (round_rat (?T - ?A))) (Fin 0) then Fin 0 else Fin (round_rat (?T - ?A))) = Fin ?U" by (simp add: max_def)
  then have "calc_disk_usage bs tb ab = (f_div (Fin ?U) bytesPerGB, f_div (Fin ?T) bytesPerGB)"
    unfolding calc_disk_usage_def Let_def T A sub by (simp only:)
  then have ut: "u = f_div (Fin ?U) bytesPerGB" "t = f_div (Fin ?T) bytesPerGB" using assms by simp_all
  have d: "f_div (Fin x) bytesPerGB = Fin (round_rat (x / 1073741824))" if "0 \<le> x" "x \<le> 2 powi 128" for x
  proof -
    have "x / 1073741824 \<le> x" using that(1) by simp
    then show ?thesis using that f64_fin_le(1) [of "x / 1073741824" 128] by (simp add: bytesPerGB_def)
  qed
  have "u = Fin (round_rat (?U / 1073741824))" unfolding ut(1) using U b by (intro d) linarith+
  moreover have "t = Fin (round_rat (?T / 1073741824))" unfolding ut(2) using b by (intro d)
  moreover have "round_rat (?U / 1073741824) \<le> round_rat (?T / 1073741824)" using U by (intro round_rat_mono) simp
  moreover have "0 \<le> round_rat (?U / 1073741824)" using U by (intro round_rat_nonneg) simp
  ultimately show ?thesis by blast
qed

lemma net_read_fin: "net_read 0 m = Inr (rx, tx) \<Longrightarrow> fin_le 94 rx \<and> fin_le 94 tx"
proof -
  assume n: "net_read 0 m = Inr (rx, tx)"
  have "in_int64 defaultNetSampleInterval" by (simp add: defaultNetSampleInterval_def in_int64_iff)
  then obtain e where e: "duration_seconds defaultNetSampleInterval = Fin e" "2 powi (- 30) \<le> e"
    using duration_seconds_fin [of defaultNetSampleInterval] by (auto simp: defaultNetSampleInterval_def)
  have d: "fin_le 94 (f_div (non_negative_delta a b) (Fin e))" for a b
    using f_div_fin_le [of 64 "non_negative_delta a b" "- 30" e] e(2) f_of_uint64_fin_le
    by (simp add: non_negative_delta_def)
  show ?thesis
    using n d by (auto simp: net_read_def e(1) Let_def split: if_splits sum.splits option.splits)
qed

lemma cpu_read_fin: "cpu_read m = Inr x \<Longrightarrow> \<exists>p. x = Fin p \<and> 0 \<le> p \<and> p \<le> 100"
  using cpu_percent_range by (auto simp: cpu_read_def split: if_splits sum.splits)

lemma top_read_fin:
  assumes "top_processes_read m 5 r = (r', Inr procs)"
  shows "length procs \<le> 5 \<and> (\<forall>p \<in> set procs. finite_row p)"
proof (cases "on_linux m")
  case True
  then obtain ss where ss: "read_proc_samples m = Inr ss"
    using assms by (auto simp: top_processes_read_def Let_def split: sum.splits)
  obtain b rows where rows: "top_rows r (mc_proc_at m) ss = (b, rows)" by (rule prod.exhaust)
  have p: "procs = take 5 (sort_slice (ranks_before b) rows)"
    using assms True ss rows by (simp add: top_processes_read_def)
  have "\<forall>q \<in> set rows. finite_row q" using top_rows_finite [of _ r "mc_proc_at m" ss] rows by simp
  then show ?thesis unfolding p using set_take_subset [of 5 "sort_slice (ranks_before b) rows"] by (auto simp: rank.set_sort)
qed (use assms in \<open>simp add: top_processes_read_def\<close>)

lemma f_to_int64_range: "in_int64 (f_to_int64 x)"
  by (cases x) (auto simp: Let_def in_int64_def int64_limits)

lemmas reader_ranges = memory_read_fin net_read_fin cpu_read_fin f_to_int64_range

definition finite_sample :: "sample \<Rightarrow> bool" where
  "finite_sample s \<longleftrightarrow>
     (\<exists>p. cpu_percent s = Fin p \<and> 0 \<le> p \<and> p \<le> 100) \<and>
     fin_le 54 (mem_used_mb s) \<and> fin_le 54 (mem_total_mb s) \<and>
     (\<exists>u t. disk_used_gb s = Fin u \<and> disk_total_gb s = Fin t \<and> 0 \<le> u \<and> u \<le> t) \<and>
     fin_le 94 (net_rx_bytes_per_sec s) \<and> fin_le 94 (net_tx_bytes_per_sec s) \<and>
     in_int64 (uptime_seconds s) \<and> length (top_processes s) \<le> 5 \<and> (\<forall>p \<in> set (top_processes s). finite_row p)"

lemma gather_finite:
  "finite_sample (snd (gather path m r))"
proof -
  obtain l1 l5 l15 where l: "or_zero (Fin 0, Fin 0, Fin 0) (load_avg_read m) = (l1, l5, l15)" by (rule prod_cases3)
  obtain mu mt where me: "or_zero (Fin 0, Fin 0) (memory_read m) = (mu, mt)" by (rule prod.exhaust)
  obtain du dt where di: "or_zero (Fin 0, Fin 0) (disk_read m path) = (du, dt)" by (rule prod.exhaust)
  obtain rx tx where ne: "or_zero (Fin 0, Fin 0) (net_read 0 m) = (rx, tx)" by (rule prod.exhaust)
  obtain r' procs where to: "top_processes_read m 5 r = (r', procs)" by (rule prod.exhaust)
  have mem: "fin_le 54 mu \<and> fin_le 54 mt"
    using me memory_read_fin by (cases "memory_read m") (auto simp: or_zero_def)
  have disk: "\<exists>u t. du = Fin u \<and> dt = Fin t \<and> 0 \<le> u \<and> u \<le> t"
    using di calc_disk_usage_bounds
    by (auto simp: or_zero_def disk_read_def Let_def split: sum.splits if_splits)
  have net: "fin_le 94 rx \<and> fin_le 94 tx"
    using ne net_read_fin by (cases "net_read 0 m") (auto simp: or_zero_def)
  have cpu: "\<exists>p. or_zero (Fin 0) (cpu_read m) = Fin p \<and> 0 \<le> p \<and> p \<le> 100"
    using cpu_read_fin by (cases "cpu_read m") (auto simp: or_zero_def)
  have top: "length (or_zero [] procs) \<le> 5 \<and> (\<forall>p \<in> set (or_zero [] procs). finite_row p)"
    using top_read_fin to by (cases procs) (auto simp: or_zero_def)
  show ?thesis
    using mem disk net cpu top f_to_int64_range
    by (simp add: gather_def Let_def l me di ne to finite_sample_def)
qed


subsection \<open>A broken file\<close>

definition break_files :: "(string \<Rightarrow> bool) \<Rightarrow> machine \<Rightarrow> machine" where
  "break_files bad m = m\<lparr>mc_read := (\<lambda>f. if bad f then Inl ''input/output error'' else mc_read m f),
     mc_read_later := (\<lambda>f. if bad f then Inl ''input/output error'' else mc_read_later m f)\<rparr>"

lemma break_files_host [simp]:
  "mc_host (break_files bad m) = mc_host m" "mc_now (break_files bad m) = mc_now m"
  "mc_statfs (break_files bad m) = mc_statfs m" "mc_proc_dir (break_files bad m) = mc_proc_dir m"
  "mc_proc_at (break_files bad m) = mc_proc_at m" "mc_check_at (break_files bad m) = mc_check_at m"
  by (simp_all add: break_files_def)

lemma break_files_read:
  "mc_read (break_files bad m) f = (if bad f then Inl ''input/output error'' else mc_read m f)"
  "mc_read_later (break_files bad m) f = (if bad f then Inl ''input/output error'' else mc_read_later m f)"
  by (simp_all add: break_files_def)

lemma unbroken_samplers:
  "\<not> bad ''/proc/stat'' \<Longrightarrow> cpu_read (break_files bad m) = cpu_read m"
  "\<not> bad ''/proc/net/dev'' \<Longrightarrow> net_read i (break_files bad m) = net_read i m"
proof -
  assume "\<not> bad ''/proc/stat''"
  then have "read_proc_stat_cpu (mc_read (break_files bad m)) = read_proc_stat_cpu (mc_read m)"
    "read_proc_stat_cpu (mc_read_later (break_files bad m)) = read_proc_stat_cpu (mc_read_later m)"
    by (simp_all add: read_proc_stat_cpu_def break_files_read)
  then show "cpu_read (break_files bad m) = cpu_read m" by (simp only: cpu_read_def break_files_host)
next
  assume "\<not> bad ''/proc/net/dev''"
  then have "read_proc_net_dev (mc_read (break_files bad m)) = read_proc_net_dev (mc_read m)"
    "read_proc_net_dev (mc_read_later (break_files bad m)) = read_proc_net_dev (mc_read_later m)"
    by (simp_all add: read_proc_net_dev_def break_files_read)
  then show "net_read i (break_files bad m) = net_read i m" by (simp only: net_read_def break_files_host)
qed

text \<open>The readers that take one file, on a machine with broken files.\<close>

lemma broken_readers:
  "or_zero z0 (load_avg_read (break_files bad m)) =
     (if bad ''/proc/loadavg'' then if on_linux m then z0 else (Fin 0, Fin 0, Fin 0) else or_zero z0 (load_avg_read m))"
  "or_zero z1 (uptime_read (break_files bad m)) =
     (if bad ''/proc/uptime'' then if on_linux m then z1 else 0 else or_zero z1 (uptime_read m))"
  "or_zero z2 (memory_read (break_files bad m)) =
     (if bad ''/proc/meminfo'' then if on_linux m then z2 else (Fin 0, Fin 0) else or_zero z2 (memory_read m))"
  "or_zero z3 (cpu_read (break_files bad m)) =
     (if bad ''/proc/stat'' then if on_linux m then z3 else Fin 0 else or_zero z3 (cpu_read m))"
  "or_zero z4 (net_read i (break_files bad m)) =
     (if bad ''/proc/net/dev'' then if on_linux m then z4 else (Fin 0, Fin 0) else or_zero z4 (net_read i m))"
  "disk_read (break_files bad m) path = disk_read m path"
proof -
  show "or_zero z3 (cpu_read (break_files bad m)) =
     (if bad ''/proc/stat'' then if on_linux m then z3 else Fin 0 else or_zero z3 (cpu_read m))"
    using unbroken_samplers(1) [of bad m]
    by (cases "bad ''/proc/stat''") (simp_all add: or_zero_def cpu_read_def read_proc_stat_cpu_def break_files_read)
  show "or_zero z4 (net_read i (break_files bad m)) =
     (if bad ''/proc/net/dev'' then if on_linux m then z4 else (Fin 0, Fin 0) else or_zero z4 (net_read i m))"
    using unbroken_samplers(2) [of bad i m]
    by (cases "bad ''/proc/net/dev''") (simp_all add: or_zero_def net_read_def read_proc_net_dev_def break_files_read)
qed (simp_all add: or_zero_def load_avg_read_def uptime_read_def memory_read_def disk_read_def break_files_read)

lemma broken_top:
  assumes "\<forall>d. \<not> bad (''/proc/'' @ d @ ''/stat'')"
  shows "top_processes_read (break_files bad m) n r = top_processes_read m n r"
proof -
  have "proc_entry (break_files bad m) = proc_entry m"
  proof
    fix x :: "string \<times> bool"
    have r: "mc_read (break_files bad m) (''/proc/'' @ fst x @ ''/stat'') = mc_read m (''/proc/'' @ fst x @ ''/stat'')"
      using assms by (simp only: break_files_read if_False simp_thms)
    show "proc_entry (break_files bad m) x = proc_entry m x" unfolding proc_entry_def r ..
  qed
  then show ?thesis by (simp only: top_processes_read_def read_proc_samples_def break_files_host)
qed

lemma broken_services: "check_services cs (break_files bad m) = check_services cs m"
  by (induction cs m rule: check_services.induct) (simp_all split: sum.splits)

lemma gather_fields:
  "timestamp (snd (gather path m r)) = mc_now m"
  "load_avg_1 (snd (gather path m r)) = fst (or_zero (Fin 0, Fin 0, Fin 0) (load_avg_read m))"
  "load_avg_5 (snd (gather path m r)) = fst (snd (or_zero (Fin 0, Fin 0, Fin 0) (load_avg_read m)))"
  "load_avg_15 (snd (gather path m r)) = snd (snd (or_zero (Fin 0, Fin 0, Fin 0) (load_avg_read m)))"
  "uptime_seconds (snd (gather path m r)) = f_to_int64 (duration_seconds (or_zero 0 (uptime_read m)))"
  "mem_used_mb (snd (gather path m r)) = fst (or_zero (Fin 0, Fin 0) (memory_read m))"
  "mem_total_mb (snd (gather path m r)) = snd (or_zero (Fin 0, Fin 0) (memory_read m))"
  "disk_used_gb (snd (gather path m r)) = fst (or_zero (Fin 0, Fin 0) (disk_read m path))"
  "disk_total_gb (snd (gather path m r)) = snd (or_zero (Fin 0, Fin 0) (disk_read m path))"
  "cpu_percent (snd (gather path m r)) = or_zero (Fin 0) (cpu_read m)"
  "net_rx_bytes_per_sec (snd (gather path m r)) = fst (or_zero (Fin 0, Fin 0) (net_read 0 m))"
  "net_tx_bytes_per_sec (snd (gather path m r)) = snd (or_zero (Fin 0, Fin 0) (net_read 0 m))"
  "top_processes (snd (gather path m r)) = or_zero [] (snd (top_processes_read m 5 r))"
  "services (snd (gather path m r)) = check_services checkers m"
  by (simp_all add: gather_def Let_def case_prod_beta)

text \<open>
  C32. One broken file costs one figure. When any set of files of /proc cannot be read, exactly the
  figures read from those files become 0 and the rest of the sample, disk and services included, is
  what it would have been; processes whose files are readable are still listed.
\<close>
theorem broken_files_degrade_own_fields:
  assumes "s = snd (gather path m r)" "s' = snd (gather path (break_files bad m) r)"
  shows "timestamp s' = timestamp s \<and>
    (if bad ''/proc/loadavg'' then load_avg_1 s' = Fin 0 \<and> load_avg_5 s' = Fin 0 \<and> load_avg_15 s' = Fin 0
     else load_avg_1 s' = load_avg_1 s \<and> load_avg_5 s' = load_avg_5 s \<and> load_avg_15 s' = load_avg_15 s) \<and>
    uptime_seconds s' = (if bad ''/proc/uptime'' then 0 else uptime_seconds s) \<and>
    (if bad ''/proc/meminfo'' then mem_used_mb s' = Fin 0 \<and> mem_total_mb s' = Fin 0
     else mem_used_mb s' = mem_used_mb s \<and> mem_total_mb s' = mem_total_mb s) \<and>
    cpu_percent s' = (if bad ''/proc/stat'' then Fin 0 else cpu_percent s) \<and>
    (if bad ''/proc/net/dev'' then net_rx_bytes_per_sec s' = Fin 0 \<and> net_tx_bytes_per_sec s' = Fin 0
     else net_rx_bytes_per_sec s' = net_rx_bytes_per_sec s \<and> net_tx_bytes_per_sec s' = net_tx_bytes_per_sec s) \<and>
    disk_used_gb s' = disk_used_gb s \<and> disk_total_gb s' = disk_total_gb s \<and> services s' = services s \<and>
    ((\<forall>d. \<not> bad (''/proc/'' @ d @ ''/stat'')) \<longrightarrow> top_processes s' = top_processes s)"
proof -
  have u: "f_to_int64 (duration_seconds 0) = 0" by code_simp
  show ?thesis
    unfolding assms gather_fields
    using broken_top [of bad m 5 r] by (simp add: broken_readers broken_services u)
qed

theorem broken_files_degrade_own_fields_witness:
  "mem_total_mb (snd (gather ''/'' (break_files (\<lambda>f. f = ''/proc/meminfo'') table_machine) new_top_reader)) = Fin 0 \<and>
   top_processes (snd (gather ''/'' (break_files (\<lambda>f. f = ''/proc/meminfo'') table_machine) new_top_reader)) =
     top_processes (snd (gather ''/'' table_machine new_top_reader))"
proof -
  have "\<forall>d. ''/proc/'' @ d @ ''/stat'' \<noteq> ''/proc/meminfo''"
  proof (intro allI notI)
    fix d :: string
    assume "''/proc/'' @ d @ ''/stat'' = ''/proc/meminfo''"
    then have "last (''/proc/'' @ d @ ''/stat'') = last ''/proc/meminfo''" by (simp only:)
    then show False by simp
  qed
  then show ?thesis
    using broken_files_degrade_own_fields [OF refl refl, where bad = "\<lambda>f. f = ''/proc/meminfo''" and
      path = "''/''" and m = table_machine and r = new_top_reader]
    by simp
qed

end
