(* ===== verification/Go_Digits.thy ===== *)
theory Go_Digits
  imports Go_Time
begin

text \<open>
  Fixed-width digits of a number in a base, most significant first, with the lemmas that digits and
  value determine each other: shared by base32 and base64 text, dates and clock times.
\<close>

type_synonym byte = "8 word"

fun be_digits :: "nat \<Rightarrow> nat \<Rightarrow> nat \<Rightarrow> nat list" where
  "be_digits b 0 n = []"
| "be_digits b (Suc k) n = be_digits b k (n div b) @ [n mod b]"

lemma be_digits_numeral: "be_digits b (numeral k) n = be_digits b (pred_numeral k) (n div b) @ [n mod b]"
  by (simp add: numeral_eq_Suc)

definition be_value :: "nat \<Rightarrow> nat list \<Rightarrow> nat" where
  "be_value b ds = foldl (\<lambda>a d. a * b + d) 0 ds"

lemma length_be_digits [simp]: "length (be_digits b k n) = k"
  by (induction k arbitrary: n) simp_all

lemma be_digits_less: "0 < b \<Longrightarrow> d \<in> set (be_digits b k n) \<Longrightarrow> d < b"
  by (induction k arbitrary: n) auto

lemma be_value_snoc [simp]: "be_value b (ds @ [d]) = be_value b ds * b + d"
  by (simp add: be_value_def)

lemma be_value_digits: "0 < b \<Longrightarrow> n < b ^ k \<Longrightarrow> be_value b (be_digits b k n) = n"
proof (induction k arbitrary: n)
  case (Suc k)
  then have "n div b < b ^ k" by (simp add: less_mult_imp_div_less mult.commute)
  with Suc show ?case by simp
qed (simp add: be_value_def)

lemma be_value_less: "\<forall>d \<in> set ds. d < b \<Longrightarrow> be_value b ds < b ^ length ds"
proof (induction ds rule: rev_induct)
  case (snoc d ds)
  then have "be_value b ds + 1 \<le> b ^ length ds" by simp
  then have "(be_value b ds + 1) * b \<le> b ^ length ds * b" by (rule mult_right_mono) simp
  moreover have "d < b" using snoc.prems by simp
  ultimately have "be_value b ds * b + d < b ^ length ds * b" by (simp add: algebra_simps)
  then show ?case by (simp add: mult.commute)
qed (simp add: be_value_def)

lemma be_digits_value: "\<forall>d \<in> set ds. d < b \<Longrightarrow> be_digits b (length ds) (be_value b ds) = ds"
  by (induction ds rule: rev_induct) simp_all

lemma bytes_digits: "\<forall>d \<in> set (map unat bs). d < 256" for bs :: "byte list"
proof -
  have "unat b < 256" for b :: byte using unsigned_less [of b, where 'a = nat] by simp
  then show ?thesis by simp
qed

lemma be_value_zeros: "be_value b (ds @ replicate k 0) = be_value b ds * b ^ k"
  by (induction k) (simp_all add: replicate_append_same [symmetric] flip: append_assoc)

subsection \<open>Decimal text of a fixed width\<close>

definition dec_char :: "nat \<Rightarrow> char" where
  "dec_char d = char_of (48 + d)"

definition digit_of :: "char \<Rightarrow> nat" where
  "digit_of c = of_char c - 48"

definition pad_digits :: "nat \<Rightarrow> nat \<Rightarrow> string" where
  "pad_digits w n = map dec_char (be_digits 10 w n)"

text \<open>\<open>parseUint\<close> of package time: all digits, and a value in range.\<close>

definition time_parse_uint :: "string \<Rightarrow> nat \<Rightarrow> nat \<Rightarrow> nat option" where
  "time_parse_uint s lo hi =
     (let v = be_value 10 (map digit_of s)
      in if list_all is_digit s \<and> lo \<le> v \<and> v \<le> hi then Some v else None)"

lemma dec_char_of [simp]: "d < 10 \<Longrightarrow> digit_of (dec_char d) = d"
  by (simp add: digit_of_def dec_char_def)

lemma is_digit_dec_char [simp]:
  assumes "d < 10" shows "is_digit (dec_char d)"
proof -
  have n: "(of_char (dec_char d) :: nat) = 48 + d" using assms by (simp add: dec_char_def)
  have "(of_char (dec_char d) :: int) = 48 + int d"
    using of_nat_of_char [where 'a = int, of "dec_char d"] unfolding n by simp
  then show ?thesis using assms by (simp add: is_digit_def)
qed

lemma length_pad_digits [simp]: "length (pad_digits w n) = w"
  by (simp add: pad_digits_def)

lemma pad_digits_all: "list_all is_digit (pad_digits w n)"
  using be_digits_less [of 10 _ w n] by (auto simp: pad_digits_def list_all_iff)

lemma digits_of_text: "\<forall>d \<in> set ds. d < 10 \<Longrightarrow> map digit_of (map dec_char ds) = ds"
  by (simp add: map_idI)

lemma parse_pad_digits:
  assumes "n < 10 ^ w" "lo \<le> n" "n \<le> hi"
  shows "time_parse_uint (pad_digits w n) lo hi = Some n"
proof -
  have "map digit_of (pad_digits w n) = be_digits 10 w n"
    unfolding pad_digits_def by (rule digits_of_text) (use be_digits_less [of 10] in auto)
  then have "be_value 10 (map digit_of (pad_digits w n)) = n" using assms(1) by (simp add: be_value_digits)
  then show ?thesis using assms pad_digits_all by (simp add: time_parse_uint_def)
qed

end
