(* ===== verification/Pairing.thy ===== *)
theory Pairing
  imports Api_Claims Go_Digits
begin

text \<open>
  internal/pair/pair.go: generation and validation of the pairing token. The random source is a
  function from a byte count to the bytes or an error. \<open>encoding/base32\<close> without padding is modelled
  on groups of five bytes, a shorter last group included. The lemmas show that the encoding loses
  nothing, so a token carries all its bytes of randomness.
\<close>

definition TokenByteLength :: nat where "TokenByteLength = 20"

subsection \<open>Base 32\<close>

definition base32_alphabet :: string where "base32_alphabet = ''ABCDEFGHIJKLMNOPQRSTUVWXYZ234567''"

definition base32_digits :: "byte list \<Rightarrow> nat list" where
  "base32_digits bs = be_digits 32 8 (be_value 256 (map unat bs))"

text \<open>A short last group is padded with zero bytes and only the characters carrying data are kept.\<close>

fun base32_encode :: "byte list \<Rightarrow> string" where
  "base32_encode (a # b # c # d # e # bs) = map ((!) base32_alphabet) (base32_digits [a, b, c, d, e]) @ base32_encode bs"
| "base32_encode [] = []"
| "base32_encode bs =
     map ((!) base32_alphabet) (take ((length bs * 8 + 4) div 5) (base32_digits (bs @ replicate (5 - length bs) 0)))"

definition generate_token :: "(nat \<Rightarrow> byte list result) \<Rightarrow> string result" where
  "generate_token rand =
     (case rand TokenByteLength of
        Inl e \<Rightarrow> Inl (''pair: generating random token: '' @ e)
      | Inr buf \<Rightarrow> Inr (to_lower (base32_encode buf)))"

text \<open>\<open>subtle.ConstantTimeCompare\<close>: 0 for different lengths, else whether all bytes agree.\<close>

definition constant_time_compare :: "string \<Rightarrow> string \<Rightarrow> int" where
  "constant_time_compare x y =
     (if length x \<noteq> length y then 0 else if diff_loop 0 x y = 0 then 1 else 0)"

definition validate_token :: "string \<Rightarrow> string \<Rightarrow> bool" where
  "validate_token expected candidate =
     (if expected = [] then False else constant_time_compare expected candidate = 1)"

subsection \<open>Tokens are distinct\<close>

lemma base32_digits_inj:
  assumes "length bs = 5" "length bs' = 5" "base32_digits bs = base32_digits bs'"
  shows "bs = bs'"
proof -
  let ?v = "\<lambda>xs :: byte list. be_value 256 (map unat xs)"
  have lt: "?v xs < 32 ^ 8" if "length xs = 5" for xs
    using be_value_less [OF bytes_digits [of xs]] that by simp
  have "?v bs = be_value 32 (base32_digits bs)" using be_value_digits [of 32 "?v bs" 8] lt [OF assms(1)] by (simp add: base32_digits_def)
  also have "\<dots> = ?v bs'" using be_value_digits [of 32 "?v bs'" 8] lt [OF assms(2)] assms(3) by (simp add: base32_digits_def)
  finally have "?v bs = ?v bs'" .
  then have "be_digits 256 (length (map unat bs)) (?v bs) = be_digits 256 (length (map unat bs')) (?v bs')"
    by (simp add: assms(1,2))
  then have "map unat bs = map unat bs'" unfolding be_digits_value [OF bytes_digits] .
  then show ?thesis by (rule list.inj_map_strong [rotated]) (simp add: word_unat_eq_iff)
qed

definition token_alphabet :: string where "token_alphabet = ''abcdefghijklmnopqrstuvwxyz234567''"

lemma lower_alphabet: "to_lower base32_alphabet = token_alphabet"
  by code_simp

lemma distinct_alphabet: "distinct token_alphabet" "length token_alphabet = 32" "length base32_alphabet = 32"
  by (simp_all add: token_alphabet_def base32_alphabet_def)

text \<open>One group of a token.\<close>

lemma lower_group: "\<forall>d \<in> set ds. d < 32 \<Longrightarrow> to_lower (map ((!) base32_alphabet) ds) = map ((!) token_alphabet) ds"
  by (simp add: to_lower_def flip: lower_alphabet) (simp add: distinct_alphabet)

lemma base32_digits_less: "\<forall>d \<in> set (base32_digits bs). d < 32"
  using be_digits_less [of 32] by (auto simp: base32_digits_def)

lemma length_base32_digits [simp]: "length (base32_digits bs) = 8"
  by (simp add: base32_digits_def)

lemma token_group:
  "to_lower (base32_encode (a # b # c # d # e # bs)) =
     map ((!) token_alphabet) (base32_digits [a, b, c, d, e]) @ to_lower (base32_encode bs)"
  using lower_group [OF base32_digits_less, of "[a, b, c, d, e]"] by (simp add: to_lower_def)

lemma five: "length bs = k + 5 \<Longrightarrow> \<exists>a b c d e r. bs = a # b # c # d # e # r \<and> length r = k"
  by (auto simp: numeral_eq_Suc length_Suc_conv)

lemma token_shape:
  "length bs = 5 * n \<Longrightarrow> length (to_lower (base32_encode bs)) = 8 * n \<and> set (to_lower (base32_encode bs)) \<subseteq> set token_alphabet"
proof (induction n arbitrary: bs)
  case (Suc n)
  obtain a b c d e r where bs: "bs = a # b # c # d # e # r" "length r = 5 * n" using five [of bs "5 * n"] Suc.prems by auto
  have "set (map ((!) token_alphabet) (base32_digits [a, b, c, d, e])) \<subseteq> set token_alphabet"
    using base32_digits_less [of "[a, b, c, d, e]"] distinct_alphabet(2) nth_mem [of _ token_alphabet] by auto
  then show ?case using Suc.IH [OF bs(2)] by (simp only: bs(1) token_group) simp
qed (simp add: to_lower_def)

lemma token_inj:
  "length bs = 5 * n \<Longrightarrow> length bs' = 5 * n \<Longrightarrow> to_lower (base32_encode bs) = to_lower (base32_encode bs') \<Longrightarrow> bs = bs'"
proof (induction n arbitrary: bs bs')
  case (Suc n)
  obtain a b c d e r where bs: "bs = a # b # c # d # e # r" "length r = 5 * n" using five [of bs "5 * n"] Suc.prems(1) by auto
  obtain a' b' c' d' e' r' where bs': "bs' = a' # b' # c' # d' # e' # r'" "length r' = 5 * n" using five [of bs' "5 * n"] Suc.prems(2) by auto
  let ?g = "base32_digits [a, b, c, d, e]" and ?g' = "base32_digits [a', b', c', d', e']"
  have eq: "map ((!) token_alphabet) ?g = map ((!) token_alphabet) ?g'" "to_lower (base32_encode r) = to_lower (base32_encode r')"
    using Suc.prems(3) unfolding bs(1) bs'(1) token_group by (simp_all add: append_eq_append_conv)
  have "inj_on ((!) token_alphabet) (set ?g \<union> set ?g')"
    using base32_digits_less [of "[a, b, c, d, e]"] base32_digits_less [of "[a', b', c', d', e']"] distinct_alphabet
    by (auto simp: inj_on_def nth_eq_iff_index_eq)
  then have "?g = ?g'" using eq(1) by (simp add: inj_on_map_eq_map)
  then have "[a, b, c, d, e] = [a', b', c', d', e']" by (rule base32_digits_inj [rotated 2]) simp_all
  then show ?case using Suc.IH [OF bs(2) bs'(2) eq(2)] by (simp add: bs bs')
qed simp

lemma validate_token_iff: "validate_token e c \<longleftrightarrow> e \<noteq> [] \<and> c = e"
proof -
  have "validate_token e c = constant_time_token_equal e c"
    by (simp add: validate_token_def constant_time_compare_def constant_time_token_equal_def)
  then show ?thesis by (auto simp: constant_time_token_equal_iff)
qed


lemma ones_group: "to_lower (base32_encode (255 # 255 # 255 # 255 # 255 # bs)) = ''77777777'' @ to_lower (base32_encode bs)"
proof -
  have d: "base32_digits [255, 255, 255, 255, 255] = [31, 31, 31, 31, 31, 31, 31, 31]"
    by (simp add: base32_digits_def be_value_def be_digits_numeral)
  have c: "token_alphabet ! 31 = CHR ''7''" by code_simp
  show ?thesis unfolding token_group d list.map c ..
qed


end
