(* ===== verification/Security_Audit.thy ===== *)
theory Security_Audit
  imports Service_Checkers
begin

text \<open>
  internal/securityaudit: the read-only host assessment and its cache. What the scanner reads from the
  host, command results, files, the certificate glob and the clock, are the fields of \<open>audit_env\<close>;
  \<open>au_certificate\<close> stands for decoding a PEM file (its common name and expiry, \<open>None\<close> when it does not
  decode). A finding's remediation is kept as data.
\<close>

type_synonym status = string
definition StatusPass :: status where "StatusPass = ''pass''"
definition StatusWarning :: status where "StatusWarning = ''warning''"
definition StatusFail :: status where "StatusFail = ''fail''"
definition StatusUnknown :: status where "StatusUnknown = ''unknown''"

type_synonym severity = string
definition SeverityCritical :: severity where "SeverityCritical = ''critical''"
definition SeverityHigh :: severity where "SeverityHigh = ''high''"
definition SeverityMedium :: severity where "SeverityMedium = ''medium''"
definition SeverityLow :: severity where "SeverityLow = ''low''"
definition SeverityInfo :: severity where "SeverityInfo = ''info''"

record remediation =
  rm_summary :: string
  rm_dashboard :: string
  rm_command :: string

record finding =
  fd_id :: string
  fd_category :: string
  fd_status :: status
  fd_severity :: severity
  fd_title :: string
  fd_summary :: string
  fd_evidence :: string
  fd_remediation :: "remediation option"

record report =
  rp_generated_at :: time
  rp_source :: string
  rp_platform :: string
  rp_findings :: "finding list"

definition zero_report :: report where
  "zero_report = \<lparr>rp_generated_at = zero_time, rp_source = [], rp_platform = [], rp_findings = []\<rparr>"

text \<open>A command's error: a non-zero exit with its code and text, or another failure.\<close>

datatype cmd_error = ExitError int string | OtherError string

record command_result =
  cr_output :: string
  cr_err :: "cmd_error option"

record audit_env =
  au_run :: "string list \<Rightarrow> command_result"
  au_read_file :: "string \<Rightarrow> string result"
  au_glob :: "string \<Rightarrow> string list result"
  au_certificate :: "string \<Rightarrow> (string \<times> time) option"
  au_now :: time
  au_platform :: string

subsection \<open>Helpers\<close>

definition base_finding :: "string \<Rightarrow> string \<Rightarrow> string \<Rightarrow> severity \<Rightarrow> finding" where
  "base_finding ident category title severity =
     \<lparr>fd_id = ident, fd_category = category, fd_status = [], fd_severity = severity, fd_title = title, fd_summary = [],
      fd_evidence = [], fd_remediation = None\<rparr>"

definition remedy :: "string \<Rightarrow> string \<Rightarrow> string \<Rightarrow> remediation option" where
  "remedy summary dashboard command = Some \<lparr>rm_summary = summary, rm_dashboard = dashboard, rm_command = command\<rparr>"

definition pass :: "finding \<Rightarrow> string \<Rightarrow> string \<Rightarrow> finding" where
  "pass b summary evidence = b\<lparr>fd_status := StatusPass, fd_severity := SeverityInfo, fd_summary := summary, fd_evidence := evidence\<rparr>"

definition unknown :: "finding \<Rightarrow> string \<Rightarrow> finding" where
  "unknown b summary = b\<lparr>fd_status := StatusUnknown, fd_severity := SeverityInfo, fd_summary := summary\<rparr>"

definition unknown_with_evidence :: "finding \<Rightarrow> string \<Rightarrow> string \<Rightarrow> finding" where
  "unknown_with_evidence b summary evidence = (unknown b summary)\<lparr>fd_evidence := evidence\<rparr>"

definition value_or_unknown :: "string \<Rightarrow> string" where
  "value_or_unknown v = (if v = [] then ''unknown'' else v)"

definition first_line :: "string \<Rightarrow> string" where
  "first_line s = hd (split_char newline (trim_space s))"

definition count_prefixed_lines :: "string \<Rightarrow> string \<Rightarrow> nat" where
  "count_prefixed_lines s p = length (filter (\<lambda>l. has_prefix l p) (split_char newline s))"

definition non_empty_line_count :: "string \<Rightarrow> nat" where
  "non_empty_line_count s = length (filter (\<lambda>l. trim_space l \<noteq> []) (split_char newline s))"

definition count_dnf_packages :: "string \<Rightarrow> nat" where
  "count_dnf_packages s =
     length (filter (\<lambda>l. let f = Go_Strings.fields l in 3 \<le> length f \<and> contains (hd f) ''.'') (split_char newline s))"

definition exit_code :: "cmd_error option \<Rightarrow> int" where
  "exit_code e = (case e of Some (ExitError c _) \<Rightarrow> c | _ \<Rightarrow> - 1)"

text \<open>The loop of \<open>configValue\<close>: a later line overrides an earlier one.\<close>

definition config_value :: "string \<Rightarrow> string \<Rightarrow> string" where
  "config_value config key =
     foldl (\<lambda>value l.
        let line = trim_space l
        in if has_prefix line ''#'' then value
           else let f = Go_Strings.fields line
                in if 2 \<le> length f \<and> equal_fold (f ! 0) key then to_lower (f ! 1) else value)
       [] (split_char newline config)"

definition error_text :: "cmd_error \<Rightarrow> string" where
  "error_text e = (case e of ExitError _ s \<Rightarrow> s | OtherError s \<Rightarrow> s)"

definition concise_error :: "string \<Rightarrow> command_result \<Rightarrow> string" where
  "concise_error what r =
     (let d = trim_space (cr_output r);
          detail = (if d = [] then (case cr_err r of None \<Rightarrow> d | Some e \<Rightarrow> error_text e) else d)
      in if detail = [] then what @ ''.'' else what @ '': '' @ first_line detail)"

text \<open>\<open>net.SplitHostPort\<close>, its port; \<open>None\<close> for an error.\<close>

definition split_host_port :: "string \<Rightarrow> string option" where
  "split_host_port hp =
     (case last_index_byte hp (CHR '':'') of
        None \<Rightarrow> None
      | Some i \<Rightarrow>
          if hd hp = CHR ''['' then
            (case index_byte hp (CHR '']'') of
               None \<Rightarrow> None
             | Some en \<Rightarrow>
                 if en + 1 \<noteq> i then None
                 else if CHR ''['' \<in> set (drop 1 hp) \<or> CHR '']'' \<in> set (drop (en + 1) hp) then None
                 else Some (drop (i + 1) hp))
          else if CHR '':'' \<in> set (take i hp) then None
          else if CHR ''['' \<in> set hp \<or> CHR '']'' \<in> set hp then None
          else Some (drop (i + 1) hp))"

definition listens_everywhere :: "string \<Rightarrow> bool" where
  "listens_everywhere field \<longleftrightarrow> has_prefix field ''0.0.0.0:'' \<or> has_prefix field ''[::]:'' \<or>
     has_prefix field ''*:'' \<or> has_prefix field '':::''"

definition field_port :: "string \<Rightarrow> int option" where
  "field_port field =
     (if \<not> listens_everywhere field then None
      else let port = (case split_host_port field of
                         Some p \<Rightarrow> p
                       | None \<Rightarrow> (case last_index_byte field (CHR '':'') of
                                   None \<Rightarrow> field | Some i \<Rightarrow> drop (i + 1) field))
      in case parse_int port of Inl _ \<Rightarrow> None | Inr n \<Rightarrow> Some n)"

definition public_ports :: "string \<Rightarrow> int list" where
  "public_ports output =
     sort (remdups (concat (map (\<lambda>line. List.map_filter field_port (Go_Strings.fields line)) (split_char newline output))))"

subsection \<open>The checks\<close>

definition limit_to :: "string list \<Rightarrow> nat \<Rightarrow> string list" where
  "limit_to values n = (if length values \<le> n then values else take n values)"

definition join_ints :: "int list \<Rightarrow> string" where
  "join_ints values = join '', '' (map itoa values)"

definition check_updates :: "audit_env \<Rightarrow> finding" where
  "check_updates s =
     (let b = base_finding ''system-updates'' ''updates'' ''System updates'' SeverityHigh;
          distro = to_lower (case au_read_file s ''/etc/os-release'' of Inl _ \<Rightarrow> [] | Inr d \<Rightarrow> d);
          failing = (\<lambda>count tool command. b\<lparr>fd_status := StatusFail,
             fd_summary := itoa (int count) @ '' package upgrades are pending.'',
             fd_evidence := tool @ '' reported '' @ itoa (int count) @ '' upgrades'',
             fd_remediation := remedy ''Review and install system package updates.'' [] command\<rparr>);
          unreadable = (\<lambda>r. unknown b (concise_error ''Could not read package update status'' r))
      in if contains distro ''debian'' \<or> contains distro ''ubuntu'' then
           (let r = au_run s [''apt-get'', ''-s'', ''-o'', ''Debug::NoLocking=1'', ''upgrade''];
                count = count_prefixed_lines (cr_output r) ''Inst ''
            in if cr_err r = None then
                 if count = 0 then pass b ''No pending package upgrades were found.'' ''apt simulation reported 0 upgrades''
                 else failing count ''apt simulation'' ''sudo apt-get update && sudo apt-get upgrade -y''
               else unreadable r)
         else if contains distro ''fedora'' \<or> contains distro ''rhel'' \<or> contains distro ''centos'' then
           (let r = au_run s [''dnf'', ''check-update'', ''-q'']
            in if cr_err r = None \<and> trim_space (cr_output r) = []
               then pass b ''No pending package upgrades were found.'' ''dnf reported no upgrades''
               else if exit_code (cr_err r) = 100
               then failing (count_dnf_packages (cr_output r)) ''dnf'' ''sudo dnf upgrade -y''
               else unreadable r)
         else if contains distro ''alpine'' then
           (let r = au_run s [''apk'', ''version'', ''-l'', ''<'']; count = non_empty_line_count (cr_output r)
            in if cr_err r = None then
                 if count = 0 then pass b ''No pending package upgrades were found.'' ''apk reported 0 upgrades''
                 else failing count ''apk'' ''sudo apk upgrade''
               else unreadable r)
         else unknown b ''Package update status is unsupported on this operating system.'')"

definition check_listening_ports :: "audit_env \<Rightarrow> finding" where
  "check_listening_ports s =
     (let b = base_finding ''public-listeners'' ''network'' ''Publicly bound services'' SeverityHigh;
          r = au_run s [''ss'', ''-H'', ''-lntu'']
      in if cr_err r \<noteq> None then unknown b (concise_error ''Could not inspect listening ports'' r)
         else let ports = public_ports (cr_output r)
         in if ports = [] then pass b ''No services are listening on all network interfaces.''
                ''ss found no 0.0.0.0, ::, or wildcard listeners''
            else b\<lparr>fd_status := StatusWarning,
                   fd_summary := itoa (int (length ports)) @ '' port(s) listen on all network interfaces.'',
                   fd_evidence := ''Public ports: '' @ join_ints ports,
                   fd_remediation := remedy ''Confirm every public listener is required and restrict it with the firewall.''
                     ''firewall'' []\<rparr>)"

text \<open>The text the SSH check reads its settings from.\<close>

definition ssh_config :: "audit_env \<Rightarrow> string option" where
  "ssh_config s =
     (let r = au_run s [''sshd'', ''-T'']; config = to_lower (cr_output r)
      in if cr_err r \<noteq> None \<or> trim_space config = []
         then (case au_read_file s ''/etc/ssh/sshd_config'' of Inl _ \<Rightarrow> None | Inr d \<Rightarrow> Some (to_lower d))
         else Some config)"

definition check_ssh_configuration :: "audit_env \<Rightarrow> finding" where
  "check_ssh_configuration s =
     (let b = base_finding ''ssh-hardening'' ''ssh'' ''SSH authentication policy'' SeverityCritical
      in case ssh_config s of
           None \<Rightarrow> unknown b ''Could not read the effective SSH daemon configuration.''
         | Some config \<Rightarrow>
             (let password = config_value config ''passwordauthentication'';
                  root = config_value config ''permitrootlogin'';
                  risks = (if password = ''yes'' then [''password authentication is enabled''] else []) @
                          (if root = ''yes'' then [''direct root login is enabled''] else []);
                  evidence = ''PasswordAuthentication='' @ value_or_unknown password @ ''; PermitRootLogin='' @ value_or_unknown root
              in if risks = [] then
                   if password = [] \<or> root = []
                   then unknown_with_evidence b ''Some effective SSH settings could not be determined.'' evidence
                   else pass b ''SSH avoids password authentication and direct root login.'' evidence
                 else b\<lparr>fd_status := StatusFail, fd_summary := join ''; '' risks @ ''.'', fd_evidence := evidence,
                        fd_remediation := remedy
                          ''Review SSH access before changing authentication settings to avoid lockout.'' [] []\<rparr>))"

definition check_firewall :: "audit_env \<Rightarrow> finding" where
  "check_firewall s =
     (let b = base_finding ''host-firewall'' ''firewall'' ''Host firewall'' SeverityHigh;
          ufw = au_run s [''ufw'', ''status'']; fwd = au_run s [''firewall-cmd'', ''--state''];
          nft = au_run s [''nft'', ''list'', ''ruleset'']
      in if cr_err ufw = None then
           if contains (to_lower (cr_output ufw)) ''status: active'' then pass b ''UFW is active.'' (first_line (cr_output ufw))
           else b\<lparr>fd_status := StatusFail, fd_summary := ''UFW is installed but inactive.'', fd_evidence := first_line (cr_output ufw),
                  fd_remediation := remedy ''Review allowed SSH access, then enable the firewall.'' ''firewall'' []\<rparr>
         else if cr_err fwd = None \<and> trim_space (cr_output fwd) = ''running''
         then pass b ''firewalld is active.'' ''firewall-cmd: running''
         else if cr_err nft = None \<and> trim_space (cr_output nft) \<noteq> []
         then b\<lparr>fd_status := StatusWarning, fd_severity := SeverityMedium,
                fd_summary := ''An nftables ruleset is loaded, but its enforcement policy needs review.'',
                fd_evidence := ''nftables returned a non-empty ruleset'',
                fd_remediation := remedy ''Review the nftables ruleset and confirm required inbound traffic is restricted.'' [] []\<rparr>
         else b\<lparr>fd_status := StatusUnknown, fd_summary := ''No active supported host firewall could be confirmed.'',
                fd_evidence := ''The agent is unprivileged; firewall inspection may require additional read permission.'',
                fd_remediation := remedy ''Open the Firewall dashboard to verify and configure UFW.'' ''firewall'' []\<rparr>)"

definition backup_keywords :: "string list" where
  "backup_keywords = [''backup'', ''restic'', ''borg'', ''duplicity'', ''snapshot'', ''rclone'']"

definition schedule_text :: "audit_env \<Rightarrow> string" where
  "schedule_text s =
     concat (map (\<lambda>cmd. let r = au_run s cmd in if cr_err r = None then cr_output r @ [newline] else [])
       [[''systemctl'', ''list-timers'', ''--all'', ''--no-legend'', ''--no-pager''], [''crontab'', ''-l'']])"

definition check_backups :: "audit_env \<Rightarrow> finding" where
  "check_backups s =
     (let b = base_finding ''backup-schedule'' ''backups'' ''Backup schedule'' SeverityHigh;
          matches = map trim_space (filter (\<lambda>line. list_ex (contains line) backup_keywords)
                      (split_char newline (to_lower (schedule_text s))))
      in if matches \<noteq> [] then pass b ''A likely backup or snapshot schedule was detected.'' (join ''; '' (limit_to matches 3))
         else b\<lparr>fd_status := StatusWarning, fd_summary := ''No recognizable backup schedule was detected.'',
                fd_evidence := ''Checked systemd timers and the agent user'' @ [CHR 0x27] @ ''s crontab for common backup tools.'',
                fd_remediation := remedy
                  ''Verify backups and test a restore; schedules owned by other users may not be visible.'' [] []\<rparr>)"

text \<open>A certificate's name: its common name, or the directory it stands in.\<close>

definition path_dirs :: "string \<Rightarrow> string list" where
  "path_dirs p = filter (\<lambda>w. w \<noteq> []) (split_char (CHR ''/'') p)"

definition cert_name :: "string \<Rightarrow> string \<Rightarrow> string" where
  "cert_name path cn =
     (if cn \<noteq> [] then cn
      else if CHR ''/'' \<notin> set path then ''.''
      else case butlast (path_dirs path) of [] \<Rightarrow> ''/'' | d # ds \<Rightarrow> last (d # ds))"

definition readable_certs :: "audit_env \<Rightarrow> string list \<Rightarrow> (string \<times> time) list" where
  "readable_certs s paths = List.map_filter
     (\<lambda>p. case au_read_file s p of
            Inl _ \<Rightarrow> None
          | Inr data \<Rightarrow> map_option (\<lambda>(cn, not_after). (cert_name p cn, not_after)) (au_certificate s data)) paths"

definition cert_days :: "time \<Rightarrow> time \<Rightarrow> int" where
  "cert_days not_after now = f_to_int64 (f_div (duration_hours (time_sub not_after now)) (Fin 24))"

definition check_certificates :: "audit_env \<Rightarrow> finding list" where
  "check_certificates s =
     (let b = base_finding ''certificate-health'' ''certificates'' ''TLS certificates'' SeverityHigh
      in case au_glob s ''/etc/letsencrypt/live/*/fullchain.pem'' of
           Inl _ \<Rightarrow> [unknown b (''No readable Let'' @ [CHR 0x27] @ ''s Encrypt certificates were found on this host.'')]
         | Inr paths \<Rightarrow>
             if paths = [] then [unknown b (''No readable Let'' @ [CHR 0x27] @ ''s Encrypt certificates were found on this host.'')]
             else let now = au_now s; certs = readable_certs s paths;
                      expired = map fst (filter (\<lambda>(n, t). time_before t now) certs);
                      expiring = map (\<lambda>(n, t). n @ '' ('' @ itoa (cert_days t now) @ ''d)'')
                        (filter (\<lambda>(n, t). \<not> time_before t now \<and> time_before t (time_add now (30 * 24 * hour))) certs)
             in if expired \<noteq> [] then
                  [b\<lparr>fd_status := StatusFail, fd_severity := SeverityCritical,
                     fd_summary := ''One or more TLS certificates have expired.'',
                     fd_evidence := ''Expired: '' @ join '', '' expired,
                     fd_remediation := remedy ''Renew expired certificates and confirm the served certificate.'' ''certbot''
                       ''sudo certbot renew''\<rparr>]
                else if expiring \<noteq> [] then
                  [b\<lparr>fd_status := StatusWarning, fd_summary := ''One or more TLS certificates expire within 30 days.'',
                     fd_evidence := ''Expiring: '' @ join '', '' expiring,
                     fd_remediation := remedy ''Review renewal status before these certificates expire.'' ''certbot''
                       ''sudo certbot renew --dry-run''\<rparr>]
                else if certs = [] then
                  [unknown b (''Let'' @ [CHR 0x27] @ ''s Encrypt certificate files were found but could not be read or parsed.'')]
                else [pass b (''Readable Let'' @ [CHR 0x27] @ ''s Encrypt certificates are valid for at least 30 days.'')
                        (''Checked '' @ itoa (int (length certs)) @ '' certificate(s)'')])"

definition scan :: "audit_env \<Rightarrow> report" where
  "scan s =
     \<lparr>rp_generated_at = au_now s, rp_source = ''gateshell-agent'', rp_platform = au_platform s,
      rp_findings = [check_updates s, check_listening_ports s, check_ssh_configuration s, check_firewall s, check_backups s] @
        check_certificates s\<rparr>"

subsection \<open>The cache\<close>

record cached_scanner =
  cs_ttl :: duration
  cs_report :: report

definition new_cached_scanner :: "duration \<Rightarrow> cached_scanner" where
  "new_cached_scanner ttl = \<lparr>cs_ttl = ttl, cs_report = zero_report\<rparr>"

text \<open>The stored report can still be served.\<close>

definition cache_hit :: "time \<Rightarrow> bool \<Rightarrow> cached_scanner \<Rightarrow> bool" where
  "cache_hit now refresh s \<longleftrightarrow> \<not> refresh \<and> \<not> is_zero_time (rp_generated_at (cs_report s)) \<and>
     time_sub now (rp_generated_at (cs_report s)) < cs_ttl s"

text \<open>\<open>CachedScanner.Scan\<close> at time \<open>now\<close>; \<open>fresh\<close> is the report the scanner makes if it is run.\<close>

definition cached_scan :: "time \<Rightarrow> report \<Rightarrow> bool \<Rightarrow> cached_scanner \<Rightarrow> cached_scanner \<times> report" where
  "cached_scan now fresh refresh s =
     (if cache_hit now refresh s then (s, cs_report s)
      else (s\<lparr>cs_report := fresh\<rparr>, fresh))"

end
