(* ===== verification/Security_Claims.thy ===== *)
theory Security_Claims
  imports Security_Audit
begin

text \<open>What a finding of the security assessment may be trusted for, and how old a cached one can be.\<close>

subsection \<open>Passing checks\<close>

text \<open>A command that succeeded with an output satisfying \<open>P\<close>.\<close>

definition tool_says :: "audit_env \<Rightarrow> string list \<Rightarrow> (string \<Rightarrow> bool) \<Rightarrow> bool" where
  "tool_says s cmd P \<longleftrightarrow> cr_err (au_run s cmd) = None \<and> P (cr_output (au_run s cmd))"

definition text_lines :: "string \<Rightarrow> string list" where
  "text_lines s = split_char newline s"

lemma finding_updates [simp]:
  "fd_status (pass b su ev) = StatusPass" "fd_severity (pass b su ev) = SeverityInfo" "fd_id (pass b su ev) = fd_id b"
  "fd_status (unknown b su) = StatusUnknown" "fd_status (unknown_with_evidence b su ev) = StatusUnknown"
  "fd_id (unknown b su) = fd_id b" "fd_id (unknown_with_evidence b su ev) = fd_id b"
  "fd_id (base_finding i c t v) = i" "fd_status (base_finding i c t v) = []"
  by (simp_all add: pass_def unknown_def unknown_with_evidence_def base_finding_def)

lemma statuses [simp]:
  "StatusFail \<noteq> StatusPass" "StatusWarning \<noteq> StatusPass" "StatusUnknown \<noteq> StatusPass"
  by (simp_all add: StatusPass_def StatusFail_def StatusWarning_def StatusUnknown_def)

lemma updates_pass:
  assumes "fd_status (check_updates s) = StatusPass"
  shows "tool_says s [''apt-get'', ''-s'', ''-o'', ''Debug::NoLocking=1'', ''upgrade'']
           (\<lambda>out. \<forall>l \<in> set (text_lines out). \<not> has_prefix l ''Inst '') \<or>
    tool_says s [''dnf'', ''check-update'', ''-q''] (\<lambda>out. trim_space out = []) \<or>
    tool_says s [''apk'', ''version'', ''-l'', ''<''] (\<lambda>out. \<forall>l \<in> set (text_lines out). trim_space l = [])"
  using assms
  by (auto simp: check_updates_def Let_def tool_says_def text_lines_def count_prefixed_lines_def non_empty_line_count_def
      filter_empty_conv split: if_splits)

lemma ports_pass:
  assumes "fd_status (check_listening_ports s) = StatusPass"
  shows "tool_says s [''ss'', ''-H'', ''-lntu'']
    (\<lambda>out. \<forall>l \<in> set (text_lines out). \<forall>w \<in> set (Go_Strings.fields l). field_port w = None)"
proof -
  have "remdups xs = [] \<longleftrightarrow> xs = []" for xs :: "int list" by simp
  then have "sort (remdups xs) = [] \<longleftrightarrow> xs = []" for xs :: "int list" by (metis list.size(3) length_0_conv length_sort)
  moreover have "List.map_filter f ws = [] \<longleftrightarrow> (\<forall>w \<in> set ws. f w = None)" for f :: "string \<Rightarrow> int option" and ws
    by (induction ws) (simp_all add: List.map_filter_simps split: option.splits)
  ultimately show ?thesis
    using assms by (auto simp: check_listening_ports_def Let_def tool_says_def text_lines_def public_ports_def split: if_splits)
qed

lemma ssh_pass:
  assumes "fd_status (check_ssh_configuration s) = StatusPass"
  shows "\<exists>config. ssh_config s = Some config \<and> config_value config ''passwordauthentication'' \<notin> {[], ''yes''} \<and>
    config_value config ''permitrootlogin'' \<notin> {[], ''yes''}"
  using assms by (auto simp: check_ssh_configuration_def Let_def split: option.splits if_splits)

lemma firewall_pass:
  assumes "fd_status (check_firewall s) = StatusPass"
  shows "tool_says s [''ufw'', ''status''] (\<lambda>out. contains (to_lower out) ''status: active'') \<or>
    tool_says s [''firewall-cmd'', ''--state''] (\<lambda>out. trim_space out = ''running'')"
  using assms by (auto simp: check_firewall_def Let_def tool_says_def split: if_splits)

lemma split_char_concat: "split_char c (a @ c # b) = split_char c a @ split_char c b"
  by (induction a) (auto split: list.splits)

lemma split_char_infix: "w \<in> set (split_char c s) \<Longrightarrow> \<exists>a b. s = a @ w @ b"
proof (induction s arbitrary: w)
  case (Cons x s)
  show ?case
  proof (cases "x = c")
    case True
    then consider "w = []" | "w \<in> set (split_char c s)" using Cons.prems by auto
    then show ?thesis
    proof cases
      case 2
      then obtain a b where "s = a @ w @ b" using Cons.IH by blast
      then show ?thesis by (intro exI [of _ "x # a"] exI [of _ b]) simp
    qed (intro exI [of _ "[]"] exI [of _ "x # s"], simp)
  next
    case False
    obtain v vs where v: "split_char c s = v # vs" by (metis list.exhaust split_char_nonempty)
    then have "w = x # v \<or> w \<in> set vs" using Cons.prems False by simp
    then show ?thesis
    proof
      assume w: "w = x # v"
      have "v # vs = split_char c s" using v by simp
      then have "s = join [c] (v # vs)" by (metis join_split_char)
      then show ?thesis using w by (cases vs) (auto intro: exI [of _ "[]"])
    next
      assume "w \<in> set vs"
      then obtain a b where "s = a @ w @ b" using Cons.IH [of w] v by auto
      then show ?thesis by (intro exI [of _ "x # a"] exI [of _ b]) simp
    qed
  qed
qed simp

lemma line_contains: "l \<in> set (split_char c s) \<Longrightarrow> contains l k \<Longrightarrow> contains s k"
  unfolding contains_iff using split_char_infix [of l c s] by (metis append.assoc)

lemma lower_newline [simp]: "lower_char newline = newline"
  by (simp add: lower_char_def)

definition schedule_part :: "audit_env \<Rightarrow> string list \<Rightarrow> string" where
  "schedule_part s cmd = (if cr_err (au_run s cmd) = None then cr_output (au_run s cmd) @ [newline] else [])"

lemma schedule_parts:
  "schedule_text s = schedule_part s [''systemctl'', ''list-timers'', ''--all'', ''--no-legend'', ''--no-pager''] @
     schedule_part s [''crontab'', ''-l'']"
  by (simp add: schedule_text_def schedule_part_def Let_def)

lemma schedule_line:
  assumes "l \<in> set (split_char newline (to_lower (schedule_part s x @ schedule_part s y)))" "l \<noteq> []"
  shows "\<exists>cmd \<in> {x, y}. cr_err (au_run s cmd) = None \<and> l \<in> set (split_char newline (to_lower (cr_output (au_run s cmd))))"
  using assms
  by (cases "cr_err (au_run s x) = None"; cases "cr_err (au_run s y) = None")
    (auto simp: schedule_part_def to_lower_def split_char_concat)

lemma backups_pass:
  assumes "fd_status (check_backups s) = StatusPass"
  shows "\<exists>cmd \<in> {[''systemctl'', ''list-timers'', ''--all'', ''--no-legend'', ''--no-pager''], [''crontab'', ''-l'']}.
    tool_says s cmd (\<lambda>out. \<exists>k \<in> set backup_keywords. contains (to_lower out) k)"
proof -
  obtain l k where l: "l \<in> set (split_char newline (to_lower (schedule_text s)))" "k \<in> set backup_keywords" "contains l k"
    using assms by (auto simp: check_backups_def Let_def filter_empty_conv list_ex_iff split: if_splits)
  have "l \<noteq> []" using l(2,3) by (auto simp: backup_keywords_def)
  from schedule_line [OF l(1) [unfolded schedule_parts] this] show ?thesis
    unfolding tool_says_def using line_contains [OF _ l(3)] l(2) by blast
qed

definition thirty_days :: duration where "thirty_days = 30 * 24 * hour"

lemma certificates_pass:
  assumes "f \<in> set (check_certificates s)"
  shows "fd_id f = ''certificate-health'' \<and> (fd_status f = StatusPass \<longrightarrow>
    (\<exists>paths. au_glob s ''/etc/letsencrypt/live/*/fullchain.pem'' = Inr paths \<and> readable_certs s paths \<noteq> [] \<and>
      (\<forall>c \<in> set (readable_certs s paths). au_now s + thirty_days \<le> snd c)))"
  using assms
  by (auto simp: check_certificates_def Let_def time_before_def time_add_def thirty_days_def filter_empty_conv
      case_prod_beta not_less not_le split: sum.splits if_splits)

text \<open>What a pass of each check rests on.\<close>

definition pass_evidence :: "audit_env \<Rightarrow> string \<Rightarrow> bool" where
  "pass_evidence s check =
     (if check = ''system-updates'' then
        tool_says s [''apt-get'', ''-s'', ''-o'', ''Debug::NoLocking=1'', ''upgrade'']
          (\<lambda>out. \<forall>l \<in> set (text_lines out). \<not> has_prefix l ''Inst '') \<or>
        tool_says s [''dnf'', ''check-update'', ''-q''] (\<lambda>out. trim_space out = []) \<or>
        tool_says s [''apk'', ''version'', ''-l'', ''<''] (\<lambda>out. \<forall>l \<in> set (text_lines out). trim_space l = [])
      else if check = ''public-listeners'' then
        tool_says s [''ss'', ''-H'', ''-lntu'']
          (\<lambda>out. \<forall>l \<in> set (text_lines out). \<forall>w \<in> set (Go_Strings.fields l). field_port w = None)
      else if check = ''ssh-hardening'' then
        (\<exists>config. ssh_config s = Some config \<and> config_value config ''passwordauthentication'' \<notin> {[], ''yes''} \<and>
          config_value config ''permitrootlogin'' \<notin> {[], ''yes''})
      else if check = ''host-firewall'' then
        tool_says s [''ufw'', ''status''] (\<lambda>out. contains (to_lower out) ''status: active'') \<or>
        tool_says s [''firewall-cmd'', ''--state''] (\<lambda>out. trim_space out = ''running'')
      else if check = ''backup-schedule'' then
        (\<exists>cmd \<in> {[''systemctl'', ''list-timers'', ''--all'', ''--no-legend'', ''--no-pager''], [''crontab'', ''-l'']}.
          tool_says s cmd (\<lambda>out. \<exists>k \<in> set backup_keywords. contains (to_lower out) k))
      else check = ''certificate-health'' \<and>
        (\<exists>paths. au_glob s ''/etc/letsencrypt/live/*/fullchain.pem'' = Inr paths \<and> readable_certs s paths \<noteq> [] \<and>
          (\<forall>c \<in> set (readable_certs s paths). au_now s + thirty_days \<le> snd c)))"

lemma check_ids:
  "fd_id (check_updates s) = ''system-updates''" "fd_id (check_listening_ports s) = ''public-listeners''"
  "fd_id (check_ssh_configuration s) = ''ssh-hardening''" "fd_id (check_firewall s) = ''host-firewall''"
  "fd_id (check_backups s) = ''backup-schedule''"
  by (simp_all add: check_updates_def check_listening_ports_def check_ssh_configuration_def check_firewall_def
      check_backups_def Let_def base_finding_def pass_def unknown_def unknown_with_evidence_def split: option.splits)

lemma pass_evidence_checks:
  "fd_status (check_updates s) = StatusPass \<Longrightarrow> pass_evidence s ''system-updates''"
  "fd_status (check_listening_ports s) = StatusPass \<Longrightarrow> pass_evidence s ''public-listeners''"
  "fd_status (check_ssh_configuration s) = StatusPass \<Longrightarrow> pass_evidence s ''ssh-hardening''"
  "fd_status (check_firewall s) = StatusPass \<Longrightarrow> pass_evidence s ''host-firewall''"
  "fd_status (check_backups s) = StatusPass \<Longrightarrow> pass_evidence s ''backup-schedule''"
  "f \<in> set (check_certificates s) \<Longrightarrow> fd_status f = StatusPass \<Longrightarrow> pass_evidence s ''certificate-health''"
  by (simp_all only: pass_evidence_def if_True if_False list.inject char.inject simp_thms list.distinct
      updates_pass ports_pass ssh_pass firewall_pass backups_pass certificates_pass)


text \<open>A Debian host on which only \<open>apt-get\<close> answers, and the file of the SSH daemon is readable.\<close>

definition apt_env :: "string \<Rightarrow> audit_env" where
  "apt_env sshd =
     \<lparr>au_run = (\<lambda>cmd. if hd cmd = ''apt-get'' then \<lparr>cr_output = ''Reading package lists...'', cr_err = None\<rparr>
                     else \<lparr>cr_output = [], cr_err = Some (OtherError ''not found'')\<rparr>),
      au_read_file = (\<lambda>f. if f = ''/etc/os-release'' then Inr ''ID=debian'' else if f = ''/etc/ssh/sshd_config'' then Inr sshd
                         else Inl ''no such file''),
      au_glob = (\<lambda>p. Inr []), au_certificate = (\<lambda>d. None), au_now = 100 * hour, au_platform = ''linux''\<rparr>"


subsection \<open>The SSH settings\<close>

text \<open>
  What sshd_config(5) documents: for each keyword the first value obtained is used. Comments, case of
  the keyword and white space are read as \<open>configValue\<close> reads them.
\<close>

definition sshd_first_value :: "string \<Rightarrow> string \<Rightarrow> string" where
  "sshd_first_value config key =
     (case filter (\<lambda>l. \<not> has_prefix (trim_space l) ''#'' \<and> 2 \<le> length (Go_Strings.fields (trim_space l)) \<and>
                      equal_fold (Go_Strings.fields (trim_space l) ! 0) key) (split_char newline config) of
        [] \<Rightarrow> [] | l # _ \<Rightarrow> to_lower (Go_Strings.fields (trim_space l) ! 1))"

definition shadowed_config :: string where
  "shadowed_config = ''PasswordAuthentication yes'' @ [newline] @ ''PermitRootLogin no'' @ [newline] @
     ''PasswordAuthentication no'' @ [newline]"

text \<open>
  The SSH check can pass a host that accepts passwords. When the effective configuration cannot be
  printed, which needs privileges the agent lacks, the check reads the file, where the last value of
  a setting wins, while sshd uses the first: a file that says yes first and no later passes.
\<close>
theorem ssh_check_reads_last_value:
  "\<exists>s config. cr_err (au_run s [''sshd'', ''-T'']) \<noteq> None \<and> au_read_file s ''/etc/ssh/sshd_config'' = Inr config \<and>
     sshd_first_value config ''passwordauthentication'' = ''yes'' \<and>
     fd_status (check_ssh_configuration s) = StatusPass"
proof -
  let ?s = "apt_env shadowed_config"
  have "cr_err (au_run ?s [''sshd'', ''-T'']) \<noteq> None" "au_read_file ?s ''/etc/ssh/sshd_config'' = Inr shadowed_config"
    by (simp_all add: apt_env_def)
  moreover have "sshd_first_value shadowed_config ''passwordauthentication'' = ''yes''" by code_simp
  moreover have "fd_status (check_ssh_configuration ?s) = StatusPass" by code_simp
  ultimately show ?thesis by blast
qed

subsection \<open>The cache\<close>

text \<open>A run of calls: when each was made, the report the scanner would make then, and the refresh flag;
  the answer is whether the scanner was run and the report returned.\<close>

type_synonym scan_call = "time \<times> report \<times> bool"

definition cached_after :: "cached_scanner \<Rightarrow> scan_call list \<Rightarrow> cached_scanner" where
  "cached_after s cs = foldl (\<lambda>s (now, fresh, refresh). fst (cached_scan now fresh refresh s)) s cs"

definition scanned_at :: "cached_scanner \<Rightarrow> scan_call list \<Rightarrow> nat \<Rightarrow> bool" where
  "scanned_at s cs k = (case cs ! k of (now, fresh, refresh) \<Rightarrow> \<not> cache_hit now refresh (cached_after s (take k cs)))"

definition answer_at :: "cached_scanner \<Rightarrow> scan_call list \<Rightarrow> nat \<Rightarrow> report" where
  "answer_at s cs k = (case cs ! k of (now, fresh, refresh) \<Rightarrow> snd (cached_scan now fresh refresh (cached_after s (take k cs))))"

definition call_time :: "scan_call list \<Rightarrow> nat \<Rightarrow> time" where "call_time cs k = fst (cs ! k)"
definition call_report :: "scan_call list \<Rightarrow> nat \<Rightarrow> report" where "call_report cs k = fst (snd (cs ! k))"
definition call_refresh :: "scan_call list \<Rightarrow> nat \<Rightarrow> bool" where "call_refresh cs k = snd (snd (cs ! k))"

text \<open>Reports are stamped during their call and calls do not overlap: the mutex is held throughout.\<close>

definition calls_in_order :: "scan_call list \<Rightarrow> bool" where
  "calls_in_order cs \<longleftrightarrow>
     (\<forall>k < length cs. 0 < call_time cs k \<and> call_time cs k \<le> rp_generated_at (call_report cs k)) \<and>
     (\<forall>k. Suc k < length cs \<longrightarrow> rp_generated_at (call_report cs k) \<le> call_time cs (Suc k))"

lemma calls_ordered:
  "calls_in_order cs \<Longrightarrow> i < j \<Longrightarrow> j < length cs \<Longrightarrow> rp_generated_at (call_report cs i) \<le> call_time cs j"
proof (induction j)
  case (Suc j)
  have s: "rp_generated_at (call_report cs j) \<le> call_time cs (Suc j)" using Suc.prems by (simp add: calls_in_order_def)
  have "call_time cs j \<le> rp_generated_at (call_report cs j)" using Suc.prems by (simp add: calls_in_order_def)
  then show ?case using Suc s by (cases "i = j") auto
qed simp

lemma cached_after_Suc:
  "k < length cs \<Longrightarrow> cached_after s (take (Suc k) cs) =
    (if scanned_at s cs k then (cached_after s (take k cs))\<lparr>cs_report := call_report cs k\<rparr> else cached_after s (take k cs))"
  by (cases "cs ! k") (simp add: cached_after_def take_Suc_conv_app_nth scanned_at_def cached_scan_def call_report_def)

lemma cached_ttl: "cs_ttl (cached_after s cs) = cs_ttl s"
  unfolding cached_after_def
  by (induction cs rule: rev_induct) (auto simp: cached_scan_def split: prod.splits)

text \<open>The stored report is the last one made, and every earlier one is at most as recent.\<close>

definition stored_last :: "cached_scanner \<Rightarrow> scan_call list \<Rightarrow> nat \<Rightarrow> bool" where
  "stored_last s cs k \<longleftrightarrow>
     (cs_report (cached_after s (take k cs)) = zero_report \<and> (\<forall>i < k. \<not> scanned_at s cs i)) \<or>
     (\<exists>i < k. scanned_at s cs i \<and> cs_report (cached_after s (take k cs)) = call_report cs i \<and>
       (\<forall>j < k. scanned_at s cs j \<longrightarrow> j \<le> i))"

lemma stored_last: "k \<le> length cs \<Longrightarrow> cs_report s = zero_report \<Longrightarrow> stored_last s cs k"
proof (induction k)
  case 0
  then show ?case by (simp add: stored_last_def cached_after_def)
next
  case (Suc k)
  then have IH: "stored_last s cs k" and k: "k < length cs" by simp_all
  show ?case
  proof (cases "scanned_at s cs k")
    case True
    then show ?thesis unfolding stored_last_def cached_after_Suc [OF k] by (auto intro!: exI [of _ k])
  next
    case False
    then show ?thesis using IH unfolding stored_last_def cached_after_Suc [OF k] by (auto simp: less_Suc_eq)
  qed
qed

text \<open>
  C29. The scan cache. Over any run of calls, a call that is not asked to refresh and still runs the
  scanner does so at least the time to live after every report made before it, and a call that does
  not run it returns a report an earlier call made less than the time to live ago; a refresh always
  returns a report of its own.
\<close>
theorem cached_scans_spaced_and_fresh:
  assumes "calls_in_order cs" "k < length cs" "0 < ttl" "in_int64 ttl"
  shows "(scanned_at (new_cached_scanner ttl) cs k \<longrightarrow> answer_at (new_cached_scanner ttl) cs k = call_report cs k \<and>
      (\<not> call_refresh cs k \<longrightarrow> (\<forall>i < k. scanned_at (new_cached_scanner ttl) cs i \<longrightarrow>
         rp_generated_at (call_report cs i) + ttl \<le> call_time cs k))) \<and>
    (\<not> scanned_at (new_cached_scanner ttl) cs k \<longrightarrow> \<not> call_refresh cs k \<and>
      (\<exists>i < k. scanned_at (new_cached_scanner ttl) cs i \<and> answer_at (new_cached_scanner ttl) cs k = call_report cs i \<and>
         call_time cs k < rp_generated_at (call_report cs i) + ttl))"
proof -
  let ?s = "new_cached_scanner ttl" and ?st = "cached_after (new_cached_scanner ttl) (take k cs)"
  obtain now fresh refresh where c: "cs ! k = (now, fresh, refresh)" by (rule prod_cases3)
  have f: "call_time cs k = now" "call_report cs k = fresh" "call_refresh cs k = refresh"
    by (simp_all add: call_time_def call_report_def call_refresh_def c)
  have t: "cs_ttl ?st = ttl" by (simp add: cached_ttl new_cached_scanner_def)
  have st: "stored_last ?s cs k" using assms(2) by (intro stored_last) (simp_all add: new_cached_scanner_def)
  have hit: "scanned_at ?s cs k \<longleftrightarrow> \<not> cache_hit now refresh ?st"
    "answer_at ?s cs k = (if cache_hit now refresh ?st then cs_report ?st else fresh)"
    by (simp_all add: scanned_at_def answer_at_def cached_scan_def c)
  have gap: "rp_generated_at (call_report cs i) + ttl \<le> now \<longleftrightarrow> ttl \<le> time_sub now (rp_generated_at (call_report cs i))" for i
    using sat_int64_pos_iff [OF assms(3,4), of "now - rp_generated_at (call_report cs i)"] by (auto simp: time_sub_def)
  have pos: "0 < rp_generated_at (call_report cs i)" if "i < length cs" for i
    using assms(1) that by (fastforce simp: calls_in_order_def)
  show ?thesis
  proof (cases "cache_hit now refresh ?st")
    case True
    then have "cs_report ?st \<noteq> zero_report" by (auto simp: cache_hit_def zero_report_def is_zero_time_def zero_time_def)
    then obtain i where i: "i < k" "scanned_at ?s cs i" "cs_report ?st = call_report cs i"
      using st by (auto simp: stored_last_def)
    then have "now < rp_generated_at (call_report cs i) + ttl" using True gap [of i] by (simp add: cache_hit_def t)
    then show ?thesis using True i hit f by (auto simp: cache_hit_def)
  next
    case False
    have "rp_generated_at (call_report cs j) + ttl \<le> now" if j: "j < k" "scanned_at ?s cs j" "\<not> refresh" for j
    proof -
      obtain i where i: "i < k" "cs_report ?st = call_report cs i" "j \<le> i" using st j by (auto simp: stored_last_def)
      have "call_time cs i \<le> rp_generated_at (call_report cs i)" using assms(1,2) i(1) by (simp add: calls_in_order_def)
      then have "rp_generated_at (call_report cs j) \<le> rp_generated_at (call_report cs i)"
        using calls_ordered [OF assms(1), of j i] i assms(2) by (cases "j = i") simp_all
      moreover have "rp_generated_at (call_report cs i) + ttl \<le> now"
        using False j(3) i(2) pos [of i] i(1) assms(2) gap [of i] by (simp add: cache_hit_def t is_zero_time_def)
      ultimately show ?thesis by linarith
    qed
    then show ?thesis using False hit f by auto
  qed
qed

definition report_at :: "time \<Rightarrow> report" where
  "report_at t = zero_report\<lparr>rp_generated_at := t\<rparr>"

definition three_calls :: "scan_call list" where
  "three_calls = [(hour, report_at (hour + second), False), (hour + minute, report_at (hour + 2 * minute), False),
     (2 * hour, report_at (2 * hour + second), False)]"

theorem cached_scans_spaced_and_fresh_witness:
  "answer_at (new_cached_scanner (5 * minute)) three_calls 1 = report_at (hour + second) \<and>
   answer_at (new_cached_scanner (5 * minute)) three_calls 2 = report_at (2 * hour + second)"
proof -
  let ?s = "new_cached_scanner (5 * minute)"
  have o: "calls_in_order three_calls"
    by (auto simp: calls_in_order_def three_calls_def call_time_def call_report_def report_at_def nth_Cons split: nat.splits)
  have l: "1 < length three_calls" "2 < length three_calls" by (simp_all add: three_calls_def)
  have t: "0 < 5 * minute" "in_int64 (5 * minute)" by (simp_all add: in_int64_iff)
  have r: "\<not> scanned_at ?s three_calls 1" "scanned_at ?s three_calls 2" by (code_simp, code_simp)
  have "\<exists>i < 1. answer_at ?s three_calls 1 = call_report three_calls i"
    using cached_scans_spaced_and_fresh [OF o l(1) t] r(1) by blast
  moreover have "answer_at ?s three_calls 2 = call_report three_calls 2"
    using cached_scans_spaced_and_fresh [OF o l(2) t] r(2) by blast
  ultimately show ?thesis by (simp add: call_report_def three_calls_def)
qed

end
