(* ===== verification/Go_Utf8.thy ===== *)
theory Go_Utf8
  imports Go_Base
begin

text \<open>
  UTF-8 as unicode/utf8 validates it, and what \<open>json.Marshal\<close> does with a string that is not valid: each
  byte that starts no valid sequence becomes the replacement character. A valid string is unchanged, and
  the result is always valid.
\<close>

definition byte_in :: "nat \<Rightarrow> nat \<Rightarrow> nat \<Rightarrow> bool" where
  "byte_in lo hi b \<longleftrightarrow> lo \<le> b \<and> b \<le> hi"

text \<open>The code points of a byte string; \<open>None\<close> when it is not valid UTF-8.\<close>

fun utf8_decode :: "nat list \<Rightarrow> nat list option" where
  "utf8_decode [] = Some []"
| "utf8_decode (b # bs) =
     (if b < 0x80 then map_option ((#) b) (utf8_decode bs)
      else if byte_in 0xC2 0xDF b then
        (case bs of
           c # r \<Rightarrow> if byte_in 0x80 0xBF c then map_option ((#) ((b - 0xC0) * 64 + (c - 0x80))) (utf8_decode r) else None
         | _ \<Rightarrow> None)
      else if byte_in 0xE0 0xEF b then
        (case bs of
           c # d # r \<Rightarrow>
             if byte_in (if b = 0xE0 then 0xA0 else 0x80) (if b = 0xED then 0x9F else 0xBF) c \<and> byte_in 0x80 0xBF d
             then map_option ((#) ((b - 0xE0) * 4096 + (c - 0x80) * 64 + (d - 0x80))) (utf8_decode r) else None
         | _ \<Rightarrow> None)
      else if byte_in 0xF0 0xF4 b then
        (case bs of
           c # d # e # r \<Rightarrow>
             if byte_in (if b = 0xF0 then 0x90 else 0x80) (if b = 0xF4 then 0x8F else 0xBF) c \<and> byte_in 0x80 0xBF d \<and>
                byte_in 0x80 0xBF e
             then map_option ((#) ((b - 0xF0) * 262144 + (c - 0x80) * 4096 + (d - 0x80) * 64 + (e - 0x80))) (utf8_decode r)
             else None
         | _ \<Rightarrow> None)
      else None)"

text \<open>The length of the valid sequence at the head of the bytes.\<close>

fun utf8_len :: "nat list \<Rightarrow> nat option" where
  "utf8_len [] = None"
| "utf8_len (b # bs) =
     (if b < 0x80 then Some 1
      else if byte_in 0xC2 0xDF b then
        (case bs of c # r \<Rightarrow> if byte_in 0x80 0xBF c then Some 2 else None | _ \<Rightarrow> None)
      else if byte_in 0xE0 0xEF b then
        (case bs of
           c # d # r \<Rightarrow>
             if byte_in (if b = 0xE0 then 0xA0 else 0x80) (if b = 0xED then 0x9F else 0xBF) c \<and> byte_in 0x80 0xBF d
             then Some 3 else None
         | _ \<Rightarrow> None)
      else if byte_in 0xF0 0xF4 b then
        (case bs of
           c # d # e # r \<Rightarrow>
             if byte_in (if b = 0xF0 then 0x90 else 0x80) (if b = 0xF4 then 0x8F else 0xBF) c \<and> byte_in 0x80 0xBF d \<and>
                byte_in 0x80 0xBF e
             then Some 4 else None
         | _ \<Rightarrow> None)
      else None)"

function utf8_coerce :: "nat list \<Rightarrow> nat list" where
  "utf8_coerce [] = []"
| "utf8_coerce (b # bs) =
     (case utf8_len (b # bs) of
        None \<Rightarrow> 0xEF # 0xBF # 0xBD # utf8_coerce bs
      | Some n \<Rightarrow> take n (b # bs) @ utf8_coerce (drop (n - 1) bs))"
  by pat_completeness auto
termination by (relation "measure length") auto

definition json_string :: "string \<Rightarrow> string" where
  "json_string s = map char_of (utf8_coerce (map of_char s))"

definition valid_utf8 :: "string \<Rightarrow> bool" where
  "valid_utf8 s \<longleftrightarrow> utf8_decode (map of_char s) \<noteq> None"

lemma utf8_decode_len:
  assumes "utf8_decode (b # bs) \<noteq> None"
  shows "\<exists>n. utf8_len (b # bs) = Some (Suc n) \<and> utf8_decode (drop n bs) \<noteq> None"
proof -
  note [simp del] = utf8_decode.simps(2) utf8_len.simps(2)
  note simps = utf8_decode.simps(2) [of b bs] utf8_len.simps(2) [of b bs]
  consider "b < 0x80" | "\<not> b < 0x80" "byte_in 0xC2 0xDF b" | "\<not> b < 0x80" "\<not> byte_in 0xC2 0xDF b" "byte_in 0xE0 0xEF b"
    | "\<not> b < 0x80" "\<not> byte_in 0xC2 0xDF b" "\<not> byte_in 0xE0 0xEF b" "byte_in 0xF0 0xF4 b"
    using assms by (fastforce simp: simps)
  then show ?thesis
  proof cases
    case 1
    then show ?thesis using assms by (intro exI [of _ 0]) (auto simp: simps)
  next
    case 2
    then obtain c r where "bs = c # r" "byte_in 0x80 0xBF c" "utf8_decode r \<noteq> None"
      using assms by (auto simp: simps split: list.splits if_splits)
    then show ?thesis using 2 by (intro exI [of _ 1]) (simp add: utf8_len.simps(2) [of b "c # r"])
  next
    case 3
    then obtain c d r where "bs = c # d # r" "byte_in 0x80 0xBF d"
      "byte_in (if b = 0xE0 then 0xA0 else 0x80) (if b = 0xED then 0x9F else 0xBF) c" "utf8_decode r \<noteq> None"
      using assms by (auto simp: simps split: list.splits if_splits)
    then show ?thesis using 3 by (intro exI [of _ 2]) (simp add: utf8_len.simps(2) [of b "c # d # r"])
  next
    case 4
    then obtain c d e r where "bs = c # d # e # r" "byte_in 0x80 0xBF d" "byte_in 0x80 0xBF e"
      "byte_in (if b = 0xF0 then 0x90 else 0x80) (if b = 0xF4 then 0x8F else 0xBF) c" "utf8_decode r \<noteq> None"
      using assms by (auto simp: simps split: list.splits if_splits)
    then show ?thesis using 4 by (intro exI [of _ 3]) (simp add: utf8_len.simps(2) [of b "c # d # e # r"])
  qed
qed

lemma utf8_coerce_valid: "utf8_decode bs \<noteq> None \<Longrightarrow> utf8_coerce bs = bs"
proof (induction bs rule: length_induct)
  case (1 bs)
  show ?case
  proof (cases bs)
    case (Cons b r)
    then obtain n where n: "utf8_len (b # r) = Some (Suc n)" "utf8_decode (drop n r) \<noteq> None"
      using utf8_decode_len 1(2) by blast
    have "utf8_coerce (drop n r) = drop n r" using 1(1) n(2) Cons by simp
    then show ?thesis using n(1) by (simp add: Cons del: utf8_len.simps)
  qed simp
qed

lemma json_string_valid [simp]: "valid_utf8 s \<Longrightarrow> json_string s = s"
  by (simp add: valid_utf8_def json_string_def utf8_coerce_valid comp_def)

lemma utf8_decode_ascii: "\<forall>b \<in> set bs. b < 0x80 \<Longrightarrow> utf8_decode bs = Some bs"
  by (induction bs) simp_all

lemma valid_utf8_ascii: "list_all (\<lambda>c. (of_char c :: nat) < 128) s \<Longrightarrow> valid_utf8 s"
  by (simp add: valid_utf8_def list_all_iff utf8_decode_ascii)

lemma utf8_decode_take:
  assumes "utf8_len (b # bs) = Some n" "utf8_decode r \<noteq> None"
  shows "utf8_decode (take n (b # bs) @ r) \<noteq> None"
proof -
  obtain x where r: "utf8_decode r = Some x" using assms(2) by blast
  have gap: "\<not> byte_in 0xC2 0xDF b" if "byte_in 0xE0 0xEF b" using that by (simp add: byte_in_def)
  have gap2: "\<not> byte_in 0xC2 0xDF b" "\<not> byte_in 0xE0 0xEF b" if "byte_in 0xF0 0xF4 b" using that by (simp_all add: byte_in_def)
  consider "b < 0x80" | "\<not> b < 0x80" "byte_in 0xC2 0xDF b" | "\<not> b < 0x80" "byte_in 0xE0 0xEF b"
    | "\<not> b < 0x80" "byte_in 0xF0 0xF4 b"
    using assms(1) by (auto split: if_splits)
  then show ?thesis
  proof cases
    case 1
    then have "n = Suc 0" using assms(1) by simp
    with 1 show ?thesis using r by simp
  next
    case 2
    then obtain c q where "bs = c # q" "byte_in 0x80 0xBF c" "n = 2" using assms(1) by (auto split: list.splits if_splits)
    then show ?thesis using 2 r by simp
  next
    case 3
    then obtain c d q where "bs = c # d # q" "n = 3"
      "byte_in (if b = 0xE0 then 0xA0 else 0x80) (if b = 0xED then 0x9F else 0xBF) c" "byte_in 0x80 0xBF d"
      using assms(1) gap by (simp split: list.splits if_split_asm)
    then show ?thesis using 3 gap r by simp
  next
    case 4
    then obtain c d e q where "bs = c # d # e # q" "n = 4"
      "byte_in (if b = 0xF0 then 0x90 else 0x80) (if b = 0xF4 then 0x8F else 0xBF) c" "byte_in 0x80 0xBF d" "byte_in 0x80 0xBF e"
      using assms(1) gap2 by (simp split: list.splits if_split_asm)
    then show ?thesis using 4 gap2 r by simp
  qed
qed

lemma utf8_coerce_decodes: "utf8_decode (utf8_coerce bs) \<noteq> None"
proof (induction bs rule: utf8_coerce.induct)
  case (2 b bs)
  show ?case
  proof (cases "utf8_len (b # bs)")
    case None
    then show ?thesis using "2.IH"(1) [OF None] by (simp add: byte_in_def)
  next
    case (Some n)
    then show ?thesis using utf8_decode_take [OF Some "2.IH"(2) [OF Some]] by simp
  qed
qed simp

lemma utf8_coerce_bytes: "list_all (\<lambda>b. b < 256) bs \<Longrightarrow> list_all (\<lambda>b. b < 256) (utf8_coerce bs)"
proof (induction bs rule: utf8_coerce.induct)
  case (2 b bs)
  have "list_all (\<lambda>b. b < 256) (take n bs)" "list_all (\<lambda>b. b < 256) (drop n bs)" for n
    using "2.prems" by (auto simp: list_all_iff dest: in_set_takeD in_set_dropD)
  then show ?case using "2.IH" "2.prems" by (cases "utf8_len (b # bs)") (auto simp: take_Cons split: nat.splits)
qed simp

lemma json_string_utf8 [simp]: "valid_utf8 (json_string s)"
proof -
  have "list_all (\<lambda>b. b < 256) (utf8_coerce (map of_char s))"
    by (intro utf8_coerce_bytes) (simp add: list_all_iff)
  then have "map (of_char \<circ> char_of) (utf8_coerce (map of_char s)) = utf8_coerce (map of_char s)"
    by (intro map_idI) (auto simp: list_all_iff of_char_of)
  then show ?thesis using utf8_coerce_decodes [of "map of_char s"] by (simp add: valid_utf8_def json_string_def)
qed

end
