(* ===== verification/Mosh_Bridge.thy ===== *)
theory Mosh_Bridge
  imports Proc_Parsers Pairing Go_Utf8
begin

text \<open>
  mobile/moshbridge/client.go. The protocol client of mosh-go is outside the repository: what it is
  told is recorded as a list of calls and what it answers is a parameter. UDP addresses are byte lists
  with a port; sockets are numbers in a list of open ones, so that a leaked socket is visible. Base64
  and UTF-8 follow encoding/base64 and unicode/utf8.
\<close>

subsection \<open>Base64\<close>

definition base64_alphabet :: string where
  "base64_alphabet = ''ABCDEFGHIJKLMNOPQRSTUVWXYZabcdefghijklmnopqrstuvwxyz0123456789+/''"

definition b64_val :: "char \<Rightarrow> nat option" where
  "b64_val c = index_byte base64_alphabet c"

definition sextets :: "nat \<Rightarrow> string" where
  "sextets n = map ((!) base64_alphabet) (be_digits 64 4 n)"

definition octets :: "nat \<Rightarrow> byte list" where
  "octets n = map of_nat (be_digits 256 3 n)"

text \<open>\<open>StdEncoding.EncodeToString\<close>, the padding included.\<close>

fun base64_encode :: "byte list \<Rightarrow> string" where
  "base64_encode [] = []"
| "base64_encode [a] = take 2 (sextets (be_value 256 [unat a, 0, 0])) @ ''==''"
| "base64_encode [a, b] = take 3 (sextets (be_value 256 [unat a, unat b, 0])) @ ''=''"
| "base64_encode (a # b # c # bs) = sextets (be_value 256 [unat a, unat b, unat c]) @ base64_encode bs"

text \<open>Decoding of text without line breaks; padding may only close the last group.\<close>

fun base64_groups :: "string \<Rightarrow> byte list option" where
  "base64_groups [] = Some []"
| "base64_groups (a # b # c # d # rest) =
     (case (b64_val a, b64_val b) of
        (Some x, Some y) \<Rightarrow>
          if c = CHR ''='' then
            (if d = CHR ''='' \<and> rest = [] then Some (take 1 (octets (be_value 64 [x, y, 0, 0]))) else None)
          else (case b64_val c of
              None \<Rightarrow> None
            | Some z \<Rightarrow>
                if d = CHR ''='' then (if rest = [] then Some (take 2 (octets (be_value 64 [x, y, z, 0]))) else None)
                else (case b64_val d of
                    None \<Rightarrow> None
                  | Some w \<Rightarrow> map_option ((@) (octets (be_value 64 [x, y, z, w]))) (base64_groups rest)))
      | _ \<Rightarrow> None)"
| "base64_groups _ = None"

text \<open>\<open>StdEncoding.DecodeString\<close>: carriage returns and newlines are skipped.\<close>

definition base64_decode :: "string \<Rightarrow> byte list option" where
  "base64_decode s = base64_groups (filter (\<lambda>c. c \<noteq> newline \<and> c \<noteq> CHR 0x0D) s)"

text \<open>The loop \<open>for len(key)%4 != 0 { key += "=" }\<close>.\<close>

function pad_key :: "string \<Rightarrow> string" where
  "pad_key key = (if length key mod 4 \<noteq> 0 then pad_key (key @ ''='') else key)"
  by pat_completeness auto
termination
proof (relation "measure (\<lambda>k. (4 - length k mod 4) mod 4)")
  fix key :: string
  assume "length key mod 4 \<noteq> 0"
  then have "length key mod 4 = 1 \<or> length key mod 4 = 2 \<or> length key mod 4 = 3" by arith
  then show "(key @ ''='', key) \<in> measure (\<lambda>k. (4 - length k mod 4) mod 4)" by (auto simp: mod_Suc)
qed simp

declare pad_key.simps [simp del]

definition decode_key :: "string \<Rightarrow> byte list result" where
  "decode_key key =
     (case base64_decode (pad_key key) of
        None \<Rightarrow> Inl ''mosh: invalid session key''
      | Some raw \<Rightarrow> if length raw \<noteq> 16 then Inl ''mosh: invalid session key'' else Inr raw)"

subsection \<open>The roaming socket\<close>

record udp_addr =
  ua_ip :: "byte list"
  ua_port :: int

definition v4_prefix :: "byte list" where "v4_prefix = replicate 10 0 @ [255, 255]"

definition ip_to4 :: "byte list \<Rightarrow> byte list option" where
  "ip_to4 ip = (if length ip = 4 then Some ip
                else if length ip = 16 \<and> take 12 ip = v4_prefix then Some (drop 12 ip) else None)"

text \<open>\<open>net.IP.Equal\<close>: an IPv4 address equals its IPv6-mapped form.\<close>

definition ip_equal :: "byte list \<Rightarrow> byte list \<Rightarrow> bool" where
  "ip_equal x y =
     (if length x = length y then x = y
      else if length x = 4 \<and> length y = 16 then take 12 y = v4_prefix \<and> x = drop 12 y
      else if length x = 16 \<and> length y = 4 then take 12 x = v4_prefix \<and> drop 12 x = y
      else False)"

record roaming_conn =
  rc_socket :: nat
  rc_remote :: udp_addr
  rc_received :: bool
  rc_last_received :: int64

text \<open>The sockets of the process: those open, and the outcome of opening one on a network.\<close>

record sockets =
  so_open :: "nat list"
  so_next :: nat

definition new_roaming_conn ::
  "(string \<Rightarrow> byte list \<Rightarrow> string option) \<Rightarrow> udp_addr \<Rightarrow> sockets \<Rightarrow> sockets \<times> roaming_conn result" where
  "new_roaming_conn listen_udp remote so =
     (let (network, local_ip) = (if ip_to4 (ua_ip remote) = None then (''udp6'', replicate 16 0) else (''udp4'', replicate 4 0))
      in case listen_udp network local_ip of
           Some e \<Rightarrow> (so, Inl e)
         | None \<Rightarrow>
             (\<lparr>so_open = so_next so # so_open so, so_next = so_next so + 1\<rparr>,
              Inr \<lparr>rc_socket = so_next so, rc_remote = remote, rc_received = False, rc_last_received = 0\<rparr>))"

definition close_socket :: "nat \<Rightarrow> sockets \<Rightarrow> sockets" where
  "close_socket s so = so\<lparr>so_open := filter (\<lambda>x. x \<noteq> s) (so_open so)\<rparr>"

definition from_remote :: "roaming_conn \<Rightarrow> udp_addr \<Rightarrow> bool" where
  "from_remote c source \<longleftrightarrow> ua_port source = ua_port (rc_remote c) \<and> ip_equal (ua_ip source) (ua_ip (rc_remote c))"

text \<open>
  \<open>Read\<close> over what the socket yields next: datagrams, each with its source and its arrival time in
  milliseconds, or an error of the socket (a deadline that passed, a closed socket). A datagram longer than
  the buffer is cut. \<open>None\<close> while the call is still waiting.
\<close>

datatype udp_event = Datagram udp_addr string int64 | ReadFailed string

fun roaming_read :: "nat \<Rightarrow> udp_event list \<Rightarrow> roaming_conn \<Rightarrow> roaming_conn \<times> string result option" where
  "roaming_read cap [] c = (c, None)"
| "roaming_read cap (ReadFailed e # evs) c = (c, Some (Inl e))"
| "roaming_read cap (Datagram source data now # evs) c =
     (if from_remote c source then (c\<lparr>rc_received := True, rc_last_received := now\<rparr>, Some (Inr (take cap data)))
      else roaming_read cap evs c)"

text \<open>\<open>Write\<close> and \<open>SetReadDeadline\<close> on the socket, given what the operating system does with them.\<close>

definition roaming_write :: "(nat \<Rightarrow> udp_addr \<Rightarrow> string \<Rightarrow> 'r) \<Rightarrow> string \<Rightarrow> roaming_conn \<Rightarrow> 'r" where
  "roaming_write send_udp data c = send_udp (rc_socket c) (rc_remote c) data"

definition set_read_deadline :: "(nat \<Rightarrow> time \<Rightarrow> 'r) \<Rightarrow> time \<Rightarrow> roaming_conn \<Rightarrow> 'r" where
  "set_read_deadline set_deadline t c = set_deadline (rc_socket c) t"

text \<open>Datagrams of other sources do not exist for a reader, and a read ends exactly when the server's
  datagram or an error is there.\<close>

definition heard :: "roaming_conn \<Rightarrow> udp_event \<Rightarrow> bool" where
  "heard c ev = (case ev of Datagram source data now \<Rightarrow> from_remote c source | ReadFailed e \<Rightarrow> True)"

lemma roaming_read_heard: "roaming_read cap evs c = roaming_read cap (filter (heard c) evs) c"
  by (induction cap evs c rule: roaming_read.induct) (auto simp: heard_def)

lemma roaming_read_returns: "snd (roaming_read cap evs c) \<noteq> None \<longleftrightarrow> list_ex (heard c) evs"
  by (induction cap evs c rule: roaming_read.induct) (auto simp: heard_def)

subsection \<open>Dialling\<close>

record mosh_client =
  mc_active :: bool
  mc_conn :: "roaming_conn option"

text \<open>The outside of \<open>Dial\<close>: address resolution, opening a socket, the cipher and the protocol client.\<close>

record dialer =
  di_resolve :: "string \<Rightarrow> int \<Rightarrow> udp_addr result"
  di_listen :: "string \<Rightarrow> byte list \<Rightarrow> string option"
  di_new_ocb :: "byte list \<Rightarrow> string option"
  di_dial_conn :: "roaming_conn \<Rightarrow> string option"

definition dial :: "dialer \<Rightarrow> string \<Rightarrow> int \<Rightarrow> string \<Rightarrow> sockets \<Rightarrow> sockets \<times> mosh_client result" where
  "dial env host_name port key so =
     (if port < 1 \<or> port > 65535 then (so, Inl (''mosh: invalid UDP port '' @ itoa port))
      else case di_resolve env host_name port of
        Inl e \<Rightarrow> (so, Inl (''mosh: resolving host: '' @ e))
      | Inr remote \<Rightarrow>
          (let (so1, opened) = new_roaming_conn (di_listen env) remote so
           in case opened of
                Inl e \<Rightarrow> (so1, Inl (''mosh: opening UDP socket: '' @ e))
              | Inr conn \<Rightarrow>
                  (case decode_key key of
                     Inl e \<Rightarrow> (close_socket (rc_socket conn) so1, Inl e)
                   | Inr raw \<Rightarrow>
                       (case di_new_ocb env raw of
                          Some e \<Rightarrow> (close_socket (rc_socket conn) so1, Inl e)
                        | None \<Rightarrow>
                            (case di_dial_conn env conn of
                               Some e \<Rightarrow> (close_socket (rc_socket conn) so1, Inl e)
                             | None \<Rightarrow> (so1, Inr \<lparr>mc_active = True, mc_conn = Some conn\<rparr>))))))"

subsection \<open>The session\<close>

text \<open>What the bridge tells the protocol client.\<close>

datatype inner_call = InnerSend string | InnerRecv duration | InnerResize "16 word" "16 word" | InnerClose

record session =
  se_client :: mosh_client
  se_calls :: "inner_call list"

definition closed_error :: string where "closed_error = ''mosh: session is closed''"

definition mosh_send :: "string \<Rightarrow> session \<Rightarrow> session \<times> string option" where
  "mosh_send data s =
     (if \<not> mc_active (se_client s) then (s, Some closed_error)
      else (s\<lparr>se_calls := se_calls s @ [InnerSend data]\<rparr>, None))"

text \<open>\<open>recv\<close> is the protocol client's answer; nil becomes empty.\<close>

definition mosh_receive :: "(inner_call list \<Rightarrow> string option) \<Rightarrow> int64 \<Rightarrow> session \<Rightarrow> session \<times> string result" where
  "mosh_receive recv timeout s =
     (if \<not> mc_active (se_client s) then (s, Inl closed_error)
      else let t1 = (if timeout < 1 then 1 else timeout);
               t2 = (if t1 > 30000 then 30000 else t1);
               calls = se_calls s @ [InnerRecv (t2 * millisecond)]
      in (s\<lparr>se_calls := calls\<rparr>, Inr (case recv calls of None \<Rightarrow> [] | Some out \<Rightarrow> out)))"

definition mosh_resize :: "int \<Rightarrow> int \<Rightarrow> session \<Rightarrow> session \<times> string option" where
  "mosh_resize cols rows s =
     (if cols < 1 \<or> cols > 65535 \<or> rows < 1 \<or> rows > 65535
      then (s, Some (''mosh: invalid terminal size '' @ itoa cols @ ''x'' @ itoa rows))
      else if \<not> mc_active (se_client s) then (s, Some closed_error)
      else (s\<lparr>se_calls := se_calls s @ [InnerResize (of_int cols) (of_int rows)]\<rparr>, None))"

definition mosh_is_closed :: "session \<Rightarrow> bool" where
  "mosh_is_closed s \<longleftrightarrow> \<not> mc_active (se_client s)"

definition mosh_has_received :: "session \<Rightarrow> bool" where
  "mosh_has_received s = (case mc_conn (se_client s) of None \<Rightarrow> False | Some c \<Rightarrow> rc_received c)"

definition last_packet_age :: "int64 \<Rightarrow> session \<Rightarrow> int64" where
  "last_packet_age now s =
     (case mc_conn (se_client s) of
        None \<Rightarrow> - 1
      | Some c \<Rightarrow> if rc_last_received c = 0 then - 1 else max 0 (wrap_int64 (now - rc_last_received c)))"

definition mosh_close :: "session \<Rightarrow> session" where
  "mosh_close s =
     \<lparr>se_client = \<lparr>mc_active = False, mc_conn = None\<rparr>,
      se_calls = (if mc_active (se_client s) then se_calls s @ [InnerClose] else se_calls s)\<rparr>"

text \<open>A datagram reaching the socket while the protocol client is reading.\<close>

definition packet_arrives :: "udp_addr \<Rightarrow> string \<Rightarrow> int64 \<Rightarrow> session \<Rightarrow> session" where
  "packet_arrives source data now s =
     (case mc_conn (se_client s) of
        None \<Rightarrow> s
      | Some c \<Rightarrow> s\<lparr>se_client := (se_client s)\<lparr>mc_conn := Some (fst (roaming_read (length data) [Datagram source data now] c))\<rparr>\<rparr>)"

subsection \<open>Local echo\<close>

definition is_control :: "nat \<Rightarrow> bool" where
  "is_control r \<longleftrightarrow> r < 0x20 \<or> 0x7F \<le> r \<and> r \<le> 0x9F"

definition underline_on :: string where "underline_on = CHR 0x1B # ''[4m''"
definition underline_off :: string where "underline_off = CHR 0x1B # ''[24m''"

text \<open>\<open>None\<close> is the nil result: no prediction.\<close>

definition predictive_echo :: "string \<Rightarrow> string option" where
  "predictive_echo input =
     (if input = [] \<or> 32 < length input then None
      else case utf8_decode (map of_char input) of
        None \<Rightarrow> None
      | Some rs \<Rightarrow> if list_ex is_control rs then None else Some (underline_on @ input @ underline_off))"

end
