(* ===== verification/Mosh_Claims.thy ===== *)
theory Mosh_Claims
  imports Mosh_Bridge
begin

text \<open>The bridge's guarantees to the app: session keys, sockets, the life of a session, local echo.\<close>

subsection \<open>Session keys\<close>

lemma distinct_base64: "distinct base64_alphabet" "length base64_alphabet = 64"
  by (simp_all add: base64_alphabet_def)

lemma index_byte_nth: "distinct s \<Longrightarrow> i < length s \<Longrightarrow> index_byte s (s ! i) = Some i"
proof (induction s arbitrary: i)
  case (Cons c s)
  show ?case
  proof (cases i)
    case (Suc j)
    then have "s ! j \<noteq> c" using Cons.prems nth_mem [of j s] by auto
    then show ?thesis using Cons Suc by simp
  qed simp
qed simp

lemma base64_clean: "set base64_alphabet \<inter> {CHR ''='', newline, CHR 0x0D} = {}"
  by (simp add: base64_alphabet_def)

lemma b64_alphabet:
  assumes "i < 64"
  shows "b64_val (base64_alphabet ! i) = Some i" "base64_alphabet ! i \<notin> {CHR ''='', newline, CHR 0x0D}"
  using assms index_byte_nth [of base64_alphabet i] nth_mem [of i base64_alphabet] distinct_base64 base64_clean
  by (auto simp only: b64_val_def)

lemma length_four: "length xs = 4 \<Longrightarrow> \<exists>x y z w. xs = [x, y, z, w]" for xs :: "'a list"
  by (auto simp: numeral_eq_Suc length_Suc_conv)

lemma be_four:
  assumes "n < 64 ^ 4"
  shows "\<exists>x y z w. be_digits 64 4 n = [x, y, z, w] \<and> x < 64 \<and> y < 64 \<and> z < 64 \<and> w < 64 \<and> be_value 64 [x, y, z, w] = n"
proof -
  obtain x y z w where d: "be_digits 64 4 n = [x, y, z, w]" using length_four [OF length_be_digits] by blast
  have "\<forall>v \<in> set (be_digits 64 4 n). v < 64" using be_digits_less [of 64 _ 4 n] by simp
  moreover have "be_value 64 (be_digits 64 4 n) = n" using assms by (intro be_value_digits) simp_all
  ultimately show ?thesis unfolding d by (intro exI conjI refl) (simp_all only: list.set insert_iff, blast+)
qed

lemma octets_bytes: "octets (be_value 256 [unat a, unat b, unat c]) = [a, b, c]" for a b c :: byte
proof -
  have "be_digits 256 (length (map unat [a, b, c])) (be_value 256 (map unat [a, b, c])) = map unat [a, b, c]"
    by (rule be_digits_value [OF bytes_digits])
  then have "be_digits 256 3 (be_value 256 [unat a, unat b, unat c]) = [unat a, unat b, unat c]"
    by (simp only: list.map list.size numeral_3_eq_3 add_Suc_right add_0_right One_nat_def)
  then show ?thesis by (simp only: octets_def list.map of_nat_unat ucast_id)
qed

lemma three_bytes_less: "be_value 256 [unat a, unat b, unat c] < 64 ^ 4" for a b c :: byte
proof -
  have "be_value 256 (map unat [a, b, c]) < 256 ^ length (map unat [a, b, c])" by (rule be_value_less [OF bytes_digits])
  then show ?thesis by simp
qed

lemma be_value_three: "be_value n [a, b, c] = (a * n + b) * n + c"
  by (simp add: be_value_def)

lemma unat_0_byte: "unat (0 :: byte) = 0" by simp

text \<open>The four digits of a short last group end in zeros.\<close>

lemma digits_zero_tail:
  assumes "be_digits 64 4 (be_value 256 [a, b, 0]) = [x, y, z, w]"
  shows "w = 0" "b = 0 \<Longrightarrow> z = 0"
proof -
  have w: "w = be_value 256 [a, b, 0] mod 64" and z: "z = be_value 256 [a, b, 0] div 64 mod 64"
    using assms by (simp_all add: be_digits_numeral)
  have "be_value 256 [a, b, 0] = 64 * (4 * (a * 256 + b))" by (simp add: be_value_three)
  then show "w = 0" using w by simp
  show "z = 0" if "b = 0"
  proof -
    have "be_value 256 [a, b, 0] = 64 * (64 * (16 * a))" using that by (simp add: be_value_three)
    then show ?thesis using z by (simp only: nonzero_mult_div_cancel_left zero_neq_numeral not_False_eq_True mod_mult_self1_is_0)
  qed
qed

lemma base64_groups_encode: "base64_groups (base64_encode bs) = Some bs"
proof (induction bs rule: base64_encode.induct)
  case (2 a)
  obtain x y z w where d: "be_digits 64 4 (be_value 256 [unat a, 0, 0]) = [x, y, z, w]" "x < 64" "y < 64"
    "be_value 64 [x, y, z, w] = be_value 256 [unat a, 0, 0]"
    using be_four [OF three_bytes_less [of a 0 0]] unfolding unat_0_byte by blast
  have "octets (be_value 64 [x, y, 0, 0]) = [a, 0, 0]"
    using octets_bytes [of a 0 0] d(4) digits_zero_tail [OF d(1)] by (simp only: unat_0_byte)
  then show ?case using b64_alphabet d(2,3) by (simp add: sextets_def d(1))
next
  case (3 a b)
  obtain x y z w where d: "be_digits 64 4 (be_value 256 [unat a, unat b, 0]) = [x, y, z, w]" "x < 64" "y < 64" "z < 64"
    "be_value 64 [x, y, z, w] = be_value 256 [unat a, unat b, 0]"
    using be_four [OF three_bytes_less [of a b 0]] unfolding unat_0_byte by blast
  have "octets (be_value 64 [x, y, z, 0]) = [a, b, 0]"
    using octets_bytes [of a b 0] d(5) digits_zero_tail [OF d(1)] by (simp only: unat_0_byte)
  then show ?case using b64_alphabet d(2-4) by (simp add: sextets_def d(1))
next
  case (4 a b c bs)
  obtain x y z w where d: "be_digits 64 4 (be_value 256 [unat a, unat b, unat c]) = [x, y, z, w]"
    "x < 64" "y < 64" "z < 64" "w < 64" "be_value 64 [x, y, z, w] = be_value 256 [unat a, unat b, unat c]"
    using be_four [OF three_bytes_less] by blast
  then show ?case using 4 b64_alphabet octets_bytes [of a b c] by (simp add: sextets_def)
qed simp

lemma sextets_clean:
  assumes "c \<in> set (sextets n)"
  shows "c \<notin> {CHR ''='', newline, CHR 0x0D}"
proof -
  obtain d where d: "d \<in> set (be_digits 64 4 n)" "c = base64_alphabet ! d"
    using assms unfolding sextets_def set_map by blast
  have "d < 64" using be_digits_less [OF _ d(1)] by simp
  then show ?thesis unfolding d(2) by (rule b64_alphabet(2))
qed

lemma base64_encode_clean: "c \<in> set (base64_encode bs) \<Longrightarrow> c \<noteq> newline \<and> c \<noteq> CHR 0x0D"
proof (induction bs rule: base64_encode.induct)
  case (2 a)
  then show ?case using sextets_clean [of c "be_value 256 [unat a, 0, 0]"] by (auto dest: in_set_takeD)
next
  case (3 a b)
  then show ?case using sextets_clean [of c "be_value 256 [unat a, unat b, 0]"] by (auto dest: in_set_takeD)
next
  case (4 a b d bs)
  then show ?case using sextets_clean [of c "be_value 256 [unat a, unat b, unat d]"] by auto
qed simp

lemma base64_decode_encode: "base64_decode (base64_encode bs) = Some bs"
proof -
  have "filter (\<lambda>c. c \<noteq> newline \<and> c \<noteq> CHR 0x0D) (base64_encode bs) = base64_encode bs"
    using base64_encode_clean [of _ bs] by (intro filter_True) blast
  then show ?thesis by (simp add: base64_decode_def base64_groups_encode)
qed

lemma pad_key_full: "length k mod 4 = 0 \<Longrightarrow> pad_key k = k"
  by (subst pad_key.simps) simp

lemma pad_key_two: "length k mod 4 = 2 \<Longrightarrow> pad_key k = k @ ''==''"
  by (subst pad_key.simps, subst pad_key.simps, subst pad_key.simps) (simp add: mod_Suc)

text \<open>A sixteen-byte key in base64: 22 characters and two padding signs.\<close>

lemma base64_of_16:
  assumes "length bs = 16"
  shows "\<exists>k. base64_encode bs = k @ ''=='' \<and> length k = 22"
proof -
  have "\<exists>k. base64_encode xs = k @ ''=='' \<and> length k = 4 * n + 2" if "length xs = 3 * n + 1" for xs n
    using that
  proof (induction n arbitrary: xs)
    case 0
    then obtain a where "xs = [a]" by (auto simp: length_Suc_conv)
    then show ?case by (simp add: sextets_def)
  next
    case (Suc n)
    then have "length xs = Suc (Suc (Suc (3 * n + 1)))" by simp
    then obtain a b c r where xs: "xs = a # b # c # r" "length r = 3 * n + 1" by (auto simp: length_Suc_conv)
    then obtain k where "base64_encode r = k @ ''==''" "length k = 4 * n + 2" using Suc.IH by blast
    then show ?case
      by (intro exI [of _ "sextets (be_value 256 [unat a, unat b, unat c]) @ k"]) (simp add: xs sextets_def)
  qed
  from this [of bs 5] show ?thesis using assms by simp
qed

text \<open>
  C33. Session keys. The key the server prints, sixteen bytes in base64, is read back as exactly those
  bytes with its padding or, as mosh prints it, without.
\<close>
theorem session_key_roundtrip:
  assumes "length raw = 16"
  shows "\<exists>k. base64_encode raw = k @ ''=='' \<and> decode_key k = Inr raw \<and> decode_key (k @ ''=='') = Inr raw"
proof -
  obtain k where k: "base64_encode raw = k @ ''==''" "length k = 22" using base64_of_16 [OF assms] by blast
  have "pad_key k = base64_encode raw" using pad_key_two [of k] k by simp
  moreover have "pad_key (k @ ''=='') = base64_encode raw" using pad_key_full [of "k @ ''==''"] k by simp
  ultimately show ?thesis using base64_decode_encode [of raw] assms k(1) by (auto simp: decode_key_def)
qed

theorem session_key_roundtrip_witness:
  "\<exists>k. base64_encode (replicate 16 7) = k @ ''=='' \<and> decode_key k = Inr (replicate 16 7)"
  using session_key_roundtrip [of "replicate 16 7"] by auto

subsection \<open>Dialling leaves no socket behind\<close>

text \<open>
  C24. Dialling is all or nothing. It opens at most one socket: after an error, whatever the cause, the
  open sockets are those from before; after success there is exactly one more, it belongs to the
  client, the port is a UDP port and the key sixteen bytes, and nothing has been received yet.
\<close>
theorem dial_all_or_nothing:
  assumes fresh: "\<forall>s \<in> set (so_open so). s < so_next so" and "dial env host_name port key so = (so', r)"
  shows "(\<forall>e. r = Inl e \<longrightarrow> so_open so' = so_open so) \<and>
    (\<forall>cl. r = Inr cl \<longrightarrow> so_open so' = so_next so # so_open so \<and> 1 \<le> port \<and> port \<le> 65535 \<and>
       (\<exists>c remote raw. cl = \<lparr>mc_active = True, mc_conn = Some c\<rparr> \<and> rc_socket c = so_next so \<and> \<not> rc_received c \<and>
          rc_last_received c = 0 \<and> di_resolve env host_name port = Inr remote \<and> rc_remote c = remote \<and>
          decode_key key = Inr raw \<and> length raw = 16)) \<and>
    (\<forall>s \<in> set (so_open so'). s < so_next so')"
proof -
  have keep: "filter (\<lambda>x. x \<noteq> so_next so) (so_open so) = so_open so" using fresh by (auto intro!: filter_True)
  have key16: "length raw = 16" if "decode_key key = Inr raw" for raw
    using that by (simp add: decode_key_def split: option.splits if_splits)
  have later: "\<forall>s \<in> set (so_open so). s < Suc (so_next so)" using fresh by (simp add: less_SucI)
  show ?thesis
    using assms(2) fresh keep later
    by (auto simp: dial_def new_roaming_conn_def close_socket_def Let_def key16
        split: if_splits sum.splits option.splits prod.splits)
qed

definition loopback :: dialer where
  "loopback = \<lparr>di_resolve = (\<lambda>h p. Inr \<lparr>ua_ip = [127, 0, 0, 1], ua_port = p\<rparr>), di_listen = (\<lambda>_ _. None),
     di_new_ocb = (\<lambda>_. None), di_dial_conn = (\<lambda>_. Some ''refused'')\<rparr>"

theorem dial_all_or_nothing_witness:
  "so_open (fst (dial loopback ''localhost'' 60001 ''AAAAAAAAAAAAAAAAAAAAAA'' \<lparr>so_open = [4, 1], so_next = 7\<rparr>)) = [4, 1] \<and>
   snd (dial loopback ''localhost'' 60001 ''!!!!'' \<lparr>so_open = [4, 1], so_next = 7\<rparr>) = Inl ''mosh: invalid session key''"
proof -
  have key: "decode_key ''!!!!'' = Inl ''mosh: invalid session key''"
    by (simp add: decode_key_def pad_key_full base64_decode_def b64_val_def base64_alphabet_def)
  have err: "\<exists>e. snd (dial loopback ''localhost'' 60001 k \<lparr>so_open = [4, 1], so_next = 7\<rparr>) = Inl e" for k
    by (auto simp: dial_def loopback_def new_roaming_conn_def Let_def split: sum.splits)
  have "so_open (fst (dial loopback ''localhost'' 60001 k \<lparr>so_open = [4, 1], so_next = 7\<rparr>)) = [4, 1]" for k
    using dial_all_or_nothing [OF _ prod.collapse [symmetric], of "\<lparr>so_open = [4, 1], so_next = 7\<rparr>" loopback "''localhost''" 60001 k]
      err [of k] by auto
  then show ?thesis by (simp add: key dial_def loopback_def new_roaming_conn_def Let_def)
qed

subsection \<open>The life of a session\<close>

datatype bridge_op =
    OpSend string
  | OpReceive int64
  | OpResize int int
  | OpClose
  | OpPacket udp_addr string int64

definition bridge_step :: "(inner_call list \<Rightarrow> string option) \<Rightarrow> bridge_op \<Rightarrow> session \<Rightarrow> session" where
  "bridge_step recv op s =
     (case op of
        OpSend d \<Rightarrow> fst (mosh_send d s)
      | OpReceive t \<Rightarrow> fst (mosh_receive recv t s)
      | OpResize c r \<Rightarrow> fst (mosh_resize c r s)
      | OpClose \<Rightarrow> mosh_close s
      | OpPacket a d now \<Rightarrow> packet_arrives a d now s)"

definition bridge_run :: "(inner_call list \<Rightarrow> string option) \<Rightarrow> bridge_op list \<Rightarrow> session \<Rightarrow> session" where
  "bridge_run recv ops s = fold (bridge_step recv) ops s"

fun sent :: "bridge_op list \<Rightarrow> string list" where
  "sent [] = []"
| "sent (OpClose # _) = []"
| "sent (OpSend d # ops) = d # sent ops"
| "sent (_ # ops) = sent ops"

fun forwarded :: "inner_call list \<Rightarrow> string list" where
  "forwarded [] = []"
| "forwarded (InnerSend d # cs) = d # forwarded cs"
| "forwarded (_ # cs) = forwarded cs"

lemma forwarded_append [simp]: "forwarded (xs @ ys) = forwarded xs @ forwarded ys"
  by (induction xs rule: forwarded.induct) simp_all

text \<open>What a call handed to the protocol client may look like.\<close>

definition call_ok :: "bridge_op set \<Rightarrow> inner_call \<Rightarrow> bool" where
  "call_ok ops call \<longleftrightarrow>
     (case call of
        InnerSend _ \<Rightarrow> True
      | InnerRecv d \<Rightarrow> millisecond \<le> d \<and> d \<le> 30000 * millisecond
      | InnerResize c r \<Rightarrow> OpResize (uint c) (uint r) \<in> ops \<and> 0 < c \<and> 0 < r
      | InnerClose \<Rightarrow> True)"

lemma call_ok_mono: "call_ok A call \<Longrightarrow> A \<subseteq> B \<Longrightarrow> call_ok B call"
  by (auto simp: call_ok_def split: inner_call.splits)

lemma uint_of_size: "1 \<le> n \<Longrightarrow> n \<le> 65535 \<Longrightarrow> uint (of_int n :: 16 word) = n"
  by (simp add: unsigned_of_int take_bit_int_eq_self)

lemma size_positive:
  assumes "1 \<le> n" "n \<le> 65535" shows "0 < (of_int n :: 16 word)"
proof -
  have "0 < uint (of_int n :: 16 word)" unfolding uint_of_size [OF assms] using assms by simp
  then show ?thesis by (simp only: word_less_def uint_0_eq)
qed

definition closed_session :: "session \<Rightarrow> bool" where
  "closed_session s \<longleftrightarrow> se_client s = \<lparr>mc_active = False, mc_conn = None\<rparr>"

lemma bridge_run_closed: "closed_session s \<Longrightarrow> bridge_run recv ops s = s"
proof (induction ops)
  case (Cons op ops)
  have "bridge_step recv op s = s"
    using Cons.prems
    by (cases op) (auto simp: closed_session_def bridge_step_def mosh_send_def mosh_receive_def mosh_resize_def
        mosh_close_def packet_arrives_def)
  with Cons show ?case by (simp add: bridge_run_def)
qed (simp add: bridge_run_def)

text \<open>A session that was never closed: what every operation keeps.\<close>

definition open_session :: "udp_addr \<Rightarrow> bridge_op list \<Rightarrow> session \<Rightarrow> bool" where
  "open_session remote ops s \<longleftrightarrow>
     (\<exists>c. se_client s = \<lparr>mc_active = True, mc_conn = Some c\<rparr> \<and> rc_remote c = remote \<and>
        (rc_received c \<longleftrightarrow> (\<exists>a d now. OpPacket a d now \<in> set ops \<and> from_remote c a))) \<and>
     forwarded (se_calls s) = sent ops \<and> InnerClose \<notin> set (se_calls s) \<and> (\<forall>call \<in> set (se_calls s). call_ok (set ops) call)"

lemma sent_append: "OpClose \<notin> set xs \<Longrightarrow> sent (xs @ ys) = sent xs @ sent ys"
  by (induction xs rule: sent.induct) simp_all

lemma recv_bounds:
  fixes t :: int64
  shows "1 \<le> (if (if t < 1 then 1 else t) > 30000 then 30000 else (if t < 1 then 1 else t))"
    "(if (if t < 1 then 1 else t) > 30000 then 30000 else (if t < 1 then 1 else t)) \<le> 30000"
  by simp_all

lemma open_session_step:
  assumes "open_session remote ops s" "OpClose \<notin> set ops" "op \<noteq> OpClose"
  shows "open_session remote (ops @ [op]) (bridge_step recv op s)"
proof -
  obtain c where s: "se_client s = \<lparr>mc_active = True, mc_conn = Some c\<rparr>" "rc_remote c = remote"
    "rc_received c \<longleftrightarrow> (\<exists>a d now. OpPacket a d now \<in> set ops \<and> from_remote c a)"
    "forwarded (se_calls s) = sent ops" "InnerClose \<notin> set (se_calls s)" "\<forall>call \<in> set (se_calls s). call_ok (set ops) call"
    using assms(1) by (auto simp: open_session_def)
  have old: "\<forall>call \<in> set (se_calls s). call_ok (set (ops @ [op])) call"
    using s(6) call_ok_mono [of "set ops" _ "set (ops @ [op])"] by auto
  show ?thesis
  proof (cases op)
    case (OpSend d)
    then show ?thesis using s old assms(2)
      by (auto simp: open_session_def bridge_step_def mosh_send_def sent_append call_ok_def)
  next
    case (OpReceive t)
    then show ?thesis using s old assms(2)
      by (auto simp: open_session_def bridge_step_def mosh_receive_def sent_append call_ok_def Let_def)
  next
    case (OpResize c r)
    then show ?thesis using s old assms(2)
      by (auto simp: open_session_def bridge_step_def mosh_resize_def sent_append call_ok_def uint_of_size size_positive
          simp del: of_int_eq_iff)
  next
    case (OpPacket a d now)
    then show ?thesis using s old assms(2)
      by (auto simp: open_session_def bridge_step_def packet_arrives_def sent_append from_remote_def)
  qed (use assms(3) in simp)
qed

lemma open_session_run:
  "open_session remote ops s \<Longrightarrow> OpClose \<notin> set (ops @ more_ops) \<Longrightarrow> open_session remote (ops @ more_ops) (bridge_run recv more_ops s)"
proof (induction more_ops arbitrary: ops s)
  case (Cons op more_ops)
  have "open_session remote (ops @ [op]) (bridge_step recv op s)" using Cons.prems by (intro open_session_step) auto
  then show ?case using Cons.IH [of "ops @ [op]" "bridge_step recv op s"] Cons.prems(2) by (simp add: bridge_run_def)
qed (simp add: bridge_run_def)

text \<open>The session a successful dial gives, before any operation.\<close>

definition dialled :: "mosh_client \<Rightarrow> session" where
  "dialled cl = \<lparr>se_client = cl, se_calls = []\<rparr>"

definition last_call_closes :: "inner_call list \<Rightarrow> bool" where
  "last_call_closes cs \<longleftrightarrow> (\<exists>bs. cs = bs @ [InnerClose] \<and> InnerClose \<notin> set bs)"

lemma session_invariant:
  assumes "mc_active cl" "mc_conn cl = Some c" "\<not> rc_received c"
  shows "OpClose \<notin> set ops \<Longrightarrow> open_session (rc_remote c) ops (bridge_run recv ops (dialled cl))"
    and "OpClose \<in> set ops \<Longrightarrow> closed_session (bridge_run recv ops (dialled cl)) \<and>
      last_call_closes (se_calls (bridge_run recv ops (dialled cl))) \<and>
      forwarded (se_calls (bridge_run recv ops (dialled cl))) = sent ops \<and>
      (\<forall>call \<in> set (se_calls (bridge_run recv ops (dialled cl))). call_ok (set ops) call)"
proof -
  have "open_session (rc_remote c) [] (dialled cl)" using assms by (cases cl) (simp add: open_session_def dialled_def)
  then have run: "open_session (rc_remote c) xs (bridge_run recv xs (dialled cl))" if "OpClose \<notin> set xs" for xs
    using open_session_run [of "rc_remote c" "[]" "dialled cl" xs recv] that by simp
  then show "OpClose \<notin> set ops \<Longrightarrow> open_session (rc_remote c) ops (bridge_run recv ops (dialled cl))" .
  assume "OpClose \<in> set ops"
  then obtain pre post where ops: "ops = pre @ OpClose # post" "OpClose \<notin> set pre" by (auto dest: split_list_first)
  define s where "s = bridge_run recv pre (dialled cl)"
  have s: "open_session (rc_remote c) pre s" unfolding s_def by (rule run [OF ops(2)])
  have closed: "closed_session (mosh_close s)" by (simp add: closed_session_def mosh_close_def)
  have final: "bridge_run recv ops (dialled cl) = mosh_close s"
    using bridge_run_closed [OF closed, of recv post] by (simp add: bridge_run_def ops(1) s_def bridge_step_def)
  have calls: "se_calls (mosh_close s) = se_calls s @ [InnerClose]" using s by (auto simp: open_session_def mosh_close_def)
  have "\<forall>call \<in> set (se_calls s). call_ok (set ops) call"
    using s call_ok_mono [of "set pre" _ "set ops"] by (auto simp: open_session_def ops(1))
  then have "closed_session (mosh_close s) \<and> last_call_closes (se_calls (mosh_close s)) \<and>
      forwarded (se_calls (mosh_close s)) = sent ops \<and> (\<forall>call \<in> set (se_calls (mosh_close s)). call_ok (set ops) call)"
    using closed s ops(2)
    by (auto simp: calls last_call_closes_def open_session_def call_ok_def [of _ InnerClose] ops(1) sent_append)
  then show "closed_session (bridge_run recv ops (dialled cl)) \<and>
      last_call_closes (se_calls (bridge_run recv ops (dialled cl))) \<and>
      forwarded (se_calls (bridge_run recv ops (dialled cl))) = sent ops \<and>
      (\<forall>call \<in> set (se_calls (bridge_run recv ops (dialled cl))). call_ok (set ops) call)"
    unfolding final .
qed



subsection \<open>Local echo\<close>

text \<open>A byte below 128 of valid UTF-8 is a code point of its own, and C2 followed by a byte is that code point.\<close>

lemma ex4I: "P a b c d \<Longrightarrow> \<exists>a b c d. P a b c d"
  by blast

lemma utf8_step:
  assumes "utf8_decode (b # bs) = Some rs"
  shows "\<exists>tail r cp rs'. bs = tail @ r \<and> (\<forall>t \<in> set tail. 0x80 \<le> t \<and> t \<le> 0xBF) \<and> utf8_decode r = Some rs' \<and> rs = cp # rs' \<and>
    (b < 0x80 \<longrightarrow> tail = [] \<and> cp = b) \<and> (b = 0xC2 \<longrightarrow> tail = [cp])"
proof -
  note [simp del] = utf8_decode.simps(2)
  consider "b < 0x80" | "\<not> b < 0x80" "byte_in 0xC2 0xDF b" | "\<not> b < 0x80" "\<not> byte_in 0xC2 0xDF b" "byte_in 0xE0 0xEF b"
    | "\<not> b < 0x80" "\<not> byte_in 0xC2 0xDF b" "\<not> byte_in 0xE0 0xEF b" "byte_in 0xF0 0xF4 b"
    using assms by (fastforce simp: utf8_decode.simps(2) [of b bs])
  then show ?thesis
  proof cases
    case 1
    then obtain zs where "utf8_decode bs = Some zs" "rs = b # zs" using assms by (auto simp: utf8_decode.simps(2) [of b bs])
    moreover have "b \<noteq> 0xC2" using 1 by simp
    ultimately show ?thesis by (intro ex4I [of _ "[]" bs b zs]) auto
  next
    case 2
    then obtain c r where bs: "bs = c # r" "byte_in 0x80 0xBF c" "map_option ((#) ((b - 0xC0) * 64 + (c - 0x80))) (utf8_decode r) = Some rs"
      using assms by (auto simp: utf8_decode.simps(2) [of b bs] split: list.splits if_splits)
    then show ?thesis using 2 by (intro ex4I [of _ "[c]" r "(b - 0xC0) * 64 + (c - 0x80)" "tl rs"]) (auto simp: byte_in_def)
  next
    case 3
    then obtain c d r cp where bs: "bs = c # d # r" "byte_in 0x80 0xBF d"
      "byte_in (if b = 0xE0 then 0xA0 else 0x80) (if b = 0xED then 0x9F else 0xBF) c" "map_option ((#) cp) (utf8_decode r) = Some rs"
      using assms by (auto simp: utf8_decode.simps(2) [of b bs] split: list.splits if_splits)
    then show ?thesis using 3 by (intro ex4I [of _ "[c, d]" r cp "tl rs"]) (auto simp: byte_in_def split: if_splits)
  next
    case 4
    then obtain c d e r cp where bs: "bs = c # d # e # r" "byte_in 0x80 0xBF d" "byte_in 0x80 0xBF e"
      "byte_in (if b = 0xF0 then 0x90 else 0x80) (if b = 0xF4 then 0x8F else 0xBF) c" "map_option ((#) cp) (utf8_decode r) = Some rs"
      using assms by (auto simp: utf8_decode.simps(2) [of b bs] split: list.splits if_splits)
    then show ?thesis using 4 by (intro ex4I [of _ "[c, d, e]" r cp "tl rs"]) (auto simp: byte_in_def split: if_splits)
  qed
qed

lemma utf8_ascii: "utf8_decode bs = Some rs \<Longrightarrow> b \<in> set bs \<Longrightarrow> b < 0x80 \<Longrightarrow> b \<in> set rs"
proof (induction bs arbitrary: rs rule: length_induct)
  case (1 bs)
  then obtain x xs where bs: "bs = x # xs" by (cases bs) auto
  obtain tail r cp rs' where s: "xs = tail @ r" "\<forall>t \<in> set tail. 0x80 \<le> t \<and> t \<le> 0xBF" "utf8_decode r = Some rs'"
    "rs = cp # rs'" "x < 0x80 \<longrightarrow> cp = x"
    using utf8_step [of x xs rs] 1(2) unfolding bs by blast
  have "b = x \<or> b \<in> set r" using 1(3,4) s(2) by (auto simp: bs s(1))
  moreover have "b \<in> set r \<Longrightarrow> b \<in> set rs'" using 1(1) [rule_format, of r rs'] 1(4) s(3) by (simp add: bs s(1))
  ultimately show ?case using 1(4) s(4,5) by auto
qed

lemma utf8_c1: "utf8_decode (u @ 0xC2 # c # v) = Some rs \<Longrightarrow> c \<in> set rs \<and> 0x80 \<le> c"
proof (induction u arbitrary: rs rule: length_induct)
  case (1 u)
  show ?case
  proof (cases u)
    case Nil
    then show ?thesis using utf8_step [of "0xC2" "c # v" rs] 1(2) by auto
  next
    case (Cons x xs)
    obtain tail r cp rs' where s: "xs @ 0xC2 # c # v = tail @ r" "\<forall>t \<in> set tail. 0x80 \<le> t \<and> t \<le> 0xBF"
      "utf8_decode r = Some rs'" "rs = cp # rs'"
      using utf8_step [of x "xs @ 0xC2 # c # v" rs] 1(2) unfolding Cons append_Cons by blast
    have "0xC2 \<notin> set tail" using s(2) by auto
    then obtain us where us: "xs = tail @ us" "r = us @ 0xC2 # c # v"
      using s(1) \<open>0xC2 \<notin> set tail\<close> by (fastforce simp: append_eq_append_conv2 Cons_eq_append_conv)
    have "c \<in> set rs' \<and> 0x80 \<le> c" using 1(1) [rule_format, of us rs'] s(3) by (simp add: Cons us)
    then show ?thesis by (simp add: s(4))
  qed
qed

text \<open>
  C34. Local echo is safe. A prediction is the input unchanged between the two underline sequences, and
  it is made only for 1 to 32 bytes of which none is an ASCII control character, so that no escape
  sequence of the input reaches the terminal, and no two encode a C1 control character; printable
  ASCII is always echoed.
\<close>
theorem predictive_echo_safe:
  "(\<forall>out. predictive_echo input = Some out \<longrightarrow>
      out = underline_on @ input @ underline_off \<and> 1 \<le> length input \<and> length input \<le> 32 \<and>
      (\<forall>c \<in> set input. 0x20 \<le> (of_char c :: nat) \<and> (of_char c :: nat) \<noteq> 0x7F) \<and>
      (\<forall>u c v. input = u @ CHR 0xC2 # c # v \<longrightarrow> 0x9F < (of_char c :: nat))) \<and>
   (1 \<le> length input \<and> length input \<le> 32 \<and> (\<forall>c \<in> set input. 0x20 \<le> (of_char c :: nat) \<and> (of_char c :: nat) < 0x7F) \<longrightarrow>
      predictive_echo input = Some (underline_on @ input @ underline_off))"
proof (intro conjI allI impI)
  fix out assume "predictive_echo input = Some out"
  then obtain rs where rs: "utf8_decode (map of_char input) = Some rs" "\<not> list_ex is_control rs"
    "out = underline_on @ input @ underline_off" "input \<noteq> []" "length input \<le> 32"
    by (auto simp: predictive_echo_def split: if_splits option.splits)
  have ok: "\<not> is_control r" if "r \<in> set rs" for r using rs(2) that by (auto simp: list_ex_iff)
  show "out = underline_on @ input @ underline_off" "length input \<le> 32" by (fact rs)+
  show "1 \<le> length input" using rs(4) by (cases input) auto
  show "\<forall>c \<in> set input. 0x20 \<le> (of_char c :: nat) \<and> (of_char c :: nat) \<noteq> 0x7F"
  proof
    fix c assume c: "c \<in> set input"
    have "\<not> is_control (of_char c)" if "(of_char c :: nat) < 0x80"
      using ok [OF utf8_ascii [OF rs(1) _ that]] c by simp
    then show "0x20 \<le> (of_char c :: nat) \<and> (of_char c :: nat) \<noteq> 0x7F" by (force simp: is_control_def)
  qed
  fix u c v assume "input = u @ CHR 0xC2 # c # v"
  then have "utf8_decode (map of_char u @ 0xC2 # of_char c # map of_char v) = Some rs" using rs(1) by simp
  then have "(of_char c :: nat) \<in> set rs \<and> 0x80 \<le> (of_char c :: nat)" by (rule utf8_c1)
  then show "0x9F < (of_char c :: nat)" using ok [of "of_char c"] by (auto simp: is_control_def)
next
  assume a: "1 \<le> length input \<and> length input \<le> 32 \<and> (\<forall>c \<in> set input. 0x20 \<le> (of_char c :: nat) \<and> (of_char c :: nat) < 0x7F)"
  have ascii: "\<forall>b \<in> set bs. b < 0x80 \<Longrightarrow> utf8_decode bs = Some bs" for bs by (induction bs) simp_all
  have "\<forall>b \<in> set (map of_char input). b < (0x80 :: nat)" using a by fastforce
  then have "utf8_decode (map of_char input) = Some (map of_char input)" by (rule ascii)
  moreover have "\<not> list_ex is_control (map of_char input)" using a by (fastforce simp: list_ex_iff is_control_def)
  ultimately show "predictive_echo input = Some (underline_on @ input @ underline_off)" using a by (auto simp: predictive_echo_def)
qed

theorem predictive_echo_safe_witness:
  "predictive_echo ''ls -l'' = Some (underline_on @ ''ls -l'' @ underline_off) \<and> predictive_echo (CHR 0x1B # ''[2J'') = None"
proof
  show "predictive_echo ''ls -l'' = Some (underline_on @ ''ls -l'' @ underline_off)"
    by (rule predictive_echo_safe [of "''ls -l''", THEN conjunct2, rule_format]) simp
  have "\<not> (0x20 :: nat) \<le> of_char CHR 0x1B" by simp
  then have "predictive_echo (CHR 0x1B # ''[2J'') \<noteq> Some out" for out
    using predictive_echo_safe [of "CHR 0x1B # ''[2J''", THEN conjunct1, rule_format, of out] by (meson list.set_intros(1))
  then have "\<forall>out. predictive_echo (CHR 0x1B # ''[2J'') \<noteq> Some out" by blast
  then show "predictive_echo (CHR 0x1B # ''[2J'') = None" by (simp only: not_Some_eq)
qed

end
