(* ===== verification/Agent_Main.thy ===== *)
theory Agent_Main
  imports Api_Claims Config_Claims Stream_Hub Collector_Loop Widget Readers Pairing Security_Audit
begin

text \<open>
  cmd/gateshell-agent/main.go: the commands, and above all \<open>serve\<close>, which wires configuration, store,
  collector, alerts, push and API together. The running agent is one record, its components' states as
  modelled in their own theories; \<open>serve_deps\<close> gives the API its collaborators as functions on that
  record and \<open>agent_sinks\<close> the collector its sinks. A request and a gathering are one step each: the
  locks under which the components really interleave are the subject of \<open>Stream_Hub\<close>, \<open>Collector_Loop\<close>
  and \<open>Widget\<close>. This is the build without the sqlite tag (store_default.go).
\<close>

subsection \<open>Flags\<close>

record cli_flags =
  cf_config :: string
  cf_listen_addr :: string
  cf_db_path :: string
  cf_poll_interval :: string
  cf_token :: string
  cf_push_relay_token :: string
  cf_push_relay_url :: string
  cf_server_name :: string

definition set_flag :: "string \<Rightarrow> string option" where
  "set_flag s = (if s \<noteq> [] then Some s else None)"

definition flag_overrides_of :: "cli_flags \<Rightarrow> flag_overrides result" where
  "flag_overrides_of f =
     (let base = \<lparr>fo_config_file = cf_config f, fo_listen_addr = set_flag (cf_listen_addr f),
        fo_db_path = set_flag (cf_db_path f), fo_poll_interval = None, fo_pairing_token = set_flag (cf_token f),
        fo_push_relay_token = set_flag (cf_push_relay_token f), fo_push_relay_url = set_flag (cf_push_relay_url f),
        fo_server_name = set_flag (cf_server_name f)\<rparr>
      in if cf_poll_interval f \<noteq> []
         then (case parse_poll_interval_flag (cf_poll_interval f) of
             Inl e \<Rightarrow> Inl (''invalid --poll-interval: '' @ e)
           | Inr d \<Rightarrow> Inr (base\<lparr>fo_poll_interval := Some d\<rparr>))
         else Inr base)"

definition load_config_cmd ::
  "os_answer \<Rightarrow> fs \<Rightarrow> string result \<Rightarrow> (string \<Rightarrow> string) \<Rightarrow> cli_flags \<Rightarrow> config result" where
  "load_config_cmd a files hostname env f =
     (case flag_overrides_of f of Inl e \<Rightarrow> Inl e | Inr flags \<Rightarrow> load_config a files hostname env flags)"

subsection \<open>The running agent\<close>

text \<open>What \<open>serve\<close> fixes at its start: the configuration, the version and the relay client, if any.\<close>

record serve_setup =
  su_config :: config
  su_version :: string
  su_relay :: "relay_client option"

record agent =
  ag_samples :: memory_store
  ag_interval :: duration
  ag_evaluator :: evaluator
  ag_tokens :: token_store
  ag_files :: fs
  ag_audit :: cached_scanner
  ag_widget_sent :: time
  ag_hub :: hub
  ag_top :: top_reader
  ag_requests :: "request list"

text \<open>\<open>ag_requests\<close> records the requests made to the relay. What a step finds outside the process:\<close>

record world =
  wo_now :: time
  wo_read :: os_answer
  wo_write :: write_answers
  wo_net :: "request \<Rightarrow> http_outcome"
  wo_audit :: audit_env
  wo_machine :: machine

definition max_in_memory_samples :: int where "max_in_memory_samples = 100000"

definition new_store :: memory_store where "new_store = new_memory_store max_in_memory_samples"

definition audit_ttl :: duration where "audit_ttl = 5 * minute"

definition save_error :: "save_result \<Rightarrow> string option" where
  "save_error r = (case r of Saved \<Rightarrow> None | SaveError e \<Rightarrow> Some e
     | SavePanic \<Rightarrow> Some ''panic: assignment to entry in nil map'')"

text \<open>\<open>persistInterval\<close> and \<open>persistRules\<close>. (A panic of the save ends the request's connection; it is
  reported here as an error.)\<close>

definition persist_interval :: "serve_setup \<Rightarrow> world \<Rightarrow> duration \<Rightarrow> agent \<Rightarrow> agent \<times> string option" where
  "persist_interval su wo d w =
     (let path = c_file_path (su_config su)
      in if path = [] then (w, None)
         else (let (files, r) = save_poll_interval (wo_read wo) (wo_write wo) path d (ag_files w)
               in (w\<lparr>ag_files := files\<rparr>, save_error r)))"

definition persist_rules :: "serve_setup \<Rightarrow> world \<Rightarrow> rule slice \<Rightarrow> service_rule slice \<Rightarrow> agent \<Rightarrow> agent \<times> string option" where
  "persist_rules su wo rs srs w =
     (let path = c_file_path (su_config su)
      in if path = [] then (w, None)
         else (let (files, r) = save_rules (wo_read wo) (wo_write wo) path rs srs (ag_files w)
               in (w\<lparr>ag_files := files\<rparr>, save_error r)))"

text \<open>The registry functions handed to the publisher, on the agent's state.\<close>

definition agent_regs :: "agent \<Rightarrow> registration list" where
  "agent_regs w = token_all (ag_tokens w)"

definition agent_drop :: "world \<Rightarrow> string \<Rightarrow> agent \<Rightarrow> agent" where
  "agent_drop wo t w =
     (let (ts, files, e) = token_remove (wo_write wo) t (ag_tokens w) (ag_files w)
      in w\<lparr>ag_tokens := ts, ag_files := files\<rparr>)"

definition agent_find :: "agent \<Rightarrow> string \<Rightarrow> registration option" where
  "agent_find w t = token_find (ag_tokens w) t"

text \<open>A call of the publisher, its requests recorded.\<close>

definition recorded :: "agent \<times> request list \<times> 'e \<Rightarrow> agent \<times> 'e" where
  "recorded r = (case r of (w, rqs, e) \<Rightarrow> (w\<lparr>ag_requests := ag_requests w @ rqs\<rparr>, e))"

definition agent_publish :: "serve_setup \<Rightarrow> world \<Rightarrow> relay_client \<Rightarrow> string \<Rightarrow> agent \<Rightarrow> agent \<times> string option" where
  "agent_publish su wo c message w =
     recorded (publish c (c_server_name (su_config su)) agent_regs (Some (agent_drop wo)) message (wo_net wo) w)"

definition agent_send_test :: "serve_setup \<Rightarrow> world \<Rightarrow> relay_client \<Rightarrow> string \<Rightarrow> string \<Rightarrow> agent \<Rightarrow> agent \<times> string option" where
  "agent_send_test su wo c token message w =
     recorded (send_test c (c_server_name (su_config su)) (Some agent_find) (Some (agent_drop wo)) token message
       (wo_net wo) w)"

definition agent_scan :: "world \<Rightarrow> bool \<Rightarrow> agent \<Rightarrow> agent \<times> report" where
  "agent_scan wo refresh w =
     (let (s, r) = cached_scan (wo_now wo) (scan (wo_audit wo)) refresh (ag_audit w) in (w\<lparr>ag_audit := s\<rparr>, r))"

definition agent_set_token :: "world \<Rightarrow> string \<Rightarrow> string \<Rightarrow> string \<Rightarrow> agent \<Rightarrow> agent \<times> string option" where
  "agent_set_token wo t env lab w =
     (let (ts, files, e) = token_set (wo_write wo) t env lab (ag_tokens w) (ag_files w)
      in (w\<lparr>ag_tokens := ts, ag_files := files\<rparr>, e))"

text \<open>The arguments of \<open>api.NewServer\<close>.\<close>

definition serve_deps :: "serve_setup \<Rightarrow> world \<Rightarrow> (agent, report) deps" where
  "serve_deps su wo =
     \<lparr>d_query = (\<lambda>f t w. Inr (memory_query f t (ag_samples w))),
      d_latest = (\<lambda>w. memory_latest (ag_samples w)),
      d_pairing_token = c_pairing_token (su_config su),
      d_server_name = c_server_name (su_config su),
      d_version = su_version su,
      d_interval = Some \<lparr>ic_interval = ag_interval, ic_set_interval = (\<lambda>d w. w\<lparr>ag_interval := d\<rparr>)\<rparr>,
      d_persist = Some (persist_interval su wo),
      d_rules = Some \<lparr>rc_rules = (\<lambda>w. get_rules (ag_evaluator w)),
        rc_set_rules = (\<lambda>rs srs w. w\<lparr>ag_evaluator := set_rules rs srs (ag_evaluator w)\<rparr>)\<rparr>,
      d_persist_rules = Some (persist_rules su wo),
      d_scan = Some (agent_scan wo),
      d_push_tokens = (case su_relay su of None \<Rightarrow> None
         | Some c \<Rightarrow> Some \<lparr>pt_count = (\<lambda>w. token_count (ag_tokens w)), pt_labels = (\<lambda>w. token_labels (ag_tokens w)),
             pt_set = agent_set_token wo\<rparr>),
      d_publish = map_option (agent_publish su wo) (su_relay su),
      d_send_test = map_option (agent_send_test su wo) (su_relay su)\<rparr>"

subsection \<open>The sinks\<close>

definition sink_save :: "sample \<Rightarrow> agent \<Rightarrow> agent" where
  "sink_save s w = w\<lparr>ag_samples := memory_save s (ag_samples w)\<rparr>"

definition sink_broadcast :: "sample \<Rightarrow> agent \<Rightarrow> agent" where
  "sink_broadcast s w = w\<lparr>ag_hub := broadcast_sample s (ag_hub w)\<rparr>"

text \<open>The evaluator publishes each message; an error is only logged.\<close>

definition publish_message :: "serve_setup \<Rightarrow> world \<Rightarrow> message \<Rightarrow> agent \<Rightarrow> agent" where
  "publish_message su wo m w =
     (case su_relay su of None \<Rightarrow> w | Some c \<Rightarrow> fst (agent_publish su wo c (message_text m) w))"

definition sink_evaluate :: "serve_setup \<Rightarrow> world \<Rightarrow> sample \<Rightarrow> agent \<Rightarrow> agent" where
  "sink_evaluate su wo s w =
     (let (e, ms) = evaluate s (ag_evaluator w)
      in fold (publish_message su wo) ms (w\<lparr>ag_evaluator := e\<rparr>))"

definition sink_widget :: "serve_setup \<Rightarrow> world \<Rightarrow> relay_client \<Rightarrow> sample \<Rightarrow> agent \<Rightarrow> agent" where
  "sink_widget su wo c s w =
     (let name = c_server_name (su_config su);
          pub = (\<lambda>m. publish_metrics c name agent_regs (Some (agent_drop wo)) m (wo_net wo));
          (sent, w', rqs, ok, err) = notify (Some pub) (Some (ag_interval w)) name (wo_now wo) s (ag_widget_sent w) w
      in w'\<lparr>ag_widget_sent := sent, ag_requests := ag_requests w' @ rqs\<rparr>)"

definition agent_sinks :: "serve_setup \<Rightarrow> world \<Rightarrow> (sample \<Rightarrow> agent \<Rightarrow> agent) list" where
  "agent_sinks su wo =
     [sink_save, sink_broadcast, sink_evaluate su wo]
     @ (case su_relay su of None \<Rightarrow> [] | Some c \<Rightarrow> [sink_widget su wo c])"

subsection \<open>Serving\<close>

text \<open>\<open>serve\<close> up to the start of its goroutines.\<close>

definition serve_init ::
  "(string \<Rightarrow> string option) \<Rightarrow> string \<Rightarrow> config result \<Rightarrow> os_answer \<Rightarrow> fs \<Rightarrow> (serve_setup \<times> agent) result" where
  "serve_init rest_error version loaded a files =
     (case loaded of
        Inl e \<Rightarrow> Inl e
      | Inr cfg \<Rightarrow>
          if c_pairing_token cfg = []
          then Inl ''no pairing token configured; pass --token, set GATESHELL_AGENT_PAIRING_TOKEN, or run `gateshell-agent pair` to generate one''
          else
            (let start = (\<lambda>relay tokens. (\<lparr>su_config = cfg, su_version = version, su_relay = relay\<rparr>,
                   \<lparr>ag_samples = new_store, ag_interval = c_poll_interval cfg,
                    ag_evaluator = set_rules (c_rules cfg) (c_service_rules cfg) new_evaluator,
                    ag_tokens = tokens, ag_files = files, ag_audit = new_cached_scanner audit_ttl,
                    ag_widget_sent = zero_time, ag_hub = empty_hub, ag_top = new_top_reader, ag_requests = []\<rparr>))
             in if c_push_relay_token cfg \<noteq> []
                then (case new_client rest_error (c_push_relay_url cfg) (c_push_relay_token cfg) of
                    Inl e \<Rightarrow> Inl (''configuring push relay: '' @ e)
                  | Inr c \<Rightarrow>
                      (case new_token_store a files (c_db_path cfg @ ''.push-token.json'') of
                         Inl e \<Rightarrow> Inl (''initializing push token store: '' @ e)
                       | Inr ts \<Rightarrow> Inr (start (Some c) ts)))
                else Inr (start None \<lparr>ts_path = [], ts_regs = []\<rparr>)))"

text \<open>What can happen to the running agent: a request, or a turn of the poll loop.\<close>

datatype agent_event = Request world http_request | Poll world

definition agent_tick :: "serve_setup \<Rightarrow> world \<Rightarrow> agent \<Rightarrow> agent" where
  "agent_tick su wo w =
     (if 0 < ag_interval w
      then (let (r, w') = tick (agent_sinks su wo) ''/'' (wo_machine wo) (ag_top w, w) in w'\<lparr>ag_top := r\<rparr>)
      else w)"

definition serve_step :: "serve_setup \<Rightarrow> agent_event \<Rightarrow> agent \<Rightarrow> agent" where
  "serve_step su ev w =
     (case ev of
        Request wo rq \<Rightarrow> fst (serve_http (serve_deps su wo) (wo_now wo) rq w)
      | Poll wo \<Rightarrow> agent_tick su wo w)"

definition serve_run :: "serve_setup \<Rightarrow> agent_event list \<Rightarrow> agent \<Rightarrow> agent" where
  "serve_run su evs w = fold (serve_step su) evs w"

subsection \<open>The other commands\<close>

definition pair_cmd :: "(nat \<Rightarrow> byte list result) \<Rightarrow> string list \<times> string option" where
  "pair_cmd rand = (case generate_token rand of Inl e \<Rightarrow> ([], Some e) | Inr t \<Rightarrow> ([t], None))"

definition security_scan_cmd :: "audit_env \<Rightarrow> report" where
  "security_scan_cmd env = scan env"

text \<open>\<open>mosh-server\<close>. The protocol server is outside the repository: its connect line or error, and how
  serving ends, are parameters, as are the answers of the operating system.\<close>

record mosh_env =
  me_setsid :: "string option"
  me_server :: "string \<Rightarrow> int \<Rightarrow> int \<Rightarrow> string result"
  me_open :: "string option"
  me_write :: "string option"
  me_close :: "string option"

definition EPERM :: string where "EPERM = ''operation not permitted''"

text \<open>\<open>O_CREATE|O_EXCL\<close>: an existing file is an error. A failed write leaves the file created.\<close>

definition create_connect_file ::
  "mosh_env \<Rightarrow> string \<Rightarrow> string \<Rightarrow> (string \<rightharpoonup> string) \<Rightarrow> (string \<rightharpoonup> string) \<times> string option" where
  "create_connect_file env path line files =
     (if \<not> has_prefix path ''/'' then (files, Some ''--connect-file must be an absolute path'')
      else if files path \<noteq> None then (files, Some (''creating connect file: open '' @ path @ '': file exists''))
      else case me_open env of
        Some e \<Rightarrow> (files, Some (''creating connect file: '' @ e))
      | None \<Rightarrow>
          (case me_write env of
             Some e \<Rightarrow> (files(path \<mapsto> []), Some (''writing connect file: '' @ e))
           | None \<Rightarrow>
               (files(path \<mapsto> line @ [newline]),
                case me_close env of Some e \<Rightarrow> Some (''closing connect file: '' @ e) | None \<Rightarrow> None)))"

text \<open>Up to serving: the files, what is printed, and the error.\<close>

definition mosh_server_start ::
  "mosh_env \<Rightarrow> string \<Rightarrow> string \<Rightarrow> int \<Rightarrow> int \<Rightarrow> (string \<rightharpoonup> string) \<Rightarrow> (string \<rightharpoonup> string) \<times> string list \<times> string option" where
  "mosh_server_start env shell connect_file port_low port_high files =
     (if port_low < 1 \<or> 65535 < port_high \<or> port_high < port_low
      then (files, [], Some (''invalid UDP port range '' @ itoa port_low @ '':'' @ itoa port_high))
      else if me_setsid env \<noteq> None \<and> me_setsid env \<noteq> Some EPERM
      then (files, [], Some (''detaching mosh server from session: '' @ the (me_setsid env)))
      else case me_server env shell port_low port_high of
        Inl e \<Rightarrow> (files, [], Some (''starting mosh server: '' @ e))
      | Inr line \<Rightarrow>
          if connect_file \<noteq> []
          then (let (files', err) = create_connect_file env connect_file line files in (files', [], err))
          else (files, [line], None))"

text \<open>Serving: \<open>Serve\<close> returns, or \<open>Done\<close> fires and \<open>Serve\<close> returns within two seconds or not.\<close>

datatype mosh_end = ServeReturned "string option" | DoneThenServed "string option" | DoneThenTimeout

definition mosh_server_result :: "mosh_end \<Rightarrow> string option" where
  "mosh_server_result e = (case e of ServeReturned r \<Rightarrow> r | DoneThenServed r \<Rightarrow> r | DoneThenTimeout \<Rightarrow> None)"

subsection \<open>The API's collaborators keep their contract\<close>

definition agent_rules :: "agent \<Rightarrow> rule slice \<times> service_rule slice" where
  "agent_rules w = get_rules (ag_evaluator w)"

lemma drop_view [simp]:
  "ag_interval (agent_drop wo t w) = ag_interval w" "ag_evaluator (agent_drop wo t w) = ag_evaluator w"
  by (simp_all add: agent_drop_def split: prod.splits)

lemma persist_view [simp]:
  "ag_interval (fst (persist_interval su wo d w)) = ag_interval w" "ag_evaluator (fst (persist_interval su wo d w)) = ag_evaluator w"
  "ag_interval (fst (persist_rules su wo a b w)) = ag_interval w" "ag_evaluator (fst (persist_rules su wo a b w)) = ag_evaluator w"
  by (simp_all add: persist_interval_def persist_rules_def Let_def split: prod.splits)

text \<open>What the publisher keeps: any part of the agent that dropping a device does not touch.\<close>

lemma fan_out_Cons:
  "fst (fan_out deliver rm (r # rs) w) =
     fst (fan_out deliver rm rs (if snd (deliver r) = Some TokenUnregistered then run_remove rm (reg_token r) w else w))"
  by (cases "deliver r"; cases "snd (deliver r)") (auto simp: Let_def case_prod_beta split: send_error.splits)

lemma fan_out_keeps:
  assumes "\<And>t w. g (agent_drop wo t w) = g w"
  shows "g (fst (fan_out deliver (Some (agent_drop wo)) rs w)) = g w"
proof (induction rs arbitrary: w)
  case (Cons r rs)
  show ?case unfolding fan_out_Cons Cons.IH by (simp add: run_remove_def assms)
qed simp

lemma publish_keeps:
  assumes "\<And>t w. g (agent_drop wo t w) = g w"
  shows "g (fst (publish c server regs (Some (agent_drop wo)) m net w)) = g w"
    "g (fst (publish_metrics c server regs (Some (agent_drop wo)) wm net w)) = g w"
    "g (fst (send_test c server find_reg (Some (agent_drop wo)) t m net w)) = g w"
proof -
  note keeps = fan_out_keeps [where g = g, OF assms]
  show "g (fst (publish c server regs (Some (agent_drop wo)) m net w)) = g w"
    by (simp add: publish_def Let_def case_prod_beta keeps)
  show "g (fst (publish_metrics c server regs (Some (agent_drop wo)) wm net w)) = g w"
    by (simp add: publish_metrics_def Let_def case_prod_beta keeps)
  show "g (fst (send_test c server find_reg (Some (agent_drop wo)) t m net w)) = g w"
    by (simp add: send_test_def Let_def case_prod_beta run_remove_def assms split: option.split send_error.split)
qed

lemma recorded_fst: "fst (recorded r) = (fst r)\<lparr>ag_requests := ag_requests (fst r) @ fst (snd r)\<rparr>"
  by (simp add: recorded_def split: prod.splits)

lemma agent_publish_view [simp]:
  "ag_interval (fst (agent_publish su wo c m w)) = ag_interval w"
  "ag_evaluator (fst (agent_publish su wo c m w)) = ag_evaluator w"
  "ag_interval (fst (agent_send_test su wo c t m w)) = ag_interval w"
  "ag_evaluator (fst (agent_send_test su wo c t m w)) = ag_evaluator w"
  by (simp_all add: agent_publish_def agent_send_test_def recorded_fst publish_keeps)

interpretation serving: agent_deps "serve_deps su wo" ag_interval agent_rules for su wo
  by unfold_locales
    (auto simp: serve_deps_def agent_rules_def get_rules_def set_rules_def agent_scan_def agent_set_token_def
      split: option.splits prod.splits)

end
