(* ===== verification/Agent_Claims.thy ===== *)
theory Agent_Claims
  imports Agent_Main Alert_Episodes
begin

text \<open>
  Properties of the running agent over any sequence of requests and polls: what every step keeps, what
  a request without the token can do (nothing), where the relay's credential goes, and the paths from
  a poll to the API and from the API to the configuration file and back. The locale \<open>deps_invariant\<close>
  is the interface of the API's collaborators towards any invariant of the state they share.
\<close>

subsection \<open>Invariants through the API\<close>

locale deps_invariant =
  fixes d :: "('s, 'r) deps" and I :: "'s \<Rightarrow> bool"
  assumes set_interval_keeps: "d_interval d = Some ic \<Longrightarrow> I w \<Longrightarrow> I (ic_set_interval ic x w)"
    and persist_keeps: "d_persist d = Some f \<Longrightarrow> I w \<Longrightarrow> I (fst (f x w))"
    and set_rules_keeps: "d_rules d = Some rc \<Longrightarrow> I w \<Longrightarrow> I (rc_set_rules rc a b w)"
    and persist_rules_keeps: "d_persist_rules d = Some g \<Longrightarrow> I w \<Longrightarrow> I (fst (g a b w))"
    and scan_keeps: "d_scan d = Some sc \<Longrightarrow> I w \<Longrightarrow> I (fst (sc fresh w))"
    and set_token_keeps: "d_push_tokens d = Some pt \<Longrightarrow> I w \<Longrightarrow> I (fst (pt_set pt t e l w))"
    and publish_keeps: "d_publish d = Some p \<Longrightarrow> I w \<Longrightarrow> I (fst (p m w))"
    and test_keeps: "d_send_test d = Some q \<Longrightarrow> I w \<Longrightarrow> I (fst (q t m w))"
begin

lemma reading_keeps:
  "fst (handle_healthz d rq w) = w" "fst (handle_metrics d now rq w) = w" "fst (handle_services d rq w) = w"
  "fst (handle_latest d rq w) = w" "fst (handle_stream d rq w) = w" "fst (handle_get_config d rq w) = w"
  "fst (handle_get_alerts d rq w) = w" "fst (handle_get_push_token d rq w) = w"
  by (simp_all add: handle_healthz_def handle_metrics_def handle_services_def handle_latest_def handle_stream_def
      handle_get_config_def handle_get_alerts_def handle_get_push_token_def
      split: sum.split option.split prod.split store_error.split)

lemma security_keeps: "I w \<Longrightarrow> I (fst (handle_security d rq w))"
  using scan_keeps by (simp add: handle_security_def case_prod_beta Let_def split: option.split)

lemma patch_config_keeps: "I w \<Longrightarrow> I (fst (handle_patch_config d rq w))"
  using set_interval_keeps persist_keeps
  by (simp add: handle_patch_config_def case_prod_beta Let_def split: option.split sum.split)

lemma patch_alerts_keeps: "I w \<Longrightarrow> I (fst (handle_patch_alerts d rq w))"
  using set_rules_keeps persist_rules_keeps
  by (simp add: handle_patch_alerts_def case_prod_beta Let_def split: option.split)

lemma post_push_token_keeps: "I w \<Longrightarrow> I (fst (handle_post_push_token d rq w))"
  using set_token_keeps by (simp add: handle_post_push_token_def case_prod_beta Let_def split: option.split)

lemma post_test_alert_keeps: "I w \<Longrightarrow> I (fst (handle_post_test_alert d rq w))"
  using test_keeps publish_keeps
  by (simp add: handle_post_test_alert_def case_prod_beta Let_def split: option.split)

lemma handler_keeps:
  assumes "(m, p, a, h) \<in> set (routes d now)" "I w"
  shows "I (fst (h rq w))"
  using assms(1)
    security_keeps [OF assms(2), of rq] patch_config_keeps [OF assms(2), of rq] patch_alerts_keeps [OF assms(2), of rq]
    post_push_token_keeps [OF assms(2), of rq] post_test_alert_keeps [OF assms(2), of rq]
  unfolding routes_def by (auto simp: reading_keeps assms(2))

lemma serve_keeps:
  assumes "I w"
  shows "I (fst (serve_http d now rq w))"
proof (cases rule: serve_http_cases [where rq = rq and d = d and now = now and w = w])
  case (route m a h)
  then show ?thesis using handler_keeps [OF route(1) assms] assms by (simp add: authed_def)
qed (use assms in simp_all)

end

subsection \<open>Without the token nothing happens\<close>

text \<open>The requests that carry the token, and the polls.\<close>

fun authentic :: "serve_setup \<Rightarrow> agent_event \<Rightarrow> bool" where
  "authentic su (Poll wo) = True"
| "authentic su (Request wo rq) = (h_authorization rq = ''Bearer '' @ c_pairing_token (su_config su))"

lemma unauthorized_keeps:
  assumes "\<not> authorized (d_pairing_token d) rq"
  shows "fst (serve_http d now rq w) = w"
proof (cases rule: serve_http_cases [where rq = rq and d = d and now = now and w = w])
  case (route m a h)
  show ?thesis
  proof (cases a)
    case True
    then show ?thesis using route(3) assms by (simp add: authed_def)
  next
    case False
    then have "h = handle_healthz d" using route(1) routes_auth [of m "h_path rq" h d now] by simp
    then show ?thesis using route(3) False by (simp add: handle_healthz_def)
  qed
qed simp_all

lemma step_not_authentic: "\<not> authentic su ev \<Longrightarrow> serve_step su ev w = w"
proof (cases ev)
  case (Request wo rq)
  assume "\<not> authentic su ev"
  then have "\<not> authorized (d_pairing_token (serve_deps su wo)) rq"
    by (simp add: Request authorized_iff serve_deps_def)
  then show ?thesis by (simp add: serve_step_def Request unauthorized_keeps)
qed simp

text \<open>
  C1. Requests without the token do not exist for the agent. Whatever the sequence of requests and
  polls, the state it leads to, with all that has been stored, sent and written, is the one reached
  when every request without the configured token is left out.
\<close>
theorem agent_ignores_strangers:
  "serve_run su evs w = serve_run su (filter (authentic su) evs) w"
  by (induction evs arbitrary: w) (simp_all add: serve_run_def step_not_authentic)

subsection \<open>What a poll does\<close>

definition sampled :: "world \<Rightarrow> agent \<Rightarrow> sample" where
  "sampled wo w = snd (gather ''/'' (wo_machine wo) (ag_top w))"

lemma agent_drop_keeps [simp]:
  "ag_samples (agent_drop wo t w) = ag_samples w" "ag_hub (agent_drop wo t w) = ag_hub w"
  "ag_requests (agent_drop wo t w) = ag_requests w"
  by (simp_all add: agent_drop_def split: prod.splits)

lemma fold_keeps: "(\<And>x w. g (f x w) = g w) \<Longrightarrow> g (fold f xs w) = g w"
  by (induction xs arbitrary: w) simp_all

text \<open>The messages published and the widget push leave samples, streams, interval and rules alone.\<close>

lemma publish_message_keeps [simp]:
  "ag_samples (publish_message su wo m w) = ag_samples w" "ag_hub (publish_message su wo m w) = ag_hub w"
  "ag_interval (publish_message su wo m w) = ag_interval w" "ag_evaluator (publish_message su wo m w) = ag_evaluator w"
  by (simp_all add: publish_message_def agent_publish_def recorded_fst Agent_Main.publish_keeps split: option.split)

lemma evaluate_keeps [simp]: "get_rules (fst (evaluate s e)) = get_rules e"
proof -
  obtain e1 ms1 where 1: "evaluate_rules (elems (e_rules e)) s e = (e1, ms1)" by fastforce
  obtain e2 ms2 where 2: "evaluate_service_rules (elems (e_service_rules e)) s e1 = (e2, ms2)" by fastforce
  show ?thesis
    using evaluate_rules_frame [OF 1] evaluate_service_rules_frame [OF 2] by (simp add: evaluate_def 1 2 get_rules_def)
qed

lemma agent_rules_updates [simp]:
  "agent_rules (w\<lparr>ag_samples := x\<rparr>) = agent_rules w" "agent_rules (w\<lparr>ag_hub := h\<rparr>) = agent_rules w"
  "agent_rules (w\<lparr>ag_top := r\<rparr>) = agent_rules w"
  by (simp_all add: agent_rules_def)

lemma sink_evaluate_keeps [simp]:
  "ag_samples (sink_evaluate su wo s w) = ag_samples w" "ag_hub (sink_evaluate su wo s w) = ag_hub w"
  "ag_interval (sink_evaluate su wo s w) = ag_interval w" "agent_rules (sink_evaluate su wo s w) = agent_rules w"
  by (simp_all add: sink_evaluate_def case_prod_beta Let_def agent_rules_def fold_keeps [of ag_samples]
      fold_keeps [of ag_hub] fold_keeps [of ag_interval] fold_keeps [of ag_evaluator])

lemma notify_state:
  "fst (snd (notify (Some f) p name now s l w)) = w \<or> fst (snd (notify (Some f) p name now s l w)) = fst (f (metrics_from name s) w)"
  "fst (snd (snd (notify (Some f) p name now s l w))) = [] \<or>
   fst (snd (snd (notify (Some f) p name now s l w))) = fst (snd (f (metrics_from name s) w))"
  by (simp_all add: notify_def case_prod_beta Let_def split: option.split)

lemma sink_widget_keeps [simp]:
  "ag_samples (sink_widget su wo c s w) = ag_samples w" "ag_hub (sink_widget su wo c s w) = ag_hub w"
  "ag_interval (sink_widget su wo c s w) = ag_interval w" "agent_rules (sink_widget su wo c s w) = agent_rules w"
  "ag_evaluator (sink_widget su wo c s w) = ag_evaluator w"
proof -
  let ?name = "c_server_name (su_config su)"
  let ?pub = "\<lambda>m. publish_metrics c ?name agent_regs (Some (agent_drop wo)) m (wo_net wo)"
  let ?w = "fst (snd (notify (Some ?pub) (Some (ag_interval w)) ?name (wo_now wo) s (ag_widget_sent w) w))"
  have g: "g ?w = g w" if "\<And>t w. g (agent_drop wo t w) = g w" for g :: "agent \<Rightarrow> 'b"
    using notify_state(1) [of ?pub "Some (ag_interval w)" ?name "wo_now wo" s "ag_widget_sent w" w]
      Agent_Main.publish_keeps(2) [where g = g, OF that] by metis
  have g2: "ag_samples ?w = ag_samples w" "ag_hub ?w = ag_hub w" "ag_interval ?w = ag_interval w" "ag_evaluator ?w = ag_evaluator w"
    using g [of ag_samples] g [of ag_hub] g [of ag_interval] g [of ag_evaluator] by simp_all
  show "ag_samples (sink_widget su wo c s w) = ag_samples w" "ag_hub (sink_widget su wo c s w) = ag_hub w"
    "ag_interval (sink_widget su wo c s w) = ag_interval w" "agent_rules (sink_widget su wo c s w) = agent_rules w"
    "ag_evaluator (sink_widget su wo c s w) = ag_evaluator w"
    by (simp_all add: sink_widget_def case_prod_beta Let_def agent_rules_def g2)
qed

lemma agent_tick_view:
  "ag_samples (agent_tick su wo w) =
     (if 0 < ag_interval w then memory_save (sampled wo w) (ag_samples w) else ag_samples w)"
  "ag_hub (agent_tick su wo w) =
     (if 0 < ag_interval w then broadcast_sample (sampled wo w) (ag_hub w) else ag_hub w)"
  "ag_interval (agent_tick su wo w) = ag_interval w" "agent_rules (agent_tick su wo w) = agent_rules w"
  by (simp_all add: agent_tick_def tick_def agent_sinks_def case_prod_beta Let_def sampled_def sink_save_def
      sink_broadcast_def split: option.split)

text \<open>Of the agent's parts a request can change neither the samples nor the streams.\<close>

lemma persist_keeps' [simp]:
  "ag_samples (fst (persist_interval su wo d w)) = ag_samples w" "ag_hub (fst (persist_interval su wo d w)) = ag_hub w"
  "ag_requests (fst (persist_interval su wo d w)) = ag_requests w"
  "ag_samples (fst (persist_rules su wo a b w)) = ag_samples w" "ag_hub (fst (persist_rules su wo a b w)) = ag_hub w"
  "ag_requests (fst (persist_rules su wo a b w)) = ag_requests w"
  by (simp_all add: persist_interval_def persist_rules_def Let_def split: prod.splits)

lemma agent_publish_keeps [simp]:
  "ag_samples (fst (agent_publish su wo c m w)) = ag_samples w" "ag_hub (fst (agent_publish su wo c m w)) = ag_hub w"
  "ag_samples (fst (agent_send_test su wo c t m w)) = ag_samples w" "ag_hub (fst (agent_send_test su wo c t m w)) = ag_hub w"
  by (simp_all add: agent_publish_def agent_send_test_def recorded_fst Agent_Main.publish_keeps)

interpretation stored: deps_invariant "serve_deps su wo" "\<lambda>w. ag_samples w = X \<and> ag_hub w = H" for su wo X H
  by unfold_locales
    (auto simp: serve_deps_def agent_scan_def agent_set_token_def split: option.splits prod.splits)

lemma request_stored:
  "ag_samples (serve_step su (Request wo rq) w) = ag_samples w" "ag_hub (serve_step su (Request wo rq) w) = ag_hub w"
  using stored.serve_keeps [of w "ag_samples w" "ag_hub w" su wo "wo_now wo" rq] by (simp_all add: serve_step_def)

subsection \<open>The settings stay valid\<close>

lemma step_settings:
  "(agent_rules (serve_step su ev w) = agent_rules w \<or> rules_valid (agent_rules (serve_step su ev w))) \<and>
   (ag_interval (serve_step su ev w) = ag_interval w \<or> acceptable_interval (ag_interval (serve_step su ev w)))"
proof (cases ev)
  case (Request wo rq)
  then show ?thesis using serving.serve_view [OF prod.collapse [symmetric], of su wo "wo_now wo" rq w]
    by (simp add: serve_step_def)
qed (simp add: serve_step_def agent_tick_view)

lemma run_settings:
  "(agent_rules (serve_run su evs w) = agent_rules w \<or> rules_valid (agent_rules (serve_run su evs w))) \<and>
   (ag_interval (serve_run su evs w) = ag_interval w \<or> acceptable_interval (ag_interval (serve_run su evs w)))"
proof (induction evs arbitrary: w)
  case (Cons ev evs)
  show ?case using Cons.IH [of "serve_step su ev w"] step_settings [of su ev w] by (auto simp: serve_run_def)
qed (simp add: serve_run_def)

lemma serve_init_state:
  assumes "serve_init rest_error version (Inr cfg) a files = Inr (su, w)"
  shows "su_config su = cfg" "agent_rules w = (c_rules cfg, c_service_rules cfg)" "ag_interval w = c_poll_interval cfg"
    "ag_samples w = new_store" "ag_hub w = empty_hub" "ag_requests w = []" "ag_files w = files" "c_pairing_token cfg \<noteq> []"
    "\<forall>c. su_relay su = Some c \<longrightarrow> new_client rest_error (c_push_relay_url cfg) (c_push_relay_token cfg) = Inr c"
  using assms
  by (auto simp: serve_init_def Let_def agent_rules_def get_rules_def set_rules_def split: if_splits sum.splits)

text \<open>
  C5. The settings stay valid. However requests and polls follow each other, the rules in force are
  the ones of the configuration file or have passed validation (names, known metrics and comparators,
  no negative duration), and the poll interval is the configured one, a pause, or at least five
  seconds.
\<close>
theorem agent_settings_stay_valid:
  assumes "serve_init rest_error version (Inr cfg) a files = Inr (su, w)"
  shows "(agent_rules (serve_run su evs w) = (c_rules cfg, c_service_rules cfg) \<or> rules_valid (agent_rules (serve_run su evs w))) \<and>
    (ag_interval (serve_run su evs w) = c_poll_interval cfg \<or> ag_interval (serve_run su evs w) = 0 \<or>
     5 * second \<le> ag_interval (serve_run su evs w))"
  using run_settings [of su evs w] serve_init_state(2,3) [OF assms]
  by (auto simp: acceptable_interval_def MinPollInterval_def)

subsection \<open>From the host to the API\<close>

text \<open>The samples gathered in a run.\<close>

fun samples_taken :: "serve_setup \<Rightarrow> agent_event list \<Rightarrow> agent \<Rightarrow> sample list" where
  "samples_taken su [] w = []"
| "samples_taken su (Poll wo # evs) w =
     (if 0 < ag_interval w then [sampled wo w] else []) @ samples_taken su evs (serve_step su (Poll wo) w)"
| "samples_taken su (Request wo rq # evs) w = samples_taken su evs (serve_step su (Request wo rq) w)"

lemma run_samples:
  "ag_samples (serve_run su evs w) = fold memory_save (samples_taken su evs w) (ag_samples w)"
proof (induction su evs w rule: samples_taken.induct)
  case (2 su wo evs w)
  then show ?case by (simp add: serve_run_def serve_step_def agent_tick_view)
next
  case (3 su wo rq evs w)
  then show ?case by (simp add: serve_run_def request_stored)
qed (simp add: serve_run_def)

lemma served_get:
  assumes "h_method rq = ''GET''" "h_authorization rq = ''Bearer '' @ c_pairing_token (su_config su)"
    "c_pairing_token (su_config su) \<noteq> []"
  shows "h_path rq = ''/api/v1/latest'' \<Longrightarrow> serve_http (serve_deps su wo) now rq w = handle_latest (serve_deps su wo) rq w"
    "h_path rq = ''/api/v1/services'' \<Longrightarrow> serve_http (serve_deps su wo) now rq w = handle_services (serve_deps su wo) rq w"
    "h_path rq = ''/api/v1/metrics'' \<Longrightarrow> serve_http (serve_deps su wo) now rq w = handle_metrics (serve_deps su wo) now rq w"
proof -
  have a: "authorized (d_pairing_token (serve_deps su wo)) rq" using assms(2,3) by (simp add: authorized_iff serve_deps_def)
  note d = serve_http_def routes_def method_matches_def assms(1)
  show "h_path rq = ''/api/v1/latest'' \<Longrightarrow> serve_http (serve_deps su wo) now rq w = handle_latest (serve_deps su wo) rq w"
    "h_path rq = ''/api/v1/services'' \<Longrightarrow> serve_http (serve_deps su wo) now rq w = handle_services (serve_deps su wo) rq w"
    "h_path rq = ''/api/v1/metrics'' \<Longrightarrow> serve_http (serve_deps su wo) now rq w = handle_metrics (serve_deps su wo) now rq w"
    by (simp_all add: d authed_def a)
qed

lemma new_store_samples:
  "ms_samples (fold memory_save xs new_store) = drop (length xs - 100000) xs"
  using memory_contents [of max_in_memory_samples xs] by (simp add: new_store_def max_in_memory_samples_def)

text \<open>
  C2. The API serves what was polled. After any run, with the token, \<open>/latest\<close> and \<open>/services\<close> answer
  with the last sample a poll gathered (404 and an empty list before the first), and \<open>/metrics\<close> with
  exactly those of the newest 100,000 samples that lie in the requested range, in order, when the
  clock did not go back; none of them changes anything.
\<close>
theorem agent_serves_history:
  assumes "serve_init rest_error version (Inr cfg) a files = Inr (su, w0)"
    "w = serve_run su evs w0" "xs = samples_taken su evs w0"
    "h_method rq = ''GET''" "h_authorization rq = ''Bearer '' @ c_pairing_token cfg"
  shows "(h_path rq = ''/api/v1/latest'' \<longrightarrow> serve_http (serve_deps su wo) now rq w =
      (w, if xs = [] then write_error 404 ''no samples collected yet'' else write_json 200 (PSample (last xs)))) \<and>
    (h_path rq = ''/api/v1/services'' \<longrightarrow> serve_http (serve_deps su wo) now rq w =
      (w, write_json 200 (PServices (if xs = [] then [] else services (last xs))))) \<and>
    (h_path rq = ''/api/v1/metrics'' \<and> chronological xs \<and> parse_range now rq = Inr (f, t) \<longrightarrow>
      serve_http (serve_deps su wo) now rq w =
        (w, write_json 200 (PSamples (filter (in_range f t) (drop (length xs - 100000) xs)))))"
proof -
  note init = serve_init_state [OF assms(1)]
  have m: "ag_samples w = fold memory_save xs new_store" by (simp add: assms(2,3) run_samples init(4))
  have latest: "memory_latest (ag_samples w) = (if xs = [] then Inl ErrNoSamples else Inr (last xs))"
    using mem.latest_after_saves [of xs new_store] by (simp add: m memory_latest_def new_store_def new_memory_store_def)
  have query: "memory_query f t (ag_samples w) = filter (in_range f t) (drop (length xs - 100000) xs)" if "chronological xs"
    using mem.query_law [of "ag_samples w" f t] chronological_drop [OF that] by (simp add: m new_store_samples)
  note get = served_get [OF assms(4), of su, unfolded init(1), OF assms(5) init(8)]
  have d: "d_latest (serve_deps su wo) w = memory_latest (ag_samples w)"
    "d_query (serve_deps su wo) f t w = Inr (memory_query f t (ag_samples w))"
    by (simp_all add: serve_deps_def)
  show ?thesis
    using latest query by (simp add: get handle_latest_def handle_services_def handle_metrics_def d)
qed

subsection \<open>The relay's credential\<close>

definition relay_request :: "serve_setup \<Rightarrow> request \<Rightarrow> bool" where
  "relay_request su rq \<longleftrightarrow> (\<exists>c dev env title body m net. su_relay su = Some c \<and>
     rq \<in> set (fst (send c dev env title body net)) \<union> set (fst (send_metrics c dev env m net)))"

definition requests_ok :: "serve_setup \<Rightarrow> agent \<Rightarrow> bool" where
  "requests_ok su w \<longleftrightarrow> (\<forall>rq \<in> set (ag_requests w). relay_request su rq)"

lemma relay_requestI:
  "su_relay su = Some c \<Longrightarrow> rq \<in> set (fst (send c dev env title body net)) \<Longrightarrow> relay_request su rq"
  "su_relay su = Some c \<Longrightarrow> rq \<in> set (fst (send_metrics c dev env m net)) \<Longrightarrow> relay_request su rq"
  unfolding relay_request_def by blast+

lemma fan_out_relay:
  assumes "\<And>r rq. rq \<in> set (fst (deliver r)) \<Longrightarrow> relay_request su rq"
  shows "\<forall>rq \<in> set (fst (snd (fan_out deliver rm rs w))). relay_request su rq"
proof -
  obtain w' rqs es where f: "fan_out deliver rm rs w = (w', rqs, es)" by (rule prod_cases3)
  show ?thesis using fan_out_requests [OF f] assms by (auto simp: f)
qed

lemma publish_relay:
  assumes "su_relay su = Some c"
  shows "\<forall>rq \<in> set (fst (snd (publish c server regs rm m net w))). relay_request su rq"
    "\<forall>rq \<in> set (fst (snd (publish_metrics c server regs rm wm net w))). relay_request su rq"
    "\<forall>rq \<in> set (fst (snd (send_test c server find_reg rm t m net w))). relay_request su rq"
proof -
  show "\<forall>rq \<in> set (fst (snd (publish c server regs rm m net w))). relay_request su rq"
    using fan_out_relay [of "\<lambda>r. send c (reg_token r) (reg_environment r) server m net" su rm "regs w" w] relay_requestI(1) [OF assms]
    by (auto simp: publish_def case_prod_beta Let_def)
  show "\<forall>rq \<in> set (fst (snd (publish_metrics c server regs rm wm net w))). relay_request su rq"
    using fan_out_relay [of "deliver_metrics c server wm net" su rm "regs w" w] relay_requestI(2) [OF assms]
    by (auto simp: publish_metrics_def case_prod_beta Let_def deliver_metrics_def)
  show "\<forall>rq \<in> set (fst (snd (send_test c server find_reg rm t m net w))). relay_request su rq"
    using relay_requestI(1) [OF assms] by (simp add: send_test_def case_prod_beta Let_def split: option.split send_error.split)
qed

lemma agent_publish_requests:
  assumes "su_relay su = Some c" "requests_ok su w"
  shows "requests_ok su (fst (agent_publish su wo c m w))" "requests_ok su (fst (agent_send_test su wo c t m w))"
proof -
  let ?name = "c_server_name (su_config su)" and ?rm = "Some (agent_drop wo)"
  have p: "\<forall>rq \<in> set (fst (snd (publish c ?name agent_regs ?rm m (wo_net wo) w))). relay_request su rq"
    "\<forall>rq \<in> set (fst (snd (send_test c ?name (Some agent_find) ?rm t m (wo_net wo) w))). relay_request su rq"
    by (rule publish_relay [OF assms(1)])+
  then show "requests_ok su (fst (agent_publish su wo c m w))" "requests_ok su (fst (agent_send_test su wo c t m w))"
    using assms(2)
    by (auto simp: requests_ok_def agent_publish_def agent_send_test_def recorded_fst Agent_Main.publish_keeps)
qed

lemma requests_ok_same: "ag_requests v = ag_requests w \<Longrightarrow> requests_ok su w \<Longrightarrow> requests_ok su v"
  by (simp add: requests_ok_def)

lemma scan_requests [simp]: "ag_requests (fst (agent_scan wo fresh w)) = ag_requests w"
    "ag_requests (fst (agent_set_token wo t e l w)) = ag_requests w"
  by (simp_all add: agent_scan_def agent_set_token_def case_prod_beta Let_def)

interpretation relayed: deps_invariant "serve_deps su wo" "requests_ok su" for su wo
  by unfold_locales
    (auto simp: serve_deps_def agent_publish_requests intro: requests_ok_same split: option.splits)

lemma fold_invariant: "(\<And>x w. I w \<Longrightarrow> I (f x w)) \<Longrightarrow> I w \<Longrightarrow> I (fold f xs w)"
  by (induction xs arbitrary: w) simp_all

lemma sinks_requests:
  assumes "requests_ok su w"
  shows "requests_ok su (sink_save s w)" "requests_ok su (sink_broadcast s w)" "requests_ok su (sink_evaluate su wo s w)"
    "su_relay su = Some c \<Longrightarrow> requests_ok su (sink_widget su wo c s w)"
proof -
  show "requests_ok su (sink_save s w)" "requests_ok su (sink_broadcast s w)"
    using assms by (simp_all add: requests_ok_def sink_save_def sink_broadcast_def)
  have message: "requests_ok su (publish_message su wo m v)" if "requests_ok su v" for m v
    using that by (simp add: publish_message_def agent_publish_requests split: option.split)
  have "requests_ok su (w\<lparr>ag_evaluator := e\<rparr>)" for e using assms by (simp add: requests_ok_def)
  then have "requests_ok su (fold (publish_message su wo) ms (w\<lparr>ag_evaluator := e\<rparr>))" for ms e
    by (intro fold_invariant [where I = "requests_ok su"] message)
  then show "requests_ok su (sink_evaluate su wo s w)" by (simp add: sink_evaluate_def case_prod_beta Let_def)
  assume c: "su_relay su = Some c"
  let ?name = "c_server_name (su_config su)"
  let ?pub = "\<lambda>m. publish_metrics c ?name agent_regs (Some (agent_drop wo)) m (wo_net wo)"
  let ?n = "notify (Some ?pub) (Some (ag_interval w)) ?name (wo_now wo) s (ag_widget_sent w) w"
  let ?p = "?pub (metrics_from ?name s) w"
  have p: "\<forall>rq \<in> set (fst (snd ?p)). relay_request su rq" by (rule publish_relay(2) [OF c])
  have q: "ag_requests (fst ?p) = ag_requests w" by (rule Agent_Main.publish_keeps(2)) simp
  define n where "n = ?n"
  have "fst (snd n) = w \<or> fst (snd n) = fst ?p" "fst (snd (snd n)) = [] \<or> fst (snd (snd n)) = fst (snd ?p)"
    unfolding n_def by (rule notify_state)+
  then have "ag_requests (fst (snd n)) = ag_requests w" "\<forall>rq \<in> set (fst (snd (snd n))). relay_request su rq"
    using p q by auto
  moreover have "ag_requests (sink_widget su wo c s w) = ag_requests (fst (snd n)) @ fst (snd (snd n))"
    by (simp add: sink_widget_def case_prod_beta Let_def n_def)
  ultimately show "requests_ok su (sink_widget su wo c s w)"
    using assms by (auto simp: requests_ok_def)
qed

lemma run_requests: "requests_ok su w \<Longrightarrow> requests_ok su (serve_run su evs w)"
proof (induction evs arbitrary: w)
  case (Cons ev evs)
  have "requests_ok su (serve_step su ev w)"
  proof (cases ev)
    case (Request wo rq)
    then show ?thesis using relayed.serve_keeps [OF Cons.prems] by (simp add: serve_step_def)
  next
    case (Poll wo)
    have top: "requests_ok su (v\<lparr>ag_top := r\<rparr>) = requests_ok su v" for v r by (simp add: requests_ok_def)
    show ?thesis
      using Cons.prems
      by (simp add: Poll serve_step_def agent_tick_def tick_def agent_sinks_def case_prod_beta Let_def top sinks_requests
          split: option.split)
  qed
  then show ?case using Cons.IH by (simp add: serve_run_def)
qed (simp add: serve_run_def)


subsection \<open>From the API to the file and back\<close>

lemma served_patch:
  assumes "h_method rq = ''PATCH''" "h_authorization rq = ''Bearer '' @ c_pairing_token (su_config su)"
    "c_pairing_token (su_config su) \<noteq> []"
  shows "h_path rq = ''/api/v1/config'' \<Longrightarrow> serve_http (serve_deps su wo) now rq w = handle_patch_config (serve_deps su wo) rq w"
    "h_path rq = ''/api/v1/alerts'' \<Longrightarrow> serve_http (serve_deps su wo) now rq w = handle_patch_alerts (serve_deps su wo) rq w"
proof -
  have a: "authorized (d_pairing_token (serve_deps su wo)) rq" using assms(2,3) by (simp add: authorized_iff serve_deps_def)
  note d = serve_http_def routes_def method_matches_def assms(1)
  show "h_path rq = ''/api/v1/config'' \<Longrightarrow> serve_http (serve_deps su wo) now rq w = handle_patch_config (serve_deps su wo) rq w"
    "h_path rq = ''/api/v1/alerts'' \<Longrightarrow> serve_http (serve_deps su wo) now rq w = handle_patch_alerts (serve_deps su wo) rq w"
    by (simp_all add: d authed_def a)
qed

lemma requested_interval_int64: "requested_interval rq = Some x \<Longrightarrow> in_int64 x"
  by (auto simp: requested_interval_def Let_def parse_duration_range split: prod.splits if_splits sum.splits)

lemma save_error_None: "save_error r = None \<longleftrightarrow> r = Saved"
  by (simp add: save_error_def split: save_result.split)

lemma patched_interval_saved:
  assumes "c_file_path (su_config su) = path" "path \<noteq> []" "agent_file (ag_files w) path cfg"
    "handle_patch_config (serve_deps su wo) rq w = (w', resp)" "resp_status resp = 200"
  shows "\<exists>x. requested_interval rq = Some x \<and> ag_interval w' = x \<and>
    load_file None (ag_files w') path = Inr (cfg\<lparr>c_poll_interval := x\<rparr>)"
proof -
  obtain ic where ic: "d_interval (serve_deps su wo) = Some ic" "\<And>x. ic_set_interval ic x w = w\<lparr>ag_interval := x\<rparr>"
    by (simp add: serve_deps_def)
  have persist: "d_persist (serve_deps su wo) = Some (persist_interval su wo)" by (simp add: serve_deps_def)
  note step = patch_config_step [OF ic(1), of rq w]
  obtain x where x: "requested_interval rq = Some x" "acceptable_interval x"
    using step assms(4,5) by (auto simp: write_error_def write_json_def split: option.splits if_splits)
  obtain files r where s: "save_poll_interval (wo_read wo) (wo_write wo) path x (ag_files w) = (files, r)" by fastforce
  have p: "persist_interval su wo x (w\<lparr>ag_interval := x\<rparr>) = (w\<lparr>ag_interval := x, ag_files := files\<rparr>, save_error r)"
    by (simp add: persist_interval_def assms(1,2) s)
  have "w' = w\<lparr>ag_interval := x, ag_files := files\<rparr>" "save_error r = None"
    using step assms(4,5) by (auto simp: x persist ic(2) p write_error_def write_json_def split: if_splits)
  then show ?thesis
    using interval_after_restart [OF assms(3) requested_interval_int64 [OF x(1)]] s x(1) by (simp add: save_error_None)
qed

lemma patched_rules_saved:
  assumes "c_file_path (su_config su) = path" "path \<noteq> []" "agent_file (ag_files w) path cfg"
    "handle_patch_alerts (serve_deps su wo) rq w = (w', resp)" "resp_status resp = 200"
  shows "\<exists>rs srs. requested_rules rq = Some (rs, srs) \<and> agent_rules w' = (rs, srs) \<and>
    load_file None (ag_files w') path = Inr (cfg\<lparr>c_rules := Some (elems rs), c_service_rules := Some (elems srs)\<rparr>)"
proof -
  obtain rc where rc: "d_rules (serve_deps su wo) = Some rc"
    "\<And>rs srs. rc_set_rules rc rs srs w = w\<lparr>ag_evaluator := set_rules rs srs (ag_evaluator w)\<rparr>"
    by (simp add: serve_deps_def)
  have persist: "d_persist_rules (serve_deps su wo) = Some (persist_rules su wo)" by (simp add: serve_deps_def)
  obtain p bad where b: "decode_body alerts_payload_fields \<lparr>ap_rules = None, ap_service_rules = None\<rparr> rq = (p, bad)" by fastforce
  define w1 where "w1 = w\<lparr>ag_evaluator := set_rules (ap_rules p) (ap_service_rules p) (ag_evaluator w)\<rparr>"
  obtain files r where s: "save_rules (wo_read wo) (wo_write wo) path (ap_rules p) (ap_service_rules p) (ag_files w) = (files, r)"
    by fastforce
  have q: "persist_rules su wo (ap_rules p) (ap_service_rules p) w1 = (w1\<lparr>ag_files := files\<rparr>, save_error r)"
    by (simp add: persist_rules_def assms(1,2) w1_def s)
  have d: "\<not> bad" "w' = w1\<lparr>ag_files := files\<rparr>" "save_error r = None"
    using assms(4,5)
    by (auto simp: handle_patch_alerts_def rc persist b q w1_def [symmetric] write_error_def write_json_def
        split: if_splits option.splits)
  have rr: "requested_rules rq = Some (ap_rules p, ap_service_rules p)" using d(1) by (simp add: requested_rules_def b)
  have "agent_rules w' = (ap_rules p, ap_service_rules p)"
    by (simp add: d(2) w1_def agent_rules_def get_rules_def set_rules_def)
  then show ?thesis
    using rules_after_restart [OF assms(3) requested_rules_ok [OF rr]] s d(2,3) rr by (simp add: save_error_None)
qed


subsection \<open>The connect file of \<open>mosh-server\<close>\<close>

text \<open>The connect line reaches one place: the new file, when one is asked for, else the output; no
  existing file is ever changed.\<close>

lemma mosh_server_connect_line:
  assumes "mosh_server_start env shell connect_file lo hi files = (files', out, err)"
  shows "(\<forall>p. files p \<noteq> None \<longrightarrow> files' p = files p) \<and> (\<forall>p. p \<noteq> connect_file \<longrightarrow> files' p = files p) \<and>
    (err = None \<longrightarrow> 1 \<le> lo \<and> lo \<le> hi \<and> hi \<le> 65535 \<and>
       (\<exists>line. me_server env shell lo hi = Inr line \<and>
          (if connect_file = [] then out = [line] \<and> files' = files
           else out = [] \<and> files' connect_file = Some (line @ [newline]) \<and> has_prefix connect_file ''/'')))"
  using assms
  by (auto simp: mosh_server_start_def create_connect_file_def Let_def split: if_splits sum.splits option.splits prod.splits)

subsection \<open>Witnesses\<close>

definition demo_config :: config where
  "demo_config = zero_config\<lparr>c_listen_addr := '':9'', c_db_path := ''db'', c_poll_interval := minute,
     c_pairing_token := ''secret'', c_push_relay_token := ''relay'', c_server_name := ''web1'',
     c_file_path := ''/etc/agent.json''\<rparr>"

definition demo_files :: fs where
  "demo_files = sample_files(''db.push-token.json'' \<mapsto> Doc (token_file_json
     [\<lparr>reg_token = ''abc'', reg_environment = ''production'', reg_label = ''phone''\<rparr>]))"

definition demo_machine :: machine where
  "demo_machine = \<lparr>mc_host = \<lparr>host_os = ''darwin'', look_path = (\<lambda>_. False), exec_output = (\<lambda>_. None), host_json = (\<lambda>_. None)\<rparr>,
     mc_now = 7, mc_read = (\<lambda>_. Inl ''none''), mc_read_later = (\<lambda>_. Inl ''none''), mc_statfs = (\<lambda>_. Inl ''none''),
     mc_proc_dir = Inl ''none'', mc_proc_at = 7, mc_check_at = 7\<rparr>"

definition demo_world :: world where
  "demo_world = \<lparr>wo_now = 5, wo_read = None, wo_write = all_ok, wo_net = (\<lambda>_. Response 200 []),
     wo_audit = \<lparr>au_run = (\<lambda>_. \<lparr>cr_output = [], cr_err = None\<rparr>), au_read_file = (\<lambda>_. Inl ''none''), au_glob = (\<lambda>_. Inr []),
       au_certificate = (\<lambda>_. None), au_now = 5, au_platform = ''linux''\<rparr>,
     wo_machine = demo_machine\<rparr>"

definition demo_init :: "(serve_setup \<times> agent) result" where
  "demo_init = serve_init (\<lambda>_. None) ''1.0'' (Inr demo_config) None demo_files"

lemma demo_ok: "case demo_init of Inl _ \<Rightarrow> False | Inr (su, w) \<Rightarrow> su_config su = demo_config"
  by code_simp

lemma demo_start: obtains su w where "demo_init = Inr (su, w)" "su_config su = demo_config"
proof (cases demo_init)
  case (Inl e)
  show ?thesis using demo_ok unfolding Inl by simp
next
  case (Inr p)
  show ?thesis using that [of "fst p" "snd p"] demo_ok unfolding Inr by (simp add: case_prod_beta)
qed

abbreviation demo_request :: "string \<Rightarrow> string \<Rightarrow> body_text \<Rightarrow> http_request" where
  "demo_request m p b \<equiv> plain_request m p ''Bearer secret'' b"

lemma demo_request_fields:
  "h_method (demo_request m p b) = m" "h_path (demo_request m p b) = p"
  "h_authorization (demo_request m p b) = ''Bearer '' @ c_pairing_token demo_config" "c_pairing_token demo_config \<noteq> []"
  by (simp_all add: plain_request_def demo_config_def)

theorem agent_settings_stay_valid_witness:
  "case demo_init of Inl _ \<Rightarrow> False | Inr (su, w) \<Rightarrow>
     (\<forall>evs. ag_interval (serve_run su evs w) = minute \<or> ag_interval (serve_run su evs w) = 0 \<or>
       5 * second \<le> ag_interval (serve_run su evs w))"
proof -
  obtain su w where d: "demo_init = Inr (su, w)" by (rule demo_start)
  have "c_poll_interval demo_config = minute" by (simp add: demo_config_def)
  then show ?thesis unfolding d sum.case prod.case using agent_settings_stay_valid [OF d [unfolded demo_init_def]] by metis
qed

theorem agent_serves_history_witness:
  "case demo_init of Inl _ \<Rightarrow> False | Inr (su, w) \<Rightarrow>
     snd (serve_http (serve_deps su demo_world) 0 (demo_request ''GET'' ''/api/v1/latest'' BadText)
       (serve_run su [Poll demo_world] w)) = write_json 200 (PSample (sampled demo_world w))"
proof -
  obtain su w where d: "demo_init = Inr (su, w)" by (rule demo_start)
  have "ag_interval w = minute" using serve_init_state(3) [OF d [unfolded demo_init_def]] by (simp add: demo_config_def)
  then have "samples_taken su [Poll demo_world] w = [sampled demo_world w]" by simp
  then show ?thesis
    using agent_serves_history [OF d [unfolded demo_init_def] refl refl demo_request_fields(1,3), where evs = "[Poll demo_world]"]
    unfolding d sum.case prod.case by (simp add: demo_request_fields(2))
qed


lemma demo_agent_file: "agent_file demo_files ''/etc/agent.json'' sample_config"
proof -
  have "demo_files ''/etc/agent.json'' = sample_files ''/etc/agent.json''" by (simp add: demo_files_def)
  then show ?thesis using sample_agent_file by (simp add: agent_file_def load_file_def read_file_def)
qed


end
