(* ===== verification/Go_Rfc3339.thy ===== *)
theory Go_Rfc3339
  imports Go_Digits Go_Json
begin

text \<open>
  The JSON form of \<open>time.Time\<close>: the civil date of a day count, RFC 3339 text with nanoseconds as
  \<open>appendStrictRFC3339\<close> writes it and \<open>parseStrictRFC3339\<close> reads it. A time zone is its offset in
  minutes. The main result: text of a time in the years 0 to 9999, in any zone, is read back as that
  instant.
\<close>

subsection \<open>The calendar\<close>

definition leap :: "int \<Rightarrow> bool" where
  "leap y \<longleftrightarrow> y mod 4 = 0 \<and> (y mod 100 \<noteq> 0 \<or> y mod 400 = 0)"

definition days_before_year :: "int \<Rightarrow> int" where
  "days_before_year y = (let p = y - 1 in 365 * p + p div 4 - p div 100 + p div 400)"

definition month_lengths :: "int \<Rightarrow> int list" where
  "month_lengths y = [31, if leap y then 29 else 28, 31, 30, 31, 30, 31, 31, 30, 31, 30, 31]"

text \<open>Year and day of the year (from 0) of a day, day 0 being January 1 of year 1: cut off cycles of
  400, 100, 4 and 1 years; the last cycle of a kind may be a day longer.\<close>

definition year_day :: "int \<Rightarrow> int \<times> int" where
  "year_day n =
     (let y400 = n div 146097; r400 = n mod 146097;
          y100 = min 3 (r400 div 36524); r100 = r400 - 36524 * y100;
          y4 = r100 div 1461; r4 = r100 mod 1461;
          y1 = min 3 (r4 div 365)
      in (400 * y400 + 100 * y100 + 4 * y4 + y1 + 1, r4 - 365 * y1))"

fun month_walk :: "int list \<Rightarrow> nat \<Rightarrow> int \<Rightarrow> nat \<times> int" where
  "month_walk [] m d = (m, d)"
| "month_walk (l # ls) m d = (if d < l then (m, d) else month_walk ls (Suc m) (d - l))"

text \<open>Year, month (from 0), day of the month (from 0), and back.\<close>

definition civil :: "int \<Rightarrow> int \<times> nat \<times> int" where
  "civil n = (let (y, yd) = year_day n in (y, month_walk (month_lengths y) 0 yd))"

definition day_number :: "int \<Rightarrow> nat \<Rightarrow> int \<Rightarrow> int" where
  "day_number y m d = days_before_year y + sum_list (take m (month_lengths y)) + d"

lemma year_day_inverse:
  assumes "year_day n = (y, yd)"
  shows "days_before_year y + yd = n \<and> 0 \<le> yd \<and> yd < (if leap y then 366 else 365)"
proof -
  define a where "a = n div 146097"
  define r where "r = n mod 146097"
  define b where "b = min 3 (r div 36524)"
  define s where "s = r - 36524 * b"
  define c where "c = s div 1461"
  define t where "t = s mod 1461"
  define e where "e = min 3 (t div 365)"
  have "year_day n = (400 * a + 100 * b + 4 * c + e + 1, t - 365 * e)"
    by (simp only: year_day_def Let_def a_def r_def b_def s_def c_def t_def e_def)
  then have y: "y = 400 * a + 100 * b + 4 * c + e + 1" "yd = t - 365 * e" using assms by simp_all
  have r: "n = 146097 * a + r" "0 \<le> r" "r \<le> 146096" by (simp_all add: a_def r_def)
  have b: "0 \<le> b" "b \<le> 3" "0 \<le> s" "s \<le> 36524" "b < 3 \<longrightarrow> s \<le> 36523"
    using r(2,3) by (auto simp: b_def s_def min_def)
  have c: "s = 1461 * c + t" "0 \<le> t" "t \<le> 1460" "0 \<le> c" "c \<le> 24" using b(3,4) by (auto simp: c_def t_def)
  have e: "0 \<le> e" "e \<le> 3" "0 \<le> t - 365 * e" "t - 365 * e \<le> 365" "e < 3 \<longrightarrow> t - 365 * e \<le> 364"
    using c(2,3) by (auto simp: e_def min_def)
  have p: "(y - 1) div 4 = 100 * a + 25 * b + c" "(y - 1) div 100 = 4 * a + b" "(y - 1) div 400 = a"
    using y(1) b(1,2) c(4,5) e(1,2) by auto
  have 1: "days_before_year y + yd = n"
    by (simp add: days_before_year_def Let_def p) (use y r(1) c(1) in \<open>simp add: s_def\<close>)
  have "leap y" if "t - 365 * e = 365"
  proof -
    have e3: "e = 3" using e that by auto
    then have "t = 1460" using that by simp
    then have c24: "c = 24 \<longrightarrow> b = 3" using b(2,5) c(1) by auto
    have y4: "y = 4 * (100 * a + 25 * b + c + 1)" using y(1) e3 by simp
    show ?thesis
    proof (cases "c = 24")
      case True
      then have "y = 400 * (a + 1)" using c24 y4 by simp
      then show ?thesis by (simp add: leap_def)
    next
      case False
      then have "y = 100 * (4 * a + b) + (4 * c + 4)" "0 < 4 * c + 4" "4 * c + 4 < 100" using y4 c(4,5) by simp_all
      then have "y mod 100 = (4 * c + 4) mod 100" by (simp only: mod_mult_self4)
      also have "\<dots> = 4 * c + 4" by (rule mod_pos_pos_trivial) (use False c(4,5) in simp_all)
      finally have "y mod 100 = 4 * c + 4" .
      then show ?thesis using y4 c(4) by (simp add: leap_def)
    qed
  qed
  then have "yd < (if leap y then 366 else 365)" using e(4) y(2) by force
  then show ?thesis using 1 e(3) y(2) by simp
qed

lemma month_walk_inverse:
  "month_walk ls m d = (m', d') \<Longrightarrow> 0 \<le> d \<Longrightarrow> d < sum_list ls \<Longrightarrow>
   m \<le> m' \<and> m' < m + length ls \<and> sum_list (take (m' - m) ls) + d' = d \<and> 0 \<le> d' \<and> d' < ls ! (m' - m)"
proof (induction ls arbitrary: m d)
  case (Cons l ls)
  show ?case
  proof (cases "d < l")
    case True
    then show ?thesis using Cons.prems by simp
  next
    case False
    then have "month_walk ls (Suc m) (d - l) = (m', d')" "0 \<le> d - l" "d - l < sum_list ls"
      using Cons.prems by simp_all
    from Cons.IH [OF this] show ?thesis by (auto simp: Suc_diff_le [symmetric] Suc_diff_Suc take_Cons' nth_Cons')
  qed
qed simp

lemma civil_inverse:
  assumes "civil n = (y, m, d)"
  shows "day_number y m d = n \<and> m < 12 \<and> 0 \<le> d \<and> d < month_lengths y ! m"
proof -
  obtain yd where yd: "year_day n = (y, yd)" "month_walk (month_lengths y) 0 yd = (m, d)"
    using assms by (auto simp: civil_def split: prod.splits)
  note inv = year_day_inverse [OF yd(1)]
  have "sum_list (month_lengths y) = (if leap y then 366 else 365)" by (simp add: month_lengths_def)
  then have "m < length (month_lengths y)" "sum_list (take m (month_lengths y)) + d = yd" "0 \<le> d" "d < month_lengths y ! m"
    using month_walk_inverse [OF yd(2)] inv by auto
  then show ?thesis using inv by (simp add: day_number_def month_lengths_def)
qed

lemma month_length_bounds: "m < 12 \<Longrightarrow> 28 \<le> month_lengths y ! m \<and> month_lengths y ! m \<le> 31"
  by (simp add: month_lengths_def numeral_eq_Suc less_Suc_eq nth_Cons' del: One_nat_def) auto

subsection \<open>Writing\<close>

text \<open>Seconds of the zone's clock and the nanoseconds.\<close>

definition zone_seconds :: "int \<Rightarrow> time \<Rightarrow> int" where
  "zone_seconds z t = t div second + 60 * z"

definition clock_text :: "nat \<Rightarrow> string" where
  "clock_text s = pad_digits 2 (s div 3600) @ '':'' @ pad_digits 2 (s div 60 mod 60) @ '':'' @ pad_digits 2 (s mod 60)"

definition strip_zeros :: "nat list \<Rightarrow> nat list" where
  "strip_zeros ds = rev (dropWhile (\<lambda>d. d = 0) (rev ds))"

definition frac_text :: "nat \<Rightarrow> string" where
  "frac_text ns = (let ds = strip_zeros (be_digits 10 9 ns) in if ds = [] then [] else CHR ''.'' # map dec_char ds)"

definition zone_text :: "int \<Rightarrow> string" where
  "zone_text z = (if z = 0 then ''Z''
     else (if z < 0 then CHR ''-'' else CHR ''+'') # pad_digits 2 (nat \<bar>z\<bar> div 60) @ '':'' @ pad_digits 2 (nat \<bar>z\<bar> mod 60))"

definition zone_year :: "int \<Rightarrow> time \<Rightarrow> int" where
  "zone_year z t = fst (civil (zone_seconds z t div 86400))"

text \<open>\<open>Time.MarshalJSON\<close>.\<close>

definition rfc3339_text :: "int \<Rightarrow> time \<Rightarrow> string" where
  "rfc3339_text z t =
     (let s = zone_seconds z t; (y, m, d) = civil (s div 86400)
      in pad_digits 4 (nat y) @ ''-'' @ pad_digits 2 (m + 1) @ ''-'' @ pad_digits 2 (nat d + 1) @ ''T'' @
         clock_text (nat (s mod 86400)) @ frac_text (nat (t mod second)) @ zone_text z)"

definition time_json :: "int \<Rightarrow> time \<Rightarrow> json result" where
  "time_json z t =
     (if zone_year z t < 0 \<or> 9999 < zone_year z t then Inl ''Time.MarshalJSON: year outside of range [0,9999]''
      else if 23 < \<bar>z\<bar> div 60 then Inl ''Time.MarshalJSON: timezone hour outside of range [0,23]''
      else Inr (JStr (rfc3339_text z t)))"

subsection \<open>Reading\<close>

text \<open>A fraction keeps nine digits; \<open>None\<close> for the rest when there is no fraction.\<close>

definition parse_frac :: "string \<Rightarrow> nat \<times> string" where
  "parse_frac s =
     (case s of
        c # r \<Rightarrow>
          let ds = takeWhile is_digit r
          in if c = CHR ''.'' \<and> ds \<noteq> []
             then (be_value 10 (map digit_of (take 9 ds)) * 10 ^ (9 - length (take 9 ds)), dropWhile is_digit r)
             else (0, s)
      | [] \<Rightarrow> (0, []))"

definition parse_zone :: "string \<Rightarrow> int option" where
  "parse_zone s =
     (if s = ''Z'' then Some 0
      else if length s \<noteq> 6 \<or> s ! 0 \<notin> {CHR ''-'', CHR ''+''} \<or> s ! 3 \<noteq> CHR '':'' then None
      else case (time_parse_uint (take 2 (drop 1 s)) 0 23, time_parse_uint (drop 4 s) 0 59) of
        (Some h, Some m) \<Rightarrow> Some ((if s ! 0 = CHR ''-'' then - 1 else 1) * int (h * 60 + m))
      | _ \<Rightarrow> None)"

text \<open>\<open>parseRFC3339\<close>.\<close>

definition parse_rfc3339 :: "string \<Rightarrow> time option" where
  "parse_rfc3339 s =
     (if length s < 19 \<or> s ! 4 \<noteq> CHR ''-'' \<or> s ! 7 \<noteq> CHR ''-'' \<or> s ! 10 \<noteq> CHR ''T'' \<or> s ! 13 \<noteq> CHR '':'' \<or> s ! 16 \<noteq> CHR '':''
      then None
      else case (time_parse_uint (take 4 s) 0 9999, time_parse_uint (take 2 (drop 5 s)) 1 12) of
        (Some y, Some m) \<Rightarrow>
          (case (time_parse_uint (take 2 (drop 8 s)) 1 (nat (month_lengths (int y) ! (m - 1))),
                 time_parse_uint (take 2 (drop 11 s)) 0 23, time_parse_uint (take 2 (drop 14 s)) 0 59,
                 time_parse_uint (take 2 (drop 17 s)) 0 59) of
             (Some d, Some hh, Some mi, Some ss) \<Rightarrow>
               (let (ns, rest) = parse_frac (drop 19 s)
                in case parse_zone rest of
                     None \<Rightarrow> None
                   | Some z \<Rightarrow>
                       Some ((day_number (int y) (m - 1) (int d - 1) * 86400 + int (hh * 3600 + mi * 60 + ss) - 60 * z) * second
                         + int ns))
           | _ \<Rightarrow> None)
      | _ \<Rightarrow> None)"

fun dec_time :: "time decoder" where
  "dec_time (JStr s) old = (case parse_rfc3339 s of None \<Rightarrow> (old, True) | Some t \<Rightarrow> (t, False))"
| "dec_time JNull old = (old, False)"
| "dec_time _ old = (old, True)"

subsection \<open>Reading what was written\<close>

lemma takeWhile_replicate: "takeWhile (\<lambda>d. d = x) ds = replicate (length (takeWhile (\<lambda>d. d = x) ds)) x"
  by (induction ds) simp_all

lemma strip_zeros_append: "\<exists>k. ds = strip_zeros ds @ replicate k 0"
proof -
  have "rev ds = takeWhile (\<lambda>d. d = 0) (rev ds) @ dropWhile (\<lambda>d. d = 0) (rev ds)" by simp
  then have "ds = strip_zeros ds @ rev (takeWhile (\<lambda>d. d = 0) (rev ds))"
    unfolding strip_zeros_def by (metis rev_append rev_rev_ident)
  moreover have "rev (takeWhile (\<lambda>d. d = 0) (rev ds)) = replicate (length (takeWhile (\<lambda>d. d = 0) (rev ds))) 0"
    by (subst takeWhile_replicate) simp
  ultimately show ?thesis by metis
qed

lemma parse_frac_text:
  assumes "ns < 1000000000" "rest = [] \<or> \<not> is_digit (hd rest) \<and> hd rest \<noteq> CHR ''.''"
  shows "parse_frac (frac_text ns @ rest) = (ns, rest)"
proof -
  define ds where "ds = strip_zeros (be_digits 10 9 ns)"
  obtain k where k: "be_digits 10 9 ns = ds @ replicate k 0" using strip_zeros_append unfolding ds_def by blast
  have l: "length ds + k = 9" using arg_cong [OF k, of length] by simp
  have "be_value 10 (be_digits 10 9 ns) = ns" using assms(1) by (intro be_value_digits) simp_all
  then have v: "be_value 10 ds * 10 ^ k = ns" unfolding k be_value_zeros .
  have d10: "\<forall>d \<in> set ds. d < 10"
    using be_digits_less [of 10 _ 9 ns] unfolding k by auto
  show ?thesis
  proof (cases "ds = []")
    case True
    then have "ns = 0" using v by (simp add: be_value_def)
    moreover have "frac_text ns = []" using True by (simp add: frac_text_def ds_def)
    ultimately show ?thesis using assms(2) by (cases rest) (simp_all add: parse_frac_def)
  next
    case False
    have t: "takeWhile is_digit (map dec_char ds @ rest) = map dec_char ds" "dropWhile is_digit (map dec_char ds @ rest) = rest"
      using assms(2) d10 by (cases rest; auto simp: takeWhile_append dropWhile_append)+
    have "frac_text ns = CHR ''.'' # map dec_char ds" using False by (simp add: frac_text_def flip: ds_def)
    then show ?thesis using t l v False digits_of_text [OF d10] by (simp add: parse_frac_def) (metis diff_add_inverse)
  qed
qed

lemma parse_zone_text:
  assumes "\<bar>z\<bar> div 60 \<le> 23"
  shows "parse_zone (zone_text z) = Some z"
proof (cases "z = 0")
  case True
  then show ?thesis by (simp add: zone_text_def parse_zone_def)
next
  case False
  define h where "h = nat \<bar>z\<bar> div 60"
  define m where "m = nat \<bar>z\<bar> mod 60"
  have hm: "h \<le> 23" "m < 60" "int (h * 60 + m) = \<bar>z\<bar>" using assms by (auto simp: h_def m_def)
  obtain h1 h2 m1 m2 where p: "pad_digits 2 h = [h1, h2]" "pad_digits 2 m = [m1, m2]"
    using length_pad_digits [of 2 h] length_pad_digits [of 2 m] by (auto simp: numeral_2_eq_2 length_Suc_conv simp del: length_pad_digits)
  have "time_parse_uint [h1, h2] 0 23 = Some h" "time_parse_uint [m1, m2] 0 59 = Some m"
    using hm unfolding p [symmetric] by (intro parse_pad_digits; simp)+
  moreover have "zone_text z = (if z < 0 then CHR ''-'' else CHR ''+'') # [h1, h2, CHR '':'', m1, m2]"
    using False p by (simp add: zone_text_def h_def m_def)
  ultimately show ?thesis using hm(3) by (auto simp: parse_zone_def numeral_eq_Suc)
qed

lemma clock_seconds:
  "n div 3600 * 3600 + n div 60 mod 60 * 60 + n mod 60 = n" for n :: nat
proof -
  have "n div 60 = n div 60 div 60 * 60 + n div 60 mod 60" by simp
  moreover have "n div 60 div 60 = n div 3600" by (simp flip: div_mult2_eq)
  moreover have "n = n div 60 * 60 + n mod 60" by simp
  ultimately show ?thesis by linarith
qed

text \<open>What a whole text is made of, as one list with its separators in place.\<close>

lemma parse_rfc3339_parts:
  assumes l: "length y = 4" "length m = 2" "length d = 2" "length hh = 2" "length mi = 2" "length ss = 2"
  assumes p: "time_parse_uint y 0 9999 = Some Y" "time_parse_uint m 1 12 = Some M"
    "time_parse_uint d 1 (nat (month_lengths (int Y) ! (M - 1))) = Some D"
    "time_parse_uint hh 0 23 = Some H" "time_parse_uint mi 0 59 = Some I" "time_parse_uint ss 0 59 = Some S"
  assumes r: "parse_frac rest = (ns, zt)" "parse_zone zt = Some z"
  shows "parse_rfc3339 (y @ ''-'' @ m @ ''-'' @ d @ ''T'' @ (hh @ '':'' @ mi @ '':'' @ ss) @ rest) =
    Some ((day_number (int Y) (M - 1) (int D - 1) * 86400 + int (H * 3600 + I * 60 + S) - 60 * z) * second + int ns)"
proof -
  obtain y1 y2 y3 y4 where y: "y = [y1, y2, y3, y4]" using l(1) by (auto simp: numeral_eq_Suc length_Suc_conv)
  obtain m1 m2 where m: "m = [m1, m2]" using l(2) by (auto simp: numeral_eq_Suc length_Suc_conv)
  obtain d1 d2 where d: "d = [d1, d2]" using l(3) by (auto simp: numeral_eq_Suc length_Suc_conv)
  obtain h1 h2 where h: "hh = [h1, h2]" using l(4) by (auto simp: numeral_eq_Suc length_Suc_conv)
  obtain i1 i2 where i: "mi = [i1, i2]" using l(5) by (auto simp: numeral_eq_Suc length_Suc_conv)
  obtain s1 s2 where s: "ss = [s1, s2]" using l(6) by (auto simp: numeral_eq_Suc length_Suc_conv)
  show ?thesis using p r unfolding y m d h i s by (simp add: parse_rfc3339_def)
qed

theorem parse_rfc3339_text:
  assumes "0 \<le> zone_year z t" "zone_year z t \<le> 9999" "\<bar>z\<bar> div 60 \<le> 23"
  shows "parse_rfc3339 (rfc3339_text z t) = Some t"
proof -
  define s where "s = zone_seconds z t"
  obtain y m d where c: "civil (s div 86400) = (y, m, d)" by (rule prod_cases3)
  note inv = civil_inverse [OF c]
  define n where "n = nat (s mod 86400)"
  have y: "0 \<le> y" "y \<le> 9999" using assms(1,2) c by (simp_all add: zone_year_def s_def)
  have n: "n < 86400" "int n = s mod 86400" by (simp_all add: n_def)
  have ml: "28 \<le> month_lengths y ! m" "month_lengths y ! m \<le> 31" using month_length_bounds inv by blast+
  have d: "0 \<le> d" "d < month_lengths y ! m" "m < 12" using inv by simp_all
  have p: "time_parse_uint (pad_digits 4 (nat y)) 0 9999 = Some (nat y)"
    "time_parse_uint (pad_digits 2 (m + 1)) 1 12 = Some (m + 1)"
    "time_parse_uint (pad_digits 2 (n div 3600)) 0 23 = Some (n div 3600)"
    "time_parse_uint (pad_digits 2 (n div 60 mod 60)) 0 59 = Some (n div 60 mod 60)"
    "time_parse_uint (pad_digits 2 (n mod 60)) 0 59 = Some (n mod 60)"
    using y d(3) n(1) by (auto intro!: parse_pad_digits)
  have pd: "time_parse_uint (pad_digits 2 (nat d + 1)) 1 (nat (month_lengths (int (nat y)) ! (m + 1 - 1))) = Some (nat d + 1)"
    using y(1) d ml by (intro parse_pad_digits) auto
  have tail: "zone_text z = [] \<or> \<not> is_digit (hd (zone_text z)) \<and> hd (zone_text z) \<noteq> CHR ''.''"
    by (simp add: zone_text_def is_digit_def)
  have f: "parse_frac (frac_text (nat (t mod second)) @ zone_text z) = (nat (t mod second), zone_text z)"
  proof (rule parse_frac_text [OF _ tail])
    have "t mod second < second" by simp
    then show "nat (t mod second) < 1000000000" by simp
  qed
  have eq: "rfc3339_text z t = pad_digits 4 (nat y) @ ''-'' @ pad_digits 2 (m + 1) @ ''-'' @ pad_digits 2 (nat d + 1) @ ''T'' @
     (pad_digits 2 (n div 3600) @ '':'' @ pad_digits 2 (n div 60 mod 60) @ '':'' @ pad_digits 2 (n mod 60)) @
     frac_text (nat (t mod second)) @ zone_text z"
    using c by (simp add: rfc3339_text_def clock_text_def Let_def flip: s_def n_def)
  have "parse_rfc3339 (rfc3339_text z t) =
    Some ((day_number (int (nat y)) (m + 1 - 1) (int (nat d + 1) - 1) * 86400 +
      int (n div 3600 * 3600 + n div 60 mod 60 * 60 + n mod 60) - 60 * z) * second + int (nat (t mod second)))"
    unfolding eq by (rule parse_rfc3339_parts) (use p pd f parse_zone_text [OF assms(3)] in simp_all)
  also have "\<dots> = Some ((s div 86400 * 86400 + s mod 86400 - 60 * z) * second + t mod second)"
    using y(1) d(1) inv n(2) unfolding clock_seconds by simp
  also have "\<dots> = Some t" by (simp add: s_def zone_seconds_def)
  finally show ?thesis .
qed

lemma dec_time_json:
  assumes "time_json z t = Inr j"
  shows "dec_time j old = (t, False)"
proof -
  have "0 \<le> zone_year z t" "zone_year z t \<le> 9999" "\<bar>z\<bar> div 60 \<le> 23" "j = JStr (rfc3339_text z t)"
    using assms by (auto simp: time_json_def split: if_splits)
  then show ?thesis using parse_rfc3339_text by simp
qed

end
