(* ===== verification/Sample_Json.thy ===== *)
theory Sample_Json
  imports Collector_Types Rule_Json Go_Rfc3339 Go_Utf8
begin

text \<open>
  The wire form of a sample: what \<open>json.Marshal\<close> writes for the types of internal/collector/types.go
  (the names and \<open>omitempty\<close> of the struct tags, RFC 3339 times, strings made valid UTF-8) and what
  \<open>json.Unmarshal\<close> reads back. \<open>zone\<close> gives the local offset in minutes at a time, for the times that are
  not in UTC. At the level of trees an integer is a number without fraction.
\<close>

definition dec_int :: "int decoder" where
  "dec_int j old = (case j of
      JNum r \<Rightarrow> if of_int \<lfloor>r\<rfloor> = r \<and> in_int64 \<lfloor>r\<rfloor> then (\<lfloor>r\<rfloor>, False) else (old, True)
    | JNull \<Rightarrow> (old, False)
    | _ \<Rightarrow> (old, True))"

text \<open>A slice whose nil and empty values are one.\<close>

definition dec_list :: "'a decoder \<Rightarrow> 'a \<Rightarrow> 'a list decoder" where
  "dec_list d z j old = (let (xs, e) = dec_slice d z j (Some old) in (elems xs, e))"

text \<open>All values, or the first error: \<open>Marshal\<close> stops there.\<close>

fun all_ok :: "'a result list \<Rightarrow> 'a list result" where
  "all_ok [] = Inr []"
| "all_ok (r # rs) = (case r of Inl e \<Rightarrow> Inl e
     | Inr x \<Rightarrow> (case all_ok rs of Inl e \<Rightarrow> Inl e | Inr xs \<Rightarrow> Inr (x # xs)))"

definition field :: "string \<Rightarrow> json result \<Rightarrow> (string \<times> json) result" where
  "field k r = map_sum (\<lambda>e. e) (Pair k) r"

definition object :: "(string \<times> json) result list \<Rightarrow> json result" where
  "object fs = map_sum (\<lambda>e. e) JObj (all_ok fs)"

definition array :: "json result list \<Rightarrow> json result" where
  "array rs = map_sum (\<lambda>e. e) JArr (all_ok rs)"

subsection \<open>Processes and services\<close>

definition process_json :: "process_info \<Rightarrow> json result" where
  "process_json p = object
     [field ''pid'' (Inr (JNum (of_int (pi_pid p)))), field ''name'' (Inr (JStr (json_string (pi_name p)))),
      field ''cpu_percent'' (enc_float (pi_cpu_percent p)), field ''mem_mb'' (enc_float (pi_mem_mb p))]"

definition zero_process :: process_info where
  "zero_process = \<lparr>pi_pid = 0, pi_name = [], pi_cpu_percent = Fin 0, pi_mem_mb = Fin 0\<rparr>"

definition process_fields :: "process_info fields" where
  "process_fields = [(''pid'', lift_field pi_pid (\<lambda>x s. s\<lparr>pi_pid := x\<rparr>) dec_int),
     (''name'', lift_field pi_name (\<lambda>x s. s\<lparr>pi_name := x\<rparr>) dec_string),
     (''cpu_percent'', lift_field pi_cpu_percent (\<lambda>x s. s\<lparr>pi_cpu_percent := x\<rparr>) dec_float),
     (''mem_mb'', lift_field pi_mem_mb (\<lambda>x s. s\<lparr>pi_mem_mb := x\<rparr>) dec_float)]"

definition service_json :: "(time \<Rightarrow> int) \<Rightarrow> service_status \<Rightarrow> json result" where
  "service_json zone v = object
     ([field ''kind'' (Inr (JStr (json_string (ss_kind v)))), field ''name'' (Inr (JStr (json_string (ss_name v)))),
       field ''running'' (Inr (JBool (ss_running v)))] @
      map Inr (opt_field ''detail'' (json_string (ss_detail v))) @
      [field ''last_check'' (time_json (zone (ss_last_check v)) (ss_last_check v))])"

definition zero_service :: service_status where
  "zero_service = \<lparr>ss_kind = [], ss_name = [], ss_running = False, ss_detail = [], ss_last_check = zero_time\<rparr>"

definition service_fields :: "service_status fields" where
  "service_fields = [(''kind'', lift_field ss_kind (\<lambda>x s. s\<lparr>ss_kind := x\<rparr>) dec_string),
     (''name'', lift_field ss_name (\<lambda>x s. s\<lparr>ss_name := x\<rparr>) dec_string),
     (''running'', lift_field ss_running (\<lambda>x s. s\<lparr>ss_running := x\<rparr>) dec_bool),
     (''detail'', lift_field ss_detail (\<lambda>x s. s\<lparr>ss_detail := x\<rparr>) dec_string),
     (''last_check'', lift_field ss_last_check (\<lambda>x s. s\<lparr>ss_last_check := x\<rparr>) dec_time)]"

definition processes_json :: "process_info list \<Rightarrow> json result" where
  "processes_json ps = array (map process_json ps)"

definition services_json :: "(time \<Rightarrow> int) \<Rightarrow> service_status list \<Rightarrow> json result" where
  "services_json zone vs = array (map (service_json zone) vs)"

definition dec_processes :: "process_info list decoder" where
  "dec_processes = dec_list (dec_struct process_fields) zero_process"

definition dec_services :: "service_status list decoder" where
  "dec_services = dec_list (dec_struct service_fields) zero_service"

subsection \<open>Samples\<close>

definition omit_empty :: "string \<Rightarrow> 'a list \<Rightarrow> json result \<Rightarrow> (string \<times> json) result list" where
  "omit_empty k xs r = (if xs = [] then [] else [field k r])"

definition sample_json :: "(time \<Rightarrow> int) \<Rightarrow> sample \<Rightarrow> json result" where
  "sample_json zone s = object
     ([field ''timestamp'' (time_json 0 (timestamp s)),
       field ''cpu_percent'' (enc_float (cpu_percent s)),
       field ''mem_used_mb'' (enc_float (mem_used_mb s)), field ''mem_total_mb'' (enc_float (mem_total_mb s)),
       field ''disk_used_gb'' (enc_float (disk_used_gb s)), field ''disk_total_gb'' (enc_float (disk_total_gb s)),
       field ''load_avg_1'' (enc_float (load_avg_1 s)), field ''load_avg_5'' (enc_float (load_avg_5 s)),
       field ''load_avg_15'' (enc_float (load_avg_15 s)),
       field ''uptime_seconds'' (Inr (JNum (of_int (uptime_seconds s)))),
       field ''net_rx_bytes_per_sec'' (enc_float (net_rx_bytes_per_sec s)),
       field ''net_tx_bytes_per_sec'' (enc_float (net_tx_bytes_per_sec s))] @
      omit_empty ''top_processes'' (top_processes s) (processes_json (top_processes s)) @
      omit_empty ''services'' (services s) (services_json zone (services s)))"

definition sample_fields :: "sample fields" where
  "sample_fields = [(''timestamp'', lift_field timestamp (\<lambda>x s. s\<lparr>timestamp := x\<rparr>) dec_time),
     (''cpu_percent'', lift_field cpu_percent (\<lambda>x s. s\<lparr>cpu_percent := x\<rparr>) dec_float),
     (''mem_used_mb'', lift_field mem_used_mb (\<lambda>x s. s\<lparr>mem_used_mb := x\<rparr>) dec_float),
     (''mem_total_mb'', lift_field mem_total_mb (\<lambda>x s. s\<lparr>mem_total_mb := x\<rparr>) dec_float),
     (''disk_used_gb'', lift_field disk_used_gb (\<lambda>x s. s\<lparr>disk_used_gb := x\<rparr>) dec_float),
     (''disk_total_gb'', lift_field disk_total_gb (\<lambda>x s. s\<lparr>disk_total_gb := x\<rparr>) dec_float),
     (''load_avg_1'', lift_field load_avg_1 (\<lambda>x s. s\<lparr>load_avg_1 := x\<rparr>) dec_float),
     (''load_avg_5'', lift_field load_avg_5 (\<lambda>x s. s\<lparr>load_avg_5 := x\<rparr>) dec_float),
     (''load_avg_15'', lift_field load_avg_15 (\<lambda>x s. s\<lparr>load_avg_15 := x\<rparr>) dec_float),
     (''uptime_seconds'', lift_field uptime_seconds (\<lambda>x s. s\<lparr>uptime_seconds := x\<rparr>) dec_int),
     (''net_rx_bytes_per_sec'', lift_field net_rx_bytes_per_sec (\<lambda>x s. s\<lparr>net_rx_bytes_per_sec := x\<rparr>) dec_float),
     (''net_tx_bytes_per_sec'', lift_field net_tx_bytes_per_sec (\<lambda>x s. s\<lparr>net_tx_bytes_per_sec := x\<rparr>) dec_float),
     (''top_processes'', lift_field top_processes (\<lambda>x s. s\<lparr>top_processes := x\<rparr>) dec_processes),
     (''services'', lift_field services (\<lambda>x s. s\<lparr>services := x\<rparr>) dec_services)]"

definition dec_sample :: "sample decoder" where
  "dec_sample = dec_struct sample_fields"

subsection \<open>What can be sent, and what arrives\<close>

definition time_ok :: "(time \<Rightarrow> int) \<Rightarrow> time \<Rightarrow> bool" where
  "time_ok zone t \<longleftrightarrow> 0 \<le> zone_year (zone t) t \<and> zone_year (zone t) t \<le> 9999 \<and> \<bar>zone t\<bar> div 60 \<le> 23"

definition process_ok :: "process_info \<Rightarrow> bool" where
  "process_ok p \<longleftrightarrow> in_int64 (pi_pid p) \<and> exact (pi_cpu_percent p) \<and> exact (pi_mem_mb p)"

definition sample_ok :: "(time \<Rightarrow> int) \<Rightarrow> sample \<Rightarrow> bool" where
  "sample_ok zone s \<longleftrightarrow> time_ok (\<lambda>_. 0) (timestamp s) \<and>
     list_all exact [cpu_percent s, mem_used_mb s, mem_total_mb s, disk_used_gb s, disk_total_gb s, load_avg_1 s,
       load_avg_5 s, load_avg_15 s, net_rx_bytes_per_sec s, net_tx_bytes_per_sec s] \<and>
     in_int64 (uptime_seconds s) \<and> list_all process_ok (top_processes s) \<and>
     list_all (\<lambda>v. time_ok zone (ss_last_check v)) (services s)"

text \<open>A string that was not valid UTF-8 arrives with replacement characters.\<close>

definition clean_process :: "process_info \<Rightarrow> process_info" where
  "clean_process p = p\<lparr>pi_name := json_string (pi_name p)\<rparr>"

definition clean_service :: "service_status \<Rightarrow> service_status" where
  "clean_service v = v\<lparr>ss_kind := json_string (ss_kind v), ss_name := json_string (ss_name v),
     ss_detail := json_string (ss_detail v)\<rparr>"

definition clean_sample :: "sample \<Rightarrow> sample" where
  "clean_sample s = s\<lparr>top_processes := map clean_process (top_processes s),
     services := map clean_service (services s)\<rparr>"

lemma enc_exact: "exact x \<Longrightarrow> \<exists>r. x = Fin r \<and> enc_float x = Inr (JNum r) \<and> dec_float (JNum r) old = (x, False)"
  by (auto simp: exact_def enc_float_def)

lemma time_json_ok: "time_ok zone t \<Longrightarrow> time_json (zone t) t = Inr (JStr (rfc3339_text (zone t) t))"
  by (simp add: time_ok_def time_json_def)

lemma dec_int_exact: "in_int64 i \<Longrightarrow> dec_int (JNum (of_int i)) old = (i, False)"
  by (simp add: dec_int_def)

lemma all_ok_map: "(\<And>x. x \<in> set xs \<Longrightarrow> f x = Inr (g x)) \<Longrightarrow> all_ok (map f xs) = Inr (map g xs)"
  by (induction xs) simp_all

text \<open>Elements that encode and decode make a list that does.\<close>

lemma array_round_trip:
  assumes "\<And>x. x \<in> set xs \<Longrightarrow> \<exists>j. enc x = Inr j \<and> d j z = (c x, False)"
  shows "\<exists>js. array (map enc xs) = Inr (JArr js) \<and> dec_list d z (JArr js) old = (map c xs, False)"
proof -
  have "\<exists>g. \<forall>x \<in> set xs. enc x = Inr (g x) \<and> d (g x) z = (c x, False)" using assms by (intro bchoice) blast
  then obtain g where g: "\<And>x. x \<in> set xs \<Longrightarrow> enc x = Inr (g x) \<and> d (g x) z = (c x, False)" by blast
  have "array (map enc xs) = Inr (JArr (map g xs))" using all_ok_map [of xs enc g] g by (simp add: array_def)
  moreover have "dec_list d z (JArr (map g xs)) old = (map c xs, False)"
    using g by (simp add: dec_list_def list_ex_iff)
  ultimately show ?thesis by blast
qed

lemma process_find:
  "find_field process_fields ''pid'' = Some (lift_field pi_pid (\<lambda>x s. s\<lparr>pi_pid := x\<rparr>) dec_int)"
  "find_field process_fields ''name'' = Some (lift_field pi_name (\<lambda>x s. s\<lparr>pi_name := x\<rparr>) dec_string)"
  "find_field process_fields ''cpu_percent'' = Some (lift_field pi_cpu_percent (\<lambda>x s. s\<lparr>pi_cpu_percent := x\<rparr>) dec_float)"
  "find_field process_fields ''mem_mb'' = Some (lift_field pi_mem_mb (\<lambda>x s. s\<lparr>pi_mem_mb := x\<rparr>) dec_float)"
  by (simp_all add: find_field_def process_fields_def)

lemma service_find:
  "find_field service_fields ''kind'' = Some (lift_field ss_kind (\<lambda>x s. s\<lparr>ss_kind := x\<rparr>) dec_string)"
  "find_field service_fields ''name'' = Some (lift_field ss_name (\<lambda>x s. s\<lparr>ss_name := x\<rparr>) dec_string)"
  "find_field service_fields ''running'' = Some (lift_field ss_running (\<lambda>x s. s\<lparr>ss_running := x\<rparr>) dec_bool)"
  "find_field service_fields ''detail'' = Some (lift_field ss_detail (\<lambda>x s. s\<lparr>ss_detail := x\<rparr>) dec_string)"
  "find_field service_fields ''last_check'' = Some (lift_field ss_last_check (\<lambda>x s. s\<lparr>ss_last_check := x\<rparr>) dec_time)"
  by (simp_all add: find_field_def service_fields_def)

lemma process_round_trip:
  assumes "process_ok p"
  shows "\<exists>j. process_json p = Inr j \<and> dec_struct process_fields j zero_process = (clean_process p, False)"
proof -
  have e: "exact (pi_cpu_percent p)" "exact (pi_mem_mb p)" "in_int64 (pi_pid p)" using assms by (simp_all add: process_ok_def)
  obtain c m where cm: "pi_cpu_percent p = Fin c" "f64 c = Fin c" "pi_mem_mb p = Fin m" "f64 m = Fin m"
    using e(1,2) by (auto simp: exact_def)
  show ?thesis using e(3)
    by (cases p) (use cm in \<open>simp add: process_json_def object_def field_def enc_float_def process_find lift_field_def
      dec_int_exact zero_process_def clean_process_def\<close>)
qed

lemma service_round_trip:
  assumes "time_ok zone (ss_last_check v)"
  shows "\<exists>j. service_json zone v = Inr j \<and> dec_struct service_fields j zero_service = (clean_service v, False)"
proof -
  have t: "time_json (zone (ss_last_check v)) (ss_last_check v) = Inr (JStr (rfc3339_text (zone (ss_last_check v)) (ss_last_check v)))"
    using assms by (rule time_json_ok)
  have d: "dec_time (JStr (rfc3339_text (zone (ss_last_check v)) (ss_last_check v))) old = (ss_last_check v, False)" for old
    using dec_time_json [OF t] .
  show ?thesis
    by (cases v) (use t d in \<open>simp add: service_json_def object_def field_def service_find lift_field_def opt_field_def
      zero_service_def clean_service_def del: dec_time.simps\<close>)
qed

lemma processes_round_trip:
  "list_all process_ok ps \<Longrightarrow>
   \<exists>js. processes_json ps = Inr (JArr js) \<and> dec_processes (JArr js) old = (map clean_process ps, False)"
  unfolding processes_json_def dec_processes_def
  by (rule array_round_trip) (use process_round_trip in \<open>simp add: list_all_iff\<close>)

lemma services_round_trip:
  "list_all (\<lambda>v. time_ok zone (ss_last_check v)) vs \<Longrightarrow>
   \<exists>js. services_json zone vs = Inr (JArr js) \<and> dec_services (JArr js) old = (map clean_service vs, False)"
  unfolding services_json_def dec_services_def
  by (rule array_round_trip) (use service_round_trip in \<open>simp add: list_all_iff\<close>)

lemma sample_find:
  "find_field sample_fields ''cpu_percent'' = Some (lift_field cpu_percent (\<lambda>x s. s\<lparr>cpu_percent := x\<rparr>) dec_float)"
  "find_field sample_fields ''mem_used_mb'' = Some (lift_field mem_used_mb (\<lambda>x s. s\<lparr>mem_used_mb := x\<rparr>) dec_float)"
  "find_field sample_fields ''mem_total_mb'' = Some (lift_field mem_total_mb (\<lambda>x s. s\<lparr>mem_total_mb := x\<rparr>) dec_float)"
  "find_field sample_fields ''disk_used_gb'' = Some (lift_field disk_used_gb (\<lambda>x s. s\<lparr>disk_used_gb := x\<rparr>) dec_float)"
  "find_field sample_fields ''disk_total_gb'' = Some (lift_field disk_total_gb (\<lambda>x s. s\<lparr>disk_total_gb := x\<rparr>) dec_float)"
  "find_field sample_fields ''load_avg_1'' = Some (lift_field load_avg_1 (\<lambda>x s. s\<lparr>load_avg_1 := x\<rparr>) dec_float)"
  "find_field sample_fields ''load_avg_5'' = Some (lift_field load_avg_5 (\<lambda>x s. s\<lparr>load_avg_5 := x\<rparr>) dec_float)"
  "find_field sample_fields ''load_avg_15'' = Some (lift_field load_avg_15 (\<lambda>x s. s\<lparr>load_avg_15 := x\<rparr>) dec_float)"
  "find_field sample_fields ''uptime_seconds'' = Some (lift_field uptime_seconds (\<lambda>x s. s\<lparr>uptime_seconds := x\<rparr>) dec_int)"
  "find_field sample_fields ''net_rx_bytes_per_sec'' = Some (lift_field net_rx_bytes_per_sec (\<lambda>x s. s\<lparr>net_rx_bytes_per_sec := x\<rparr>) dec_float)"
  "find_field sample_fields ''net_tx_bytes_per_sec'' = Some (lift_field net_tx_bytes_per_sec (\<lambda>x s. s\<lparr>net_tx_bytes_per_sec := x\<rparr>) dec_float)"
  "find_field sample_fields ''top_processes'' = Some (lift_field top_processes (\<lambda>x s. s\<lparr>top_processes := x\<rparr>) dec_processes)"
  "find_field sample_fields ''services'' = Some (lift_field services (\<lambda>x s. s\<lparr>services := x\<rparr>) dec_services)"
  "find_field sample_fields ''timestamp'' = Some (lift_field timestamp (\<lambda>x s. s\<lparr>timestamp := x\<rparr>) dec_time)"
  by (simp_all add: find_field_def sample_fields_def)

text \<open>One field at a time: the value written is read into its place.\<close>

lemma dec_pairs_field:
  assumes "find_field fs k = Some d" "d v s = (s1, False)" "dec_pairs fs kvs s1 = (s2, False)"
  shows "dec_pairs fs ((k, v) # kvs) s = (s2, False)"
  using assms by simp

lemma lift_field_ok: "d v (get s) = (x, False) \<Longrightarrow> lift_field get put d v s = (put x s, False)"
  by (simp add: lift_field_def)

text \<open>A well-formed sample is always encoded, and decoded into a fresh one it is the same again, to the
  nanosecond; only strings that were not valid UTF-8 differ, by their replacement characters.\<close>

lemma sample_round_trip:
  assumes "sample_ok zone s"
  shows "\<exists>j. sample_json zone s = Inr j \<and> dec_sample j zero_sample = (clean_sample s, False)"
proof -
  have fin: "\<exists>r. x = Fin r \<and> f64 r = Fin r"
    if "x \<in> set [cpu_percent s, mem_used_mb s, mem_total_mb s, disk_used_gb s, disk_total_gb s, load_avg_1 s,
       load_avg_5 s, load_avg_15 s, net_rx_bytes_per_sec s, net_tx_bytes_per_sec s]" for x
    using assms that unfolding sample_ok_def list_all_iff exact_def by blast
  obtain r1 r2 r3 r4 r5 r6 r7 r8 r9 r10 where
    r: "cpu_percent s = Fin r1" "mem_used_mb s = Fin r2" "mem_total_mb s = Fin r3" "disk_used_gb s = Fin r4"
    "disk_total_gb s = Fin r5" "load_avg_1 s = Fin r6" "load_avg_5 s = Fin r7" "load_avg_15 s = Fin r8"
    "net_rx_bytes_per_sec s = Fin r9" "net_tx_bytes_per_sec s = Fin r10"
    and f: "f64 r1 = Fin r1" "f64 r2 = Fin r2" "f64 r3 = Fin r3" "f64 r4 = Fin r4" "f64 r5 = Fin r5"
    "f64 r6 = Fin r6" "f64 r7 = Fin r7" "f64 r8 = Fin r8" "f64 r9 = Fin r9" "f64 r10 = Fin r10"
    using fin [of "cpu_percent s"] fin [of "mem_used_mb s"] fin [of "mem_total_mb s"] fin [of "disk_used_gb s"]
      fin [of "disk_total_gb s"] fin [of "load_avg_1 s"] fin [of "load_avg_5 s"] fin [of "load_avg_15 s"]
      fin [of "net_rx_bytes_per_sec s"] fin [of "net_tx_bytes_per_sec s"] by auto
  obtain ps where ps: "processes_json (top_processes s) = Inr (JArr ps)"
    "dec_processes (JArr ps) [] = (map clean_process (top_processes s), False)"
    using processes_round_trip [of "top_processes s" "[]"] assms by (auto simp: sample_ok_def)
  obtain vs where vs: "services_json zone (services s) = Inr (JArr vs)"
    "dec_services (JArr vs) [] = (map clean_service (services s), False)"
    using services_round_trip [of zone "services s" "[]"] assms by (auto simp: sample_ok_def)
  define tj where "tj = JStr (rfc3339_text 0 (timestamp s))"
  have tj: "time_json 0 (timestamp s) = Inr tj"
    using time_json_ok [of "\<lambda>_. 0" "timestamp s"] assms by (simp add: sample_ok_def tj_def)
  note td = dec_time_json [OF tj]
  have u: "dec_int (JNum (of_int (uptime_seconds s))) old = (uptime_seconds s, False)" for old
    using assms by (simp add: sample_ok_def dec_int_exact)
  show ?thesis
    by (cases s, cases "top_processes s = []"; cases "services s = []")
      (use r f ps vs tj td u in \<open>simp add: sample_json_def object_def field_def omit_empty_def enc_float_def dec_sample_def
        sample_find lift_field_def zero_sample_def clean_sample_def\<close>)+
qed

lemma exact_Fin [simp]: "exact (Fin r) \<longleftrightarrow> f64 r = Fin r"
  by (simp add: exact_def)

end
