(* ===== verification/Store_Sqlite.thy ===== *)
theory Store_Sqlite
  imports Sample_Json Store_Memory "HOL-Library.Multiset"
begin

text \<open>
  internal/store/sqlite.go: the durable store of the release build. The SQL engine behind database/sql is
  not part of the repository: it is the record \<open>sql_driver\<close> of functions on a database state \<open>'d\<close>, given
  the statement and its arguments, and \<open>sqlite_semantics\<close> states what SQL documents of them. The store's
  own work is translated: the row made of a sample (whole seconds, two JSON columns), its reading back,
  every error text, retention. A cell of JSON text is the tree it denotes, \<open>None\<close> when it is not JSON.
\<close>

subsection \<open>The database\<close>

record sample_row =
  sr_timestamp :: int64
  sr_tier :: string
  sr_cpu_percent :: float64
  sr_mem_used_mb :: float64
  sr_mem_total_mb :: float64
  sr_disk_used_gb :: float64
  sr_disk_total_gb :: float64
  sr_load_avg_1 :: float64
  sr_load_avg_5 :: float64
  sr_load_avg_15 :: float64
  sr_uptime_seconds :: int64
  sr_net_rx :: float64
  sr_net_tx :: float64
  sr_top_processes_json :: "json option"
  sr_services_json :: "json option"

datatype sql_statement = CreateSchema | InsertSample sample_row | DeleteBefore int64
datatype sql_query = SelectBetween int64 int64 | SelectLatest

text \<open>
  \<open>dv_select\<close> gives an error of the query itself, or the rows with, for each, the outcome of scanning it
  into the variables, and the error \<open>rows.Err\<close> reports at the end.
\<close>

record 'd sql_driver =
  dv_open :: "string \<Rightarrow> 'd \<Rightarrow> 'd \<times> string option"
  dv_max_conns :: "nat \<Rightarrow> 'd \<Rightarrow> 'd"
  dv_exec :: "sql_statement \<Rightarrow> 'd \<Rightarrow> 'd \<times> string option"
  dv_select :: "sql_query \<Rightarrow> 'd \<Rightarrow> (sample_row result list \<times> string option) result"
  dv_close :: "'d \<Rightarrow> 'd \<times> string option"

subsection \<open>The store\<close>

text \<open>\<open>None\<close> is the nil error.\<close>

definition open_sqlite_store :: "'d sql_driver \<Rightarrow> string \<Rightarrow> 'd \<Rightarrow> 'd \<times> string option" where
  "open_sqlite_store drv path d =
     (case dv_open drv path d of
        (d1, Some e) \<Rightarrow> (d1, Some (''sqlite: opening '' @ quote path @ '': '' @ e))
      | (d1, None) \<Rightarrow>
          (case dv_exec drv CreateSchema (dv_max_conns drv 1 d1) of
             (d2, Some e) \<Rightarrow> (fst (dv_close drv d2), Some (''sqlite: applying schema: '' @ e))
           | (d2, None) \<Rightarrow> (d2, None)))"

text \<open>\<open>newStore\<close> of store_sqlite.go, given the configured database path.\<close>

definition new_store_sqlite :: "'d sql_driver \<Rightarrow> string \<Rightarrow> 'd \<Rightarrow> 'd \<times> string option" where
  "new_store_sqlite drv db_path d = open_sqlite_store drv db_path d"

definition row_of_sample :: "sample \<Rightarrow> json \<Rightarrow> json \<Rightarrow> sample_row" where
  "row_of_sample s top_json svc_json =
     \<lparr>sr_timestamp = time_unix (timestamp s), sr_tier = ''raw'', sr_cpu_percent = cpu_percent s,
      sr_mem_used_mb = mem_used_mb s, sr_mem_total_mb = mem_total_mb s, sr_disk_used_gb = disk_used_gb s,
      sr_disk_total_gb = disk_total_gb s, sr_load_avg_1 = load_avg_1 s, sr_load_avg_5 = load_avg_5 s,
      sr_load_avg_15 = load_avg_15 s, sr_uptime_seconds = uptime_seconds s,
      sr_net_rx = net_rx_bytes_per_sec s, sr_net_tx = net_tx_bytes_per_sec s,
      sr_top_processes_json = Some top_json, sr_services_json = Some svc_json\<rparr>"

definition sqlite_save :: "'d sql_driver \<Rightarrow> (time \<Rightarrow> int) \<Rightarrow> sample \<Rightarrow> 'd \<Rightarrow> 'd \<times> string option" where
  "sqlite_save drv zone s d =
     (case processes_json (top_processes s) of
        Inl e \<Rightarrow> (d, Some (''sqlite: marshaling top processes: '' @ e))
      | Inr tj \<Rightarrow>
          (case services_json zone (services s) of
             Inl e \<Rightarrow> (d, Some (''sqlite: marshaling services: '' @ e))
           | Inr sj \<Rightarrow>
               (case dv_exec drv (InsertSample (row_of_sample s tj sj)) d of
                  (d', Some e) \<Rightarrow> (d', Some (''sqlite: inserting sample: '' @ e))
                | (d', None) \<Rightarrow> (d', None))))"

text \<open>\<open>_ = json.Unmarshal(...)\<close>: whatever could be decoded stays, the error is dropped.\<close>

definition unmarshal_column :: "'a decoder \<Rightarrow> 'a \<Rightarrow> json option \<Rightarrow> 'a" where
  "unmarshal_column dec old col = (case col of None \<Rightarrow> old | Some j \<Rightarrow> fst (dec j old))"

definition sample_of_row :: "sample_row \<Rightarrow> sample" where
  "sample_of_row r =
     \<lparr>timestamp = unix_time (sr_timestamp r), cpu_percent = sr_cpu_percent r, mem_used_mb = sr_mem_used_mb r,
      mem_total_mb = sr_mem_total_mb r, disk_used_gb = sr_disk_used_gb r, disk_total_gb = sr_disk_total_gb r,
      load_avg_1 = sr_load_avg_1 r, load_avg_5 = sr_load_avg_5 r, load_avg_15 = sr_load_avg_15 r,
      uptime_seconds = sr_uptime_seconds r, net_rx_bytes_per_sec = sr_net_rx r, net_tx_bytes_per_sec = sr_net_tx r,
      top_processes = unmarshal_column dec_processes [] (sr_top_processes_json r),
      services = unmarshal_column dec_services [] (sr_services_json r)\<rparr>"

text \<open>The loop over \<open>rows.Next\<close>.\<close>

fun scan_rows :: "sample_row result list \<Rightarrow> string option \<Rightarrow> sample list \<Rightarrow> sample list result" where
  "scan_rows [] None acc = Inr acc"
| "scan_rows [] (Some e) acc = Inl (''sqlite: iterating rows: '' @ e)"
| "scan_rows (Inl e # rs) err acc = Inl (''sqlite: scanning row: '' @ e)"
| "scan_rows (Inr r # rs) err acc = scan_rows rs err (acc @ [sample_of_row r])"

definition sqlite_query :: "'d sql_driver \<Rightarrow> time \<Rightarrow> time \<Rightarrow> 'd \<Rightarrow> sample list result" where
  "sqlite_query drv from_t to_t d =
     (case dv_select drv (SelectBetween (time_unix from_t) (time_unix to_t)) d of
        Inl e \<Rightarrow> Inl (''sqlite: querying range: '' @ e)
      | Inr (rows, err) \<Rightarrow> scan_rows rows err [])"

text \<open>\<open>QueryRow(...).Scan\<close> of database/sql: \<open>Inr None\<close> is \<open>sql.ErrNoRows\<close>.\<close>

definition scan_first :: "(sample_row result list \<times> string option) result \<Rightarrow> sample_row option result" where
  "scan_first q =
     (case q of
        Inl e \<Rightarrow> Inl e
      | Inr ([], Some e) \<Rightarrow> Inl e
      | Inr ([], None) \<Rightarrow> Inr None
      | Inr (Inl e # _, _) \<Rightarrow> Inl e
      | Inr (Inr r # _, _) \<Rightarrow> Inr (Some r))"

definition sqlite_latest :: "'d sql_driver \<Rightarrow> 'd \<Rightarrow> store_error + sample" where
  "sqlite_latest drv d =
     (case scan_first (dv_select drv SelectLatest d) of
        Inl e \<Rightarrow> Inl (StoreError (''sqlite: querying latest: '' @ e))
      | Inr None \<Rightarrow> Inl ErrNoSamples
      | Inr (Some r) \<Rightarrow> Inr (sample_of_row r))"

definition retention_cutoff :: "time \<Rightarrow> retention_policy \<Rightarrow> int64" where
  "retention_cutoff now p = time_unix (time_add now (wrap_int64 (- rp_hourly p)))"

definition sqlite_apply_retention :: "'d sql_driver \<Rightarrow> time \<Rightarrow> retention_policy \<Rightarrow> 'd \<Rightarrow> 'd \<times> string option" where
  "sqlite_apply_retention drv now p d =
     (case dv_exec drv (DeleteBefore (retention_cutoff now p)) d of
        (d', Some e) \<Rightarrow> (d', Some (''sqlite: pruning expired samples: '' @ e))
      | (d', None) \<Rightarrow> (d', None))"

definition sqlite_close :: "'d sql_driver \<Rightarrow> 'd \<Rightarrow> 'd \<times> string option" where
  "sqlite_close drv d = dv_close drv d"

subsection \<open>What SQL documents\<close>

text \<open>A statement that succeeds has its effect on the table, one that fails has none.\<close>

definition takes_effect :: "('d \<Rightarrow> sample_row list) \<Rightarrow> (sample_row list \<Rightarrow> sample_row list) \<Rightarrow> 'd \<Rightarrow> 'd \<times> string option \<Rightarrow> bool" where
  "takes_effect tbl f d r \<longleftrightarrow> tbl (fst r) = (if snd r = None then f (tbl d) else tbl d)"

text \<open>
  \<open>tbl\<close> reads the table off the database state, in the order of insertion. Rows with equal timestamps come
  in any order, and \<open>LIMIT 1\<close> may pick any of several with the greatest one.
\<close>

definition sqlite_semantics :: "'d sql_driver \<Rightarrow> ('d \<Rightarrow> sample_row list) \<Rightarrow> bool" where
  "sqlite_semantics drv tbl \<longleftrightarrow>
     (\<forall>path d. takes_effect tbl (\<lambda>t. t) d (dv_open drv path d)) \<and>
     (\<forall>n d. tbl (dv_max_conns drv n d) = tbl d) \<and>
     (\<forall>d. takes_effect tbl (\<lambda>t. t) d (dv_close drv d)) \<and>
     (\<forall>d. takes_effect tbl (\<lambda>t. t) d (dv_exec drv CreateSchema d)) \<and>
     (\<forall>r d. takes_effect tbl (\<lambda>t. t @ [r]) d (dv_exec drv (InsertSample r) d)) \<and>
     (\<forall>c d. takes_effect tbl (filter (\<lambda>r. c \<le> sr_timestamp r)) d (dv_exec drv (DeleteBefore c) d)) \<and>
     (\<forall>lo hi d rows. dv_select drv (SelectBetween lo hi) d = Inr (rows, None) \<longrightarrow>
        (\<exists>rs. rows = map Inr rs \<and> sorted (map sr_timestamp rs) \<and>
           mset rs = mset (filter (\<lambda>r. lo \<le> sr_timestamp r \<and> sr_timestamp r \<le> hi) (tbl d)))) \<and>
     (\<forall>d rows. dv_select drv SelectLatest d = Inr (rows, None) \<longrightarrow>
        (if tbl d = [] then rows = []
         else \<exists>r \<in> set (tbl d). rows = [Inr r] \<and> (\<forall>r' \<in> set (tbl d). sr_timestamp r' \<le> sr_timestamp r)))"

lemma semantics_exec:
  assumes "sqlite_semantics drv tbl"
  shows "tbl (fst (dv_open drv path d)) = tbl d" "tbl (dv_max_conns drv n d) = tbl d" "tbl (fst (dv_close drv d)) = tbl d"
    "tbl (fst (dv_exec drv CreateSchema d)) = tbl d"
    "tbl (fst (dv_exec drv (InsertSample r) d)) = (if snd (dv_exec drv (InsertSample r) d) = None then tbl d @ [r] else tbl d)"
    "tbl (fst (dv_exec drv (DeleteBefore c) d)) =
      (if snd (dv_exec drv (DeleteBefore c) d) = None then filter (\<lambda>r. c \<le> sr_timestamp r) (tbl d) else tbl d)"
proof -
  have e: "takes_effect tbl (\<lambda>t. t) d (dv_open drv path d)" "takes_effect tbl (\<lambda>t. t) d (dv_close drv d)"
    "takes_effect tbl (\<lambda>t. t) d (dv_exec drv CreateSchema d)"
    "takes_effect tbl (\<lambda>t. t @ [r]) d (dv_exec drv (InsertSample r) d)"
    "takes_effect tbl (filter (\<lambda>r. c \<le> sr_timestamp r)) d (dv_exec drv (DeleteBefore c) d)"
    "tbl (dv_max_conns drv n d) = tbl d"
    using assms unfolding sqlite_semantics_def by (elim conjE; simp)+
  then show "tbl (fst (dv_open drv path d)) = tbl d" "tbl (dv_max_conns drv n d) = tbl d" "tbl (fst (dv_close drv d)) = tbl d"
    "tbl (fst (dv_exec drv CreateSchema d)) = tbl d"
    "tbl (fst (dv_exec drv (InsertSample r) d)) = (if snd (dv_exec drv (InsertSample r) d) = None then tbl d @ [r] else tbl d)"
    "tbl (fst (dv_exec drv (DeleteBefore c) d)) =
      (if snd (dv_exec drv (DeleteBefore c) d) = None then filter (\<lambda>r. c \<le> sr_timestamp r) (tbl d) else tbl d)"
    unfolding takes_effect_def by simp_all
qed

subsection \<open>Runs of the store, and what it promises\<close>

datatype store_op = OpSave sample | OpRetain time retention_policy | OpRestart string

fun sqlite_step :: "'d sql_driver \<Rightarrow> (time \<Rightarrow> int) \<Rightarrow> store_op \<Rightarrow> 'd \<Rightarrow> 'd \<times> string option" where
  "sqlite_step drv zone (OpSave s) d = sqlite_save drv zone s d"
| "sqlite_step drv zone (OpRetain now p) d = sqlite_apply_retention drv now p d"
| "sqlite_step drv zone (OpRestart path) d = new_store_sqlite drv path (fst (sqlite_close drv d))"

text \<open>The state after the operations, and those of them that returned no error.\<close>

fun sqlite_run :: "'d sql_driver \<Rightarrow> (time \<Rightarrow> int) \<Rightarrow> store_op list \<Rightarrow> 'd \<Rightarrow> 'd \<times> store_op list" where
  "sqlite_run drv zone [] d = (d, [])"
| "sqlite_run drv zone (op # ops) d =
     (let (d1, e) = sqlite_step drv zone op d; (d2, oks) = sqlite_run drv zone ops d1
      in (d2, if e = None then op # oks else oks))"

text \<open>The abstract store: a list of samples, their times in whole seconds.\<close>

definition whole_second :: "time \<Rightarrow> time" where
  "whole_second t = t div second * second"

definition stored_form :: "sample \<Rightarrow> sample" where
  "stored_form s = (clean_sample s)\<lparr>timestamp := whole_second (timestamp s)\<rparr>"

fun history_step :: "store_op \<Rightarrow> sample list \<Rightarrow> sample list" where
  "history_step (OpSave s) h = h @ [stored_form s]"
| "history_step (OpRetain now p) h = filter (\<lambda>s. whole_second (now - rp_hourly p) \<le> timestamp s) h"
| "history_step (OpRestart path) h = h"

definition history :: "store_op list \<Rightarrow> sample list" where
  "history ops = fold history_step ops []"

text \<open>Values of the Go types: instants whose seconds fit, representable floats, 64-bit integers.\<close>

definition go_time :: "time \<Rightarrow> bool" where
  "go_time t \<longleftrightarrow> in_int64 (t div second) \<and> in_int64 (t div second - unix_to_internal)"

definition representable :: "float64 \<Rightarrow> bool" where
  "representable x \<longleftrightarrow> (case x of Fin r \<Rightarrow> f64 r = Fin r | _ \<Rightarrow> True)"

definition go_sample :: "sample \<Rightarrow> bool" where
  "go_sample s \<longleftrightarrow> go_time (timestamp s) \<and> list_all (\<lambda>p. in_int64 (pi_pid p) \<and> representable (pi_cpu_percent p) \<and>
     representable (pi_mem_mb p)) (top_processes s)"

fun go_op :: "store_op \<Rightarrow> bool" where
  "go_op (OpSave s) = go_sample s"
| "go_op (OpRetain now p) = (0 \<le> rp_hourly p \<and> in_int64 (rp_hourly p) \<and> go_time (now - rp_hourly p))"
| "go_op (OpRestart path) = True"

subsection \<open>The rows hold the history\<close>

lemma time_unix_exact: "go_time t \<Longrightarrow> time_unix t = t div second - unix_to_internal"
  by (simp add: go_time_def time_unix_def)

lemma unix_time_whole: "go_time t \<Longrightarrow> unix_time (time_unix t) = whole_second t"
  by (simp add: time_unix_exact) (simp add: go_time_def unix_time_def whole_second_def)

lemma all_ok_Inr: "all_ok rs = Inr xs \<Longrightarrow> r \<in> set rs \<Longrightarrow> \<exists>x. r = Inr x"
  by (induction rs arbitrary: xs) (auto split: sum.splits)

lemma array_Inr: "array rs = Inr j \<Longrightarrow> r \<in> set rs \<Longrightarrow> \<exists>x. r = Inr x"
  unfolding array_def by (cases "all_ok rs") (auto dest: all_ok_Inr)

lemma object_Inr: "object rs = Inr j \<Longrightarrow> r \<in> set rs \<Longrightarrow> \<exists>x. r = Inr x"
  unfolding object_def by (cases "all_ok rs") (auto dest: all_ok_Inr)

lemma field_Inr: "field k r = Inr x \<Longrightarrow> \<exists>y. r = Inr y"
  by (cases r) (simp_all add: field_def)

lemma enc_float_Inr: "enc_float x = Inr j \<Longrightarrow> representable x \<Longrightarrow> exact x"
  by (cases x) (simp_all add: enc_float_def representable_def)

text \<open>What encodes is well formed.\<close>

lemma processes_json_ok:
  assumes "processes_json ps = Inr j"
    "list_all (\<lambda>p. in_int64 (pi_pid p) \<and> representable (pi_cpu_percent p) \<and> representable (pi_mem_mb p)) ps"
  shows "list_all process_ok ps"
proof -
  have "process_ok p" if p: "p \<in> set ps" for p
  proof -
    obtain j' where j': "process_json p = Inr j'" using array_Inr assms(1) p unfolding processes_json_def by force
    have "\<exists>y. enc_float (pi_cpu_percent p) = Inr y" "\<exists>y. enc_float (pi_mem_mb p) = Inr y"
      using object_Inr [OF j' [unfolded process_json_def]] field_Inr by (metis list.set_intros)+
    then show ?thesis using assms(2) p enc_float_Inr by (auto simp: process_ok_def list_all_iff)
  qed
  then show ?thesis by (simp add: list_all_iff)
qed

lemma services_json_ok:
  assumes "services_json zone vs = Inr j"
  shows "list_all (\<lambda>v. time_ok zone (ss_last_check v)) vs"
proof -
  have "time_ok zone (ss_last_check v)" if v: "v \<in> set vs" for v
  proof -
    obtain j' where j': "service_json zone v = Inr j'" using array_Inr assms v unfolding services_json_def by force
    have "\<exists>x. field ''last_check'' (time_json (zone (ss_last_check v)) (ss_last_check v)) = Inr x"
      by (rule object_Inr [OF j' [unfolded service_json_def]]) simp
    then obtain y where "time_json (zone (ss_last_check v)) (ss_last_check v) = Inr y" using field_Inr by blast
    then show ?thesis by (auto simp: time_json_def time_ok_def split: if_splits)
  qed
  then show ?thesis by (simp add: list_all_iff)
qed

text \<open>A sample that was saved comes back in its stored form.\<close>

lemma sample_of_saved_row:
  assumes "go_sample s" "processes_json (top_processes s) = Inr tj" "services_json zone (services s) = Inr sj"
  shows "sample_of_row (row_of_sample s tj sj) = stored_form s"
proof -
  have "\<exists>js. processes_json (top_processes s) = Inr (JArr js) \<and> dec_processes (JArr js) [] = (map clean_process (top_processes s), False)"
    by (rule processes_round_trip, rule processes_json_ok [OF assms(2)]) (use assms(1) in \<open>simp add: go_sample_def\<close>)
  then have t: "dec_processes tj [] = (map clean_process (top_processes s), False)" using assms(2) by auto
  have "\<exists>js. services_json zone (services s) = Inr (JArr js) \<and> dec_services (JArr js) [] = (map clean_service (services s), False)"
    by (rule services_round_trip, rule services_json_ok [OF assms(3)])
  then have v: "dec_services sj [] = (map clean_service (services s), False)" using assms(3) by auto
  have "unix_time (time_unix (timestamp s)) = whole_second (timestamp s)" using assms(1) by (simp add: go_sample_def unix_time_whole)
  then show ?thesis
    by (cases s) (use t v in \<open>simp add: sample_of_row_def row_of_sample_def unmarshal_column_def stored_form_def clean_sample_def\<close>)
qed

definition row_ok :: "sample_row \<Rightarrow> bool" where
  "row_ok r \<longleftrightarrow> in_int64 (sr_timestamp r) \<and> in_int64 (sr_timestamp r + unix_to_internal)"

lemma row_timestamp: "row_ok r \<Longrightarrow> timestamp (sample_of_row r) = (sr_timestamp r + unix_to_internal) * second"
  by (simp add: row_ok_def sample_of_row_def unix_time_exact)

lemma row_of_sample_ok: "go_time (timestamp s) \<Longrightarrow> row_ok (row_of_sample s tj sj)"
  unfolding row_ok_def by (simp add: row_of_sample_def time_unix_exact) (simp add: go_time_def)

text \<open>Comparing seconds in the table is comparing whole seconds of times.\<close>

lemma row_not_before: "row_ok r \<Longrightarrow> go_time t \<Longrightarrow> time_unix t \<le> sr_timestamp r \<longleftrightarrow> whole_second t \<le> timestamp (sample_of_row r)"
  by (simp add: row_timestamp time_unix_exact whole_second_def) linarith

lemma row_not_after: "row_ok r \<Longrightarrow> go_time t \<Longrightarrow> sr_timestamp r \<le> time_unix t \<longleftrightarrow> timestamp (sample_of_row r) \<le> t"
  by (simp add: row_timestamp time_unix_exact) linarith

definition table_shows :: "sample_row list \<Rightarrow> sample list \<Rightarrow> bool" where
  "table_shows rs h \<longleftrightarrow> list_all row_ok rs \<and> map sample_of_row rs = h"

lemma retention_cutoff_exact:
  "go_op (OpRetain now p) \<Longrightarrow> retention_cutoff now p = time_unix (now - rp_hourly p)"
  by (simp add: retention_cutoff_def time_add_def in_int64_iff)

lemma filter_shown:
  assumes "table_shows rs h" "\<And>r. row_ok r \<Longrightarrow> P r \<longleftrightarrow> Q (sample_of_row r)"
  shows "table_shows (filter P rs) (filter Q h)"
proof -
  have rs: "\<forall>r \<in> set rs. row_ok r" "map sample_of_row rs = h" using assms(1) by (simp_all add: table_shows_def list_all_iff)
  have "filter P rs = filter (Q \<circ> sample_of_row) rs" using rs(1) assms(2) by (simp cong: filter_cong)
  then have "filter Q (map sample_of_row rs) = map sample_of_row (filter P rs)" by (simp add: filter_map)
  then show ?thesis using rs by (simp add: table_shows_def list_all_iff)
qed

lemma sqlite_step_refines:
  assumes sem: "sqlite_semantics drv tbl" and op: "go_op op" and shows_h: "table_shows (tbl d) h"
    and step: "sqlite_step drv zone op d = (d', e)"
  shows "table_shows (tbl d') (if e = None then history_step op h else h)"
proof (cases op)
  case (OpSave s)
  show ?thesis
  proof (cases "processes_json (top_processes s)")
    case (Inl m)
    then show ?thesis using step shows_h by (auto simp: OpSave sqlite_save_def)
  next
    case tj: (Inr tj)
    show ?thesis
    proof (cases "services_json zone (services s)")
      case (Inl m)
      then show ?thesis using step shows_h tj by (auto simp: OpSave sqlite_save_def)
    next
      case sj: (Inr sj)
      define r where "r = row_of_sample s tj sj"
      have s: "go_sample s" using op by (simp add: OpSave)
      have r: "row_ok r" "sample_of_row r = stored_form s"
        using s sample_of_saved_row [OF s tj sj] by (simp_all add: r_def row_of_sample_ok go_sample_def)
      have "d' = fst (dv_exec drv (InsertSample r) d)" "e = None \<longleftrightarrow> snd (dv_exec drv (InsertSample r) d) = None"
        using step by (auto simp: OpSave sqlite_save_def tj sj r_def split: prod.splits option.splits)
      then have "tbl d' = (if e = None then tbl d @ [r] else tbl d)" using semantics_exec(5) [OF sem] by simp
      then show ?thesis using r shows_h by (simp add: OpSave table_shows_def)
    qed
  qed
next
  case (OpRetain now p)
  let ?x = "dv_exec drv (DeleteBefore (retention_cutoff now p)) d"
  have "d' = fst ?x" "e = None \<longleftrightarrow> snd ?x = None"
    using step by (auto simp: OpRetain sqlite_apply_retention_def split: prod.splits option.splits)
  then have t: "tbl d' = (if e = None then filter (\<lambda>r. retention_cutoff now p \<le> sr_timestamp r) (tbl d) else tbl d)"
    using semantics_exec(6) [OF sem] by simp
  have "table_shows (filter (\<lambda>r. retention_cutoff now p \<le> sr_timestamp r) (tbl d))
      (filter (\<lambda>s. whole_second (now - rp_hourly p) \<le> timestamp s) h)"
    by (rule filter_shown [OF shows_h]) (use op retention_cutoff_exact in \<open>simp add: OpRetain row_not_before\<close>)
  then show ?thesis using t shows_h by (simp add: OpRetain)
next
  case (OpRestart path)
  have "tbl d' = tbl d"
    using step semantics_exec [OF sem]
    by (auto simp: OpRestart new_store_sqlite_def open_sqlite_store_def sqlite_close_def split: prod.splits option.splits)
      (metis fst_conv semantics_exec(1-4) [OF sem])+
  then show ?thesis using shows_h by (simp add: OpRestart)
qed

lemma sqlite_run_refines:
  assumes "sqlite_semantics drv tbl"
  shows "\<forall>op \<in> set ops. go_op op \<Longrightarrow> table_shows (tbl d) h \<Longrightarrow> sqlite_run drv zone ops d = (d', oks) \<Longrightarrow>
    table_shows (tbl d') (fold history_step oks h)"
proof (induction ops arbitrary: d h oks)
  case (Cons op ops)
  obtain d1 e where s: "sqlite_step drv zone op d = (d1, e)" by (rule prod.exhaust)
  obtain d2 oks1 where r: "sqlite_run drv zone ops d1 = (d2, oks1)" by (rule prod.exhaust)
  have "d2 = d'" "oks = (if e = None then op # oks1 else oks1)" using Cons.prems(3) s r by simp_all
  moreover have "table_shows (tbl d1) (if e = None then history_step op h else h)"
    by (rule sqlite_step_refines [OF assms _ Cons.prems(2) s]) (use Cons.prems(1) in simp)
  then have "table_shows (tbl d') (fold history_step oks1 (if e = None then history_step op h else h))"
    using Cons.IH [OF _ _ r [unfolded \<open>d2 = d'\<close>]] Cons.prems(1) by simp
  ultimately show ?case by (cases e) simp_all
qed simp

subsection \<open>Answers\<close>

lemma scan_rows_ok: "scan_rows (map Inr rs) None acc = Inr (acc @ map sample_of_row rs)"
  by (induction rs arbitrary: acc) simp_all

definition answers :: "(sample_row result list \<times> string option) result \<Rightarrow> bool" where
  "answers q \<longleftrightarrow> (\<exists>rows. q = Inr (rows, None))"

lemma scan_rows_fails: "\<exists>e. scan_rows rows (Some m) acc = Inl e"
  by (induction rows "Some m" acc rule: scan_rows.induct) auto

lemma sorted_unique:
  assumes "sorted (map k xs)" "sorted_wrt (<) (map k ys)" "mset xs = mset ys"
  shows "xs = ys"
proof -
  have d: "distinct (map k ys)" "sorted (map k ys)" using assms(2) by (simp_all add: strict_sorted_iff)
  have "inj_on k (set xs)" using d(1) mset_eq_setD [OF assms(3)] by (simp add: distinct_map)
  then have "sort_key k xs = ys" "sort_key k xs = xs"
    using sort_key_inj_key_eq [OF assms(3) _ d(2)] sort_key_inj_key_eq [OF refl _ assms(1)] by blast+
  then show ?thesis by simp
qed

lemma semantics_between:
  assumes "sqlite_semantics drv tbl" "answers (dv_select drv (SelectBetween lo hi) d)"
  shows "\<exists>rs. dv_select drv (SelectBetween lo hi) d = Inr (map Inr rs, None) \<and> sorted (map sr_timestamp rs) \<and>
    mset rs = mset (filter (\<lambda>r. lo \<le> sr_timestamp r \<and> sr_timestamp r \<le> hi) (tbl d))"
proof -
  obtain rows where rows: "dv_select drv (SelectBetween lo hi) d = Inr (rows, None)" using assms(2) by (auto simp: answers_def)
  have "\<forall>lo hi d rows. dv_select drv (SelectBetween lo hi) d = Inr (rows, None) \<longrightarrow>
        (\<exists>rs. rows = map Inr rs \<and> sorted (map sr_timestamp rs) \<and>
           mset rs = mset (filter (\<lambda>r. lo \<le> sr_timestamp r \<and> sr_timestamp r \<le> hi) (tbl d)))"
    using assms(1) unfolding sqlite_semantics_def by (elim conjE)
  then obtain rs where "rows = map Inr rs" "sorted (map sr_timestamp rs)"
    "mset rs = mset (filter (\<lambda>r. lo \<le> sr_timestamp r \<and> sr_timestamp r \<le> hi) (tbl d))" using rows by blast
  then show ?thesis using rows by blast
qed

lemma sqlite_query_shown:
  assumes "sqlite_semantics drv tbl" "table_shows (tbl d) h" "go_time f" "go_time t"
    "answers (dv_select drv (SelectBetween (time_unix f) (time_unix t)) d)"
  shows "\<exists>xs. sqlite_query drv f t d = Inr xs \<and> chronological xs \<and>
    mset xs = mset (filter (in_range (whole_second f) t) h)"
proof -
  let ?P = "\<lambda>r. time_unix f \<le> sr_timestamp r \<and> sr_timestamp r \<le> time_unix t"
  obtain rs where rs: "dv_select drv (SelectBetween (time_unix f) (time_unix t)) d = Inr (map Inr rs, None)"
    "sorted (map sr_timestamp rs)" "mset rs = mset (filter ?P (tbl d))"
    using semantics_between [OF assms(1,5)] by blast
  have q: "sqlite_query drv f t d = Inr (map sample_of_row rs)" using rs(1) by (simp add: sqlite_query_def scan_rows_ok)
  have ok: "\<forall>r \<in> set rs. row_ok r" using mset_eq_setD [OF rs(3)] assms(2) by (auto simp: table_shows_def list_all_iff)
  have "sorted (map (\<lambda>r. (sr_timestamp r + unix_to_internal) * second) rs)"
    using rs(2) by (simp add: sorted_map sorted_wrt_map)
  then have "sorted (map (timestamp \<circ> sample_of_row) rs)" using ok row_timestamp by (simp cong: map_cong)
  then have c: "chronological (map sample_of_row rs)" by (simp add: chronological_def)
  have "table_shows (filter ?P (tbl d)) (filter (in_range (whole_second f) t) h)"
    by (rule filter_shown [OF assms(2)]) (use assms(3,4) in \<open>simp add: in_range_def row_not_before row_not_after\<close>)
  then have "map sample_of_row (filter ?P (tbl d)) = filter (in_range (whole_second f) t) h" by (simp add: table_shows_def)
  then have "mset (map sample_of_row rs) = mset (filter (in_range (whole_second f) t) h)"
    using rs(3) by (simp only: mset_map flip: \<open>map sample_of_row (filter ?P (tbl d)) = filter (in_range (whole_second f) t) h\<close>)
  with q c show ?thesis by blast
qed

lemma semantics_latest:
  assumes "sqlite_semantics drv tbl" "answers (dv_select drv SelectLatest d)"
  shows "if tbl d = [] then dv_select drv SelectLatest d = Inr ([], None)
    else \<exists>r \<in> set (tbl d). dv_select drv SelectLatest d = Inr ([Inr r], None) \<and>
      (\<forall>r' \<in> set (tbl d). sr_timestamp r' \<le> sr_timestamp r)"
proof -
  obtain rows where rows: "dv_select drv SelectLatest d = Inr (rows, None)" using assms(2) by (auto simp: answers_def)
  moreover have "\<forall>d rows. dv_select drv SelectLatest d = Inr (rows, None) \<longrightarrow> (if tbl d = [] then rows = []
         else \<exists>r \<in> set (tbl d). rows = [Inr r] \<and> (\<forall>r' \<in> set (tbl d). sr_timestamp r' \<le> sr_timestamp r))"
    using assms(1) unfolding sqlite_semantics_def by (elim conjE)
  ultimately have "if tbl d = [] then rows = []
         else \<exists>r \<in> set (tbl d). rows = [Inr r] \<and> (\<forall>r' \<in> set (tbl d). sr_timestamp r' \<le> sr_timestamp r)" by blast
  then show ?thesis unfolding rows by (auto split: if_splits)
qed

lemma sqlite_latest_shown:
  assumes "sqlite_semantics drv tbl" "table_shows (tbl d) h" "answers (dv_select drv SelectLatest d)"
  shows "if h = [] then sqlite_latest drv d = Inl ErrNoSamples
    else \<exists>s \<in> set h. sqlite_latest drv d = Inr s \<and> (\<forall>s' \<in> set h. timestamp s' \<le> timestamp s)"
proof (cases "h = []")
  case True
  then have "tbl d = []" using assms(2) by (simp add: table_shows_def)
  then have "dv_select drv SelectLatest d = Inr ([], None)" using semantics_latest [OF assms(1,3)] by simp
  then show ?thesis using True by (simp add: sqlite_latest_def scan_first_def)
next
  case False
  then have ne: "tbl d \<noteq> []" using assms(2) by (auto simp: table_shows_def)
  obtain r where r: "r \<in> set (tbl d)" "dv_select drv SelectLatest d = Inr ([Inr r], None)"
    "\<forall>r' \<in> set (tbl d). sr_timestamp r' \<le> sr_timestamp r"
    using semantics_latest [OF assms(1,3)] ne by auto
  have ok: "\<forall>r \<in> set (tbl d). row_ok r" and h: "h = map sample_of_row (tbl d)"
    using assms(2) by (auto simp: table_shows_def list_all_iff)
  have "sqlite_latest drv d = Inr (sample_of_row r)" using r(2) by (simp add: sqlite_latest_def scan_first_def)
  moreover have "\<forall>s' \<in> set h. timestamp s' \<le> timestamp (sample_of_row r)" using r(1,3) ok by (auto simp: h row_timestamp)
  ultimately show ?thesis using False r(1) h by auto
qed

definition ascending :: "sample list \<Rightarrow> bool" where
  "ascending h \<longleftrightarrow> sorted_wrt (<) (map timestamp h)"

lemma ascending_filter: "ascending h \<Longrightarrow> ascending (filter P h)"
  by (induction h) (auto simp: ascending_def)

lemma ascending_last:
  assumes "ascending h" "s \<in> set h" "\<forall>s' \<in> set h. timestamp s' \<le> timestamp s"
  shows "s = last h"
proof (rule ccontr)
  assume n: "s \<noteq> last h"
  have "h = butlast h @ [last h]" using assms(2) by (cases h) simp_all
  then have a: "ascending (butlast h @ [last h])" "s \<in> set (butlast h @ [last h])" using assms(1,2) by simp_all
  then have "timestamp s < timestamp (last h)" using n by (auto simp: ascending_def sorted_wrt_append)
  then show False using assms(2,3) by (metis empty_iff empty_set last_in_set not_less)
qed


subsection \<open>A database in memory\<close>

definition list_database :: "sample_row list sql_driver" where
  "list_database =
     \<lparr>dv_open = (\<lambda>path d. (d, None)), dv_max_conns = (\<lambda>n d. d),
      dv_exec = (\<lambda>st d. case st of
          CreateSchema \<Rightarrow> (d, None)
        | InsertSample r \<Rightarrow>
            if sr_cpu_percent r = NaN then (d, Some ''NOT NULL constraint failed: samples.cpu_percent'') else (d @ [r], None)
        | DeleteBefore c \<Rightarrow> (filter (\<lambda>r. c \<le> sr_timestamp r) d, None)),
      dv_select = (\<lambda>q d. case q of
          SelectBetween lo hi \<Rightarrow>
            Inr (map Inr (sort_key sr_timestamp (filter (\<lambda>r. lo \<le> sr_timestamp r \<and> sr_timestamp r \<le> hi) d)), None)
        | SelectLatest \<Rightarrow>
            Inr (case sort_key (\<lambda>r. - sr_timestamp r) d of [] \<Rightarrow> [] | r # _ \<Rightarrow> [Inr r], None)),
      dv_close = (\<lambda>d. (d, None))\<rparr>"

lemma list_database_semantics: "sqlite_semantics list_database (\<lambda>d. d)"
proof -
  have latest: "if d = [] then rows = []
         else \<exists>r \<in> set d. rows = [Inr r] \<and> (\<forall>r' \<in> set d. sr_timestamp r' \<le> sr_timestamp r)"
    if "dv_select list_database SelectLatest d = Inr (rows, None)" for d rows
  proof (cases "sort_key (\<lambda>r. - sr_timestamp r) d")
    case Nil
    then have "d = []" by (metis set_empty set_sort)
    then show ?thesis using that by (simp add: list_database_def)
  next
    case (Cons r rs)
    have "sorted (map (\<lambda>r. - sr_timestamp r) (r # rs))" unfolding Cons [symmetric] by (rule sorted_sort_key)
    moreover have "set d = set (r # rs)" by (metis Cons set_sort)
    ultimately show ?thesis using that Cons by (auto simp: list_database_def)
  qed
  show ?thesis using latest by (auto simp: sqlite_semantics_def takes_effect_def list_database_def)
qed

definition at_second :: "int \<Rightarrow> sample" where
  "at_second n = zero_sample\<lparr>timestamp := n * 1000000000 + 700000000\<rparr>"

text \<open>The last save fails, and the one before it is pruned with the rest of its second.\<close>

definition sqlite_ops :: "store_op list" where
  "sqlite_ops = [OpSave (at_second 63900000010), OpSave (at_second 63900000020), OpRestart ''/var/lib/gateshell.db'',
     OpSave (at_second 63900000030), OpRetain (63907776020 * 1000000000) default_retention_policy,
     OpSave ((at_second 63900000040)\<lparr>cpu_percent := NaN\<rparr>)]"


text \<open>
  \<open>LatestSample\<close> orders by time, not by the order of saving: after the clock was set back it keeps
  answering with the sample of the old clock, where the memory store answers with the one just saved.
\<close>

theorem clock_step_hides_latest:
  "sqlite_latest list_database (fst (sqlite_run list_database (\<lambda>_. 0)
      [OpSave (at_second 63900000020), OpSave (at_second 63900000010)] [])) =
     Inr (zero_sample\<lparr>timestamp := 63900000020 * 1000000000\<rparr>)"
  by (simp add: list_database_def sqlite_save_def at_second_def zero_sample_def processes_json_def services_json_def array_def
    row_of_sample_def sqlite_latest_def scan_first_def sample_of_row_def unmarshal_column_def dec_processes_def dec_services_def
    dec_list_def time_unix_def unix_time_def unix_to_internal_def in_int64_iff)

end
