(* ===== verification/Sample_Claims.thy ===== *)
theory Sample_Claims
  imports Reader_Claims Store_Sqlite
begin

text \<open>
  What becomes of a gathered sample: every number the readers produce is a float64 that JSON can carry, so
  a sample reaches the app and the durable store whole.
\<close>

subsection \<open>The readers produce float64 values\<close>

lemma representable_f64 [simp]: "representable (f64 r)"
  using f64_exact [of r] by (cases "f64 r") (simp_all add: representable_def)

lemma representable_inf [simp]: "representable (f_inf b)" "representable PInf" "representable NInf" "representable NaN"
  by (simp_all add: representable_def f_inf_def)

lemma representable_small [simp]: "representable (Fin 0)" "representable (Fin 100)"
  by (simp add: representable_def, code_simp) (simp add: representable_def, code_simp)

lemma representable_ops [simp]:
  "representable (f_mul x y)" "representable (f_div x y)" "representable (f_of_int i)" "representable (f_of_uint64 w)"
proof -
  show "representable (f_mul x y)" by (cases x; cases y) simp_all
  show "representable (f_div x y)" by (cases x; cases y) simp_all
  show "representable (f_of_int i)" "representable (f_of_uint64 w)" by (simp_all add: f_of_int_def f_of_uint64_def)
qed

lemma parse_f64_representable:
  assumes "parse_f64 what s = Inr x"
  shows "representable x"
proof -
  have "representable y" if "parse_float s = Inr y" for y
  proof (cases y)
    case (Fin q)
    then have "\<exists>v. f64 v = Fin q"
      using that by (auto simp: parse_float_def Let_def case_prod_beta f_inf_def split: if_splits option.splits float64.splits)
    then show ?thesis by (metis Fin representable_f64)
  qed (simp_all)
  then show ?thesis using assms by (auto simp: parse_f64_def split: sum.splits)
qed

lemma readers_representable:
  "load_avg_read m = Inr (l1, l5, l15) \<Longrightarrow> representable l1 \<and> representable l5 \<and> representable l15"
  "memory_read m = Inr (mu, mt) \<Longrightarrow> representable mu \<and> representable mt"
  "disk_read m path = Inr (du, dt) \<Longrightarrow> representable du \<and> representable dt"
  "cpu_read m = Inr c \<Longrightarrow> representable c"
  "net_read i m = Inr (rx, tx) \<Longrightarrow> representable rx \<and> representable tx"
  by (auto simp: load_avg_read_def memory_read_def disk_read_def cpu_read_def net_read_def Let_def calc_disk_usage_def
      cpu_percent_of_def split: if_splits sum.splits option.splits dest: parse_f64_representable)

subsection \<open>Processes and services of a gathered sample\<close>

lemma proc_stat_pid: "parse_proc_stat data = Inr s \<Longrightarrow> in_int64 (ps_pid s)"
  by (auto simp: parse_proc_stat_def parse_stat_fields_def split: option.splits sum.splits if_splits dest: parse_int_range)

lemma proc_samples_pid:
  assumes "read_proc_samples m = Inr ss" "s \<in> set ss"
  shows "in_int64 (ps_pid s)"
proof -
  obtain dir is_dir where "proc_entry m (dir, is_dir) = Some s"
    using assms by (auto simp: read_proc_samples_def map_filter_def split: sum.splits)
  then show ?thesis by (auto simp: proc_entry_def proc_stat_pid split: if_splits sum.splits)
qed

definition row_value :: "process_info \<Rightarrow> bool" where
  "row_value p \<longleftrightarrow> in_int64 (pi_pid p) \<and> representable (pi_cpu_percent p) \<and> representable (pi_mem_mb p)"

lemma process_row_value: "in_int64 (ps_pid s) \<Longrightarrow> row_value (process_row b prev elapsed s)"
  by (simp add: row_value_def process_row_def Let_def cpu_percent_between_def split: option.split)

lemma top_read_values:
  assumes "top_processes_read m n r = (r', Inr procs)" "p \<in> set procs"
  shows "row_value p"
proof (cases "on_linux m")
  case True
  then obtain ss where ss: "read_proc_samples m = Inr ss"
    using assms by (auto simp: top_processes_read_def Let_def split: sum.splits prod.splits)
  obtain b rows where rows: "top_rows r (mc_proc_at m) ss = (b, rows)" by (rule prod.exhaust)
  have "set procs \<subseteq> set (sort_slice (ranks_before b) rows)"
    using assms(1) True ss rows by (auto simp: top_processes_read_def Let_def dest: in_set_takeD)
  then have "p \<in> set rows" using assms(2) by (auto simp: rank.set_sort)
  then show ?thesis using rows proc_samples_pid [OF ss] process_row_value by (auto simp: top_rows_def Let_def)
qed (use assms in \<open>simp add: top_processes_read_def\<close>)

lemma run_tool_all: "(\<And>out v. v \<in> set (f out) \<Longrightarrow> P v) \<Longrightarrow> run_tool h cmd f = Inr vs \<Longrightarrow> v \<in> set vs \<Longrightarrow> P v"
  by (auto simp: run_tool_def split: if_splits option.splits)

lemma checked_now:
  assumes "(k, check) \<in> set checkers" "check h now = Inr vs" "v \<in> set vs"
  shows "ss_last_check v = now"
proof -
  consider "check = docker_check" | "check = systemd_check" | "check = pm2_check" | "check = cron_check"
    using assms(1) by (auto simp: checkers_def)
  then show ?thesis
    by cases (use assms(2,3) in \<open>auto simp: docker_check_def systemd_check_def pm2_check_def cron_check_def cron_status_def
      elim!: run_tool_all [rotated -2]\<close>)
qed

lemma services_checked_now:
  "set cs \<subseteq> set checkers \<Longrightarrow> v \<in> set (check_services cs m) \<Longrightarrow> ss_last_check v = mc_check_at m"
  by (induction cs m rule: check_services.induct) (auto dest: checked_now split: sum.splits)

subsection \<open>A gathered sample arrives\<close>

lemma fin_exact: "fin_le k x \<Longrightarrow> representable x \<Longrightarrow> exact x"
  by (cases x) (auto simp: fin_le_def representable_def)

lemma or_zero_cases: "P z \<Longrightarrow> (\<And>x. r = Inr x \<Longrightarrow> P x) \<Longrightarrow> P (or_zero z r)"
  by (cases r) (simp_all add: or_zero_def)

definition all_floats :: "sample \<Rightarrow> float64 list" where
  "all_floats s = [cpu_percent s, mem_used_mb s, mem_total_mb s, disk_used_gb s, disk_total_gb s, load_avg_1 s,
     load_avg_5 s, load_avg_15 s, net_rx_bytes_per_sec s, net_tx_bytes_per_sec s]"

lemma gather_representable: "list_all representable (all_floats (snd (gather path m r)))"
proof -
  have "case or_zero (Fin 0, Fin 0, Fin 0) (load_avg_read m) of (a, b, c) \<Rightarrow> representable a \<and> representable b \<and> representable c"
    by (rule or_zero_cases) (auto dest: readers_representable)
  moreover have "case or_zero (Fin 0, Fin 0) (memory_read m) of (a, b) \<Rightarrow> representable a \<and> representable b"
    by (rule or_zero_cases) (auto dest: readers_representable)
  moreover have "case or_zero (Fin 0, Fin 0) (disk_read m path) of (a, b) \<Rightarrow> representable a \<and> representable b"
    by (rule or_zero_cases) (auto dest: readers_representable)
  moreover have "case or_zero (Fin 0, Fin 0) (net_read 0 m) of (a, b) \<Rightarrow> representable a \<and> representable b"
    by (rule or_zero_cases) (auto dest: readers_representable)
  moreover have "representable (or_zero (Fin 0) (cpu_read m))" by (rule or_zero_cases) (auto dest: readers_representable)
  ultimately show ?thesis by (simp add: all_floats_def gather_fields case_prod_beta)
qed

lemma gather_processes:
  "p \<in> set (top_processes (snd (gather path m r))) \<Longrightarrow> row_value p \<and> process_ok p"
proof -
  assume p: "p \<in> set (top_processes (snd (gather path m r)))"
  then obtain r' procs where t: "top_processes_read m 5 r = (r', Inr procs)" "p \<in> set procs"
    by (cases "top_processes_read m 5 r"; cases "snd (top_processes_read m 5 r)") (auto simp: gather_fields or_zero_def)
  have v: "row_value p" using t by (rule top_read_values)
  have "finite_row p" using top_read_fin [OF t(1)] t(2) by blast
  then show ?thesis using v fin_exact by (auto simp: row_value_def process_ok_def finite_row_def)
qed

lemma gather_sample_ok:
  assumes "list_all (\<lambda>x. \<exists>q. x = Fin q) [load_avg_1 s, load_avg_5 s, load_avg_15 s]"
    "time_ok (\<lambda>_. 0) (mc_now m)" "time_ok zone (mc_check_at m)" "s = snd (gather path m r)"
  shows "sample_ok zone s"
proof -
  have f: "finite_sample s" using gather_finite assms(4) by simp
  have r: "list_all representable (all_floats s)" using gather_representable assms(4) by simp
  have "exact (cpu_percent s)" "exact (disk_used_gb s)" "exact (disk_total_gb s)"
    using f r by (auto simp: finite_sample_def all_floats_def representable_def)
  moreover have "exact (load_avg_1 s)" "exact (load_avg_5 s)" "exact (load_avg_15 s)"
    using assms(1) r by (auto simp: all_floats_def representable_def)
  moreover have "exact (mem_used_mb s)" "exact (mem_total_mb s)" "exact (net_rx_bytes_per_sec s)" "exact (net_tx_bytes_per_sec s)"
    using f r fin_exact by (auto simp: finite_sample_def all_floats_def)
  moreover have "in_int64 (uptime_seconds s)" using f by (simp add: finite_sample_def)
  moreover have "list_all process_ok (top_processes s)" using gather_processes assms(4) by (simp add: list_all_iff)
  moreover have "list_all (\<lambda>v. time_ok zone (ss_last_check v)) (services s)"
    using services_checked_now [of checkers _ m] assms(3,4) by (simp add: list_all_iff gather_fields)
  moreover have "time_ok (\<lambda>_. 0) (timestamp s)" using assms(2,4) by (simp add: gather_fields)
  ultimately show ?thesis by (simp add: sample_ok_def)
qed



end
