(* ===== verification/Agent_Shutdown.thy ===== *)
theory Agent_Shutdown
  imports Collector_Loop
begin

text \<open>
  How \<open>serve\<close> ends: the goroutines of newServeCmd after its wiring, as a step relation. The collector runs
  \<open>Run\<close> and posts its error; \<open>ListenAndServe\<close> selects between the context and the HTTP server, which runs
  in a goroutine of its own, and posts its error; the command waits for the signal and drains two errors.
  The channels are the code's: \<open>errCh\<close> with two slots in newServeCmd and one slot inside \<open>ListenAndServe\<close>.
  Steps of the program (\<open>go_step\<close>) are told from what the outside may do or not (\<open>outside_step\<close>): the
  signal, a timer, a request that sets the interval, the end of the HTTP server. A gathering, a shutdown
  (bounded by its five seconds) and each wait are one step; a timer just created has not fired when the
  \<open>select\<close> on it begins.
\<close>

definition http_err_server_closed :: string where "http_err_server_closed = ''http: Server closed''"

definition context_canceled :: string where "context_canceled = ''context canceled''"

text \<open>\<open>api.ListenAndServe\<close>: the context ends or the HTTP server returns, whichever the select takes.\<close>

datatype listen_event = ContextDone "string option" | ServerReturned "string option"

definition listen_and_serve :: "listen_event \<Rightarrow> string option" where
  "listen_and_serve ev =
     (case ev of ContextDone shutdown \<Rightarrow> shutdown
      | ServerReturned err \<Rightarrow> if err = Some http_err_server_closed then None else err)"

datatype coll_pc = CollCheck | CollTick | CollWait | CollBlocked duration | CollExit | CollGone
datatype srv_pc = SrvSelect | SrvShutdown | SrvExit "string option" | SrvGone "string option"
datatype http_pc = HttpServing | HttpReturned
datatype main_pc = MainWait | MainDrain nat "string list" | MainReturned "string list"

record serve_state =
  sv_ctx_done :: bool
  sv_interval :: duration
  sv_reconfig :: bool
  sv_requests :: nat
  sv_coll :: coll_pc
  sv_srv :: srv_pc
  sv_http :: http_pc
  sv_http_ch :: "string option list"
  sv_err_ch :: "string option list"
  sv_main :: main_pc

text \<open>\<open>sv_requests\<close> is the number of interval changes that will still arrive, any number.\<close>

definition serve_start :: "duration \<Rightarrow> nat \<Rightarrow> serve_state" where
  "serve_start d k = \<lparr>sv_ctx_done = False, sv_interval = d, sv_reconfig = False, sv_requests = k, sv_coll = CollCheck,
     sv_srv = SrvSelect, sv_http = HttpServing, sv_http_ch = [], sv_err_ch = [], sv_main = MainWait\<rparr>"

text \<open>What the drain loop logs for one error.\<close>

definition drained :: "string option \<Rightarrow> string list" where
  "drained e = (case e of None \<Rightarrow> [] | Some m \<Rightarrow> if m = context_canceled then [] else [m])"

inductive go_step :: "serve_state \<Rightarrow> serve_state \<Rightarrow> bool" where
  coll_check: "sv_coll s = CollCheck \<Longrightarrow>
    go_step s (s\<lparr>sv_coll := (if 0 < sv_interval s then CollTick else CollWait)\<rparr>)"
| coll_tick: "sv_coll s = CollTick \<Longrightarrow> go_step s (s\<lparr>sv_coll := CollWait\<rparr>)"
| coll_block: "sv_coll s = CollWait \<Longrightarrow> \<not> sv_ctx_done s \<Longrightarrow> \<not> sv_reconfig s \<Longrightarrow>
    go_step s (s\<lparr>sv_coll := CollBlocked (sv_interval s)\<rparr>)"
| coll_cancel: "sv_coll s = CollWait \<or> sv_coll s = CollBlocked d \<Longrightarrow> sv_ctx_done s \<Longrightarrow> go_step s (s\<lparr>sv_coll := CollExit\<rparr>)"
| coll_wake: "sv_coll s = CollWait \<or> sv_coll s = CollBlocked d \<Longrightarrow> sv_reconfig s \<Longrightarrow>
    go_step s (s\<lparr>sv_coll := CollCheck, sv_reconfig := False\<rparr>)"
| coll_post: "sv_coll s = CollExit \<Longrightarrow> length (sv_err_ch s) < 2 \<Longrightarrow>
    go_step s (s\<lparr>sv_coll := CollGone, sv_err_ch := sv_err_ch s @ [Some context_canceled]\<rparr>)"
| srv_cancel: "sv_srv s = SrvSelect \<Longrightarrow> sv_ctx_done s \<Longrightarrow> go_step s (s\<lparr>sv_srv := SrvShutdown\<rparr>)"
| srv_shutdown: "sv_srv s = SrvShutdown \<Longrightarrow> go_step s (s\<lparr>sv_srv := SrvExit (listen_and_serve (ContextDone r))\<rparr>)"
| srv_result: "sv_srv s = SrvSelect \<Longrightarrow> sv_http_ch s = r # rs \<Longrightarrow>
    go_step s (s\<lparr>sv_srv := SrvExit (listen_and_serve (ServerReturned r)), sv_http_ch := rs\<rparr>)"
| srv_post: "sv_srv s = SrvExit r \<Longrightarrow> length (sv_err_ch s) < 2 \<Longrightarrow>
    go_step s (s\<lparr>sv_srv := SrvGone r, sv_err_ch := sv_err_ch s @ [r]\<rparr>)"
| main_wake: "sv_main s = MainWait \<Longrightarrow> sv_ctx_done s \<Longrightarrow> go_step s (s\<lparr>sv_main := MainDrain 0 []\<rparr>)"
| main_drain: "sv_main s = MainDrain i out \<Longrightarrow> i < 2 \<Longrightarrow> sv_err_ch s = e # es \<Longrightarrow>
    go_step s (s\<lparr>sv_main := MainDrain (i + 1) (out @ drained e), sv_err_ch := es\<rparr>)"
| main_return: "sv_main s = MainDrain i out \<Longrightarrow> \<not> i < 2 \<Longrightarrow> go_step s (s\<lparr>sv_main := MainReturned out\<rparr>)"

inductive outside_step :: "serve_state \<Rightarrow> serve_state \<Rightarrow> bool" where
  signal: "\<not> sv_ctx_done s \<Longrightarrow> outside_step s (s\<lparr>sv_ctx_done := True\<rparr>)"
| set_interval: "sv_requests s = Suc k \<Longrightarrow> outside_step s (s\<lparr>sv_requests := k, sv_interval := d, sv_reconfig := True\<rparr>)"
| timer: "sv_coll s = CollBlocked d \<Longrightarrow> 0 < d \<Longrightarrow> outside_step s (s\<lparr>sv_coll := CollCheck\<rparr>)"
| http_returns: "sv_http s = HttpServing \<Longrightarrow> length (sv_http_ch s) < 1 \<Longrightarrow>
    outside_step s (s\<lparr>sv_http := HttpReturned, sv_http_ch := sv_http_ch s @ [r]\<rparr>)"

definition serve_move :: "serve_state \<Rightarrow> serve_state \<Rightarrow> bool" where
  "serve_move s s' \<longleftrightarrow> go_step s s' \<or> outside_step s s'"

subsection \<open>Termination\<close>

text \<open>The work left once the context is done.\<close>

definition coll_work :: "coll_pc \<Rightarrow> nat" where
  "coll_work pc = (case pc of CollGone \<Rightarrow> 0 | CollExit \<Rightarrow> 1 | CollWait \<Rightarrow> 2 | CollTick \<Rightarrow> 3 | CollCheck \<Rightarrow> 4 | CollBlocked _ \<Rightarrow> 5)"

definition srv_work :: "srv_pc \<Rightarrow> nat" where
  "srv_work pc = (case pc of SrvGone _ \<Rightarrow> 0 | SrvExit _ \<Rightarrow> 1 | SrvShutdown \<Rightarrow> 2 | SrvSelect \<Rightarrow> 3)"

definition main_work :: "main_pc \<Rightarrow> nat" where
  "main_work pc = (case pc of MainReturned _ \<Rightarrow> 0 | MainDrain i _ \<Rightarrow> 3 - i | MainWait \<Rightarrow> 4)"

definition work_left :: "serve_state \<Rightarrow> nat" where
  "work_left s = 4 * sv_requests s + (if sv_reconfig s then 3 else 0) + coll_work (sv_coll s) + srv_work (sv_srv s) +
     (if sv_http s = HttpServing then 1 else 0) + main_work (sv_main s)"

lemmas work_defs = work_left_def coll_work_def srv_work_def main_work_def

definition drain_ok :: "serve_state \<Rightarrow> bool" where
  "drain_ok s \<longleftrightarrow> (\<forall>i out. sv_main s = MainDrain i out \<longrightarrow> i \<le> 2)"

lemma drain_ok_step: "serve_move s s' \<Longrightarrow> drain_ok s \<Longrightarrow> drain_ok s'"
  unfolding serve_move_def drain_ok_def by (auto elim!: go_step.cases outside_step.cases)

lemma ctx_done_step: "serve_move s s' \<Longrightarrow> sv_ctx_done s \<Longrightarrow> sv_ctx_done s'"
  unfolding serve_move_def by (auto elim!: go_step.cases outside_step.cases)

lemma go_step_work: "go_step s s' \<Longrightarrow> sv_ctx_done s \<Longrightarrow> drain_ok s \<Longrightarrow> work_left s' < work_left s"
  by (induction rule: go_step.induct) (auto simp: work_defs drain_ok_def)

lemma outside_step_work: "outside_step s s' \<Longrightarrow> sv_ctx_done s \<Longrightarrow> work_left s' < work_left s"
  by (induction rule: outside_step.induct) (auto simp: work_defs)

definition drained_count :: "main_pc \<Rightarrow> nat" where
  "drained_count pc = (case pc of MainWait \<Rightarrow> 0 | MainDrain i _ \<Rightarrow> i | MainReturned _ \<Rightarrow> 2)"

definition logged :: "main_pc \<Rightarrow> string list" where
  "logged pc = (case pc of MainWait \<Rightarrow> [] | MainDrain _ out \<Rightarrow> out | MainReturned out \<Rightarrow> out)"

text \<open>Every error posted is in the channel or drained, and the log shows the server's.\<close>

definition serve_inv :: "nat \<Rightarrow> serve_state \<Rightarrow> bool" where
  "serve_inv k s \<longleftrightarrow> drain_ok s \<and> sv_requests s \<le> k \<and> (sv_main s \<noteq> MainWait \<longrightarrow> sv_ctx_done s) \<and>
     drained_count (sv_main s) + length (sv_err_ch s) =
       (if sv_coll s = CollGone then 1 else 0) + (case sv_srv s of SrvGone _ \<Rightarrow> 1 | _ \<Rightarrow> 0) \<and>
     logged (sv_main s) @ concat (map drained (sv_err_ch s)) = (case sv_srv s of SrvGone r \<Rightarrow> drained r | _ \<Rightarrow> []) \<and>
     (sv_http s = HttpServing \<longrightarrow> sv_http_ch s = [])"

lemma drained_canceled [simp]: "drained (Some context_canceled) = []"
  by (simp add: drained_def)

lemmas inv_defs = serve_inv_def drain_ok_def drained_count_def logged_def

lemma serve_inv_start: "serve_inv k (serve_start d k)"
  by (simp add: inv_defs serve_start_def)

lemma go_step_inv: "go_step s s' \<Longrightarrow> serve_inv k s \<Longrightarrow> serve_inv k s'"
proof (induction rule: go_step.induct)
  case (main_return s i out)
  then have "i = 2" by (simp add: inv_defs)
  then show ?case using main_return by (simp add: inv_defs)
qed (auto simp: inv_defs)

lemma outside_step_inv: "outside_step s s' \<Longrightarrow> serve_inv k s \<Longrightarrow> serve_inv k s'"
  by (induction rule: outside_step.induct) (auto simp: inv_defs)

lemma serve_inv_move: "serve_move s s' \<Longrightarrow> serve_inv k s \<Longrightarrow> serve_inv k s'"
  using go_step_inv outside_step_inv unfolding serve_move_def by blast

lemma serve_inv_run: "serve_move\<^sup>*\<^sup>* s s' \<Longrightarrow> serve_inv k s \<Longrightarrow> serve_inv k s'"
  by (induction rule: rtranclp_induct) (simp_all add: serve_inv_move)

lemma ctx_done_run: "serve_move\<^sup>*\<^sup>* s s' \<Longrightarrow> sv_ctx_done s \<Longrightarrow> sv_ctx_done s'"
  by (induction rule: rtranclp_induct) (auto dest: ctx_done_step)

lemma serve_run_bounded:
  "(serve_move ^^ n) s s' \<Longrightarrow> sv_ctx_done s \<Longrightarrow> serve_inv k s \<Longrightarrow> n + work_left s' \<le> work_left s"
proof (induction n arbitrary: s')
  case (Suc n)
  then obtain t where t: "(serve_move ^^ n) s t" "serve_move t s'" by auto
  have "serve_inv k t" "sv_ctx_done t"
    using t(1) Suc.prems serve_inv_run ctx_done_run by (meson relpowp_imp_rtranclp)+
  then have "work_left s' < work_left t"
    using t(2) go_step_work outside_step_work unfolding serve_move_def serve_inv_def by blast
  then show ?case using Suc.IH [OF t(1) Suc.prems(2,3)] by simp
qed simp

lemma work_left_bound:
  assumes "serve_inv k s"
  shows "work_left s \<le> 4 * k + 16"
proof -
  have "coll_work (sv_coll s) \<le> 5" by (cases "sv_coll s") (simp_all add: coll_work_def)
  moreover have "srv_work (sv_srv s) \<le> 3" by (cases "sv_srv s") (simp_all add: srv_work_def)
  moreover have "main_work (sv_main s) \<le> 4" by (cases "sv_main s") (simp_all add: main_work_def)
  moreover have "sv_requests s \<le> k" using assms by (simp add: serve_inv_def)
  ultimately show ?thesis unfolding work_left_def by simp
qed

text \<open>A goroutine that has something to post finds room in the channel.\<close>

definition senders_ready :: "serve_state \<Rightarrow> bool" where
  "senders_ready s \<longleftrightarrow>
     (sv_coll s = CollExit \<or> (\<exists>r. sv_srv s = SrvExit r) \<longrightarrow> length (sv_err_ch s) < 2) \<and>
     (sv_http s = HttpServing \<longrightarrow> length (sv_http_ch s) < 1)"

lemma serve_inv_senders: "serve_inv k s \<Longrightarrow> senders_ready s"
  by (auto simp: serve_inv_def senders_ready_def split: srv_pc.splits if_splits)

text \<open>With the signal seen, the program can move until the command has returned and both goroutines ended.\<close>

lemma coll_can_move:
  assumes "sv_ctx_done s" "senders_ready s" "sv_coll s \<noteq> CollGone"
  shows "\<exists>s'. go_step s s'"
proof (cases "sv_coll s")
  case CollExit
  then show ?thesis using assms(2) coll_post by (auto simp: senders_ready_def)
qed (use assms go_step.intros in blast)+

lemma srv_can_move:
  assumes "sv_ctx_done s" "senders_ready s" "\<forall>r. sv_srv s \<noteq> SrvGone r"
  shows "\<exists>s'. go_step s s'"
proof (cases "sv_srv s")
  case (SrvExit r)
  then show ?thesis using assms(2) srv_post by (auto simp: senders_ready_def)
qed (use assms go_step.intros in blast)+

lemma main_can_move:
  assumes "sv_ctx_done s" "serve_inv k s" "sv_coll s = CollGone" "sv_srv s = SrvGone r" "\<forall>out. sv_main s \<noteq> MainReturned out"
  shows "\<exists>s'. go_step s s'"
proof (cases "sv_main s")
  case (MainDrain i out)
  show ?thesis
  proof (cases "i < 2")
    case True
    then have "sv_err_ch s \<noteq> []" using assms(2-4) MainDrain by (auto simp: inv_defs)
    then show ?thesis using main_drain [OF MainDrain True] by (cases "sv_err_ch s") auto
  qed (use main_return [OF MainDrain] in blast)
qed (use assms main_wake in auto)

lemma serve_stuck:
  assumes "sv_ctx_done s" "serve_inv k s" "\<forall>s'. \<not> go_step s s'"
  shows "\<exists>r. sv_main s = MainReturned (drained r) \<and> sv_srv s = SrvGone r \<and> sv_coll s = CollGone"
proof -
  note ready = serve_inv_senders [OF assms(2)]
  obtain r where r: "sv_coll s = CollGone" "sv_srv s = SrvGone r"
    using coll_can_move srv_can_move assms(1,3) ready by blast
  then obtain out where out: "sv_main s = MainReturned out" using main_can_move assms by blast
  have "sv_err_ch s = []" using assms(2) r out by (auto simp: inv_defs)
  then have "out = drained r" using assms(2) r out by (simp add: serve_inv_def logged_def)
  with r out show ?thesis by simp
qed



text \<open>Before the signal the command waits, even when the HTTP server has already failed and is gone.\<close>

theorem dead_server_unnoticed:
  assumes "m \<noteq> http_err_server_closed"
  shows "\<exists>s. serve_move\<^sup>*\<^sup>* (serve_start d k) s \<and> sv_srv s = SrvGone (Some m) \<and> sv_main s = MainWait \<and>
    (\<forall>s'. serve_move\<^sup>*\<^sup>* s s' \<and> \<not> sv_ctx_done s' \<longrightarrow> sv_main s' = MainWait)"
proof -
  let ?s1 = "(serve_start d k)\<lparr>sv_http := HttpReturned, sv_http_ch := [Some m]\<rparr>"
  let ?s2 = "?s1\<lparr>sv_srv := SrvExit (Some m), sv_http_ch := []\<rparr>"
  let ?s3 = "?s2\<lparr>sv_srv := SrvGone (Some m), sv_err_ch := [Some m]\<rparr>"
  have 1: "serve_move (serve_start d k) ?s1"
    using http_returns [of "serve_start d k" "Some m"] by (simp add: serve_start_def serve_move_def)
  have 2: "serve_move ?s1 ?s2"
    using srv_result [of ?s1 "Some m" "[]"] assms by (simp add: serve_start_def listen_and_serve_def serve_move_def)
  have 3: "serve_move ?s2 ?s3" using srv_post [of ?s2 "Some m"] by (simp add: serve_start_def serve_move_def)
  have run: "serve_move\<^sup>*\<^sup>* (serve_start d k) ?s3"
    by (rule rtranclp.rtrancl_into_rtrancl, rule rtranclp.rtrancl_into_rtrancl, rule r_into_rtranclp, rule 1, rule 2, rule 3)
  have "sv_main s' = MainWait" if "serve_move\<^sup>*\<^sup>* ?s3 s'" "\<not> sv_ctx_done s'" for s'
    using serve_inv_run [OF rtranclp_trans [OF run that(1)] serve_inv_start] that(2) by (auto simp: serve_inv_def)
  then show ?thesis using run by (intro exI [of _ ?s3]) (simp add: serve_start_def)
qed

end
