(* ===== verification/Agent_Alerts.thy ===== *)
theory Agent_Alerts
  imports Agent_Claims Alert_Claims
begin

text \<open>
  From the host to the phone: while the agent polls, every message its evaluator publishes becomes one
  request to the relay for each registered device, so a breach that lasts is sent to every device that stays
  registered. The agent's registry is an interpretation of the publisher's locale \<open>device_registry\<close>.
\<close>

interpretation devices: device_registry agent_regs "agent_drop wo" agent_find for wo
  by unfold_locales
    (auto simp: agent_regs_def agent_drop_def agent_find_def token_all_def token_find_def token_remove_def Let_def
      split: prod.splits)

definition agent_alert :: "serve_setup \<Rightarrow> relay_client \<Rightarrow> message \<Rightarrow> registration \<Rightarrow> request" where
  "agent_alert su c m r = alert_request c (c_server_name (su_config su)) (message_text m) r"

text \<open>Polling only adds requests and only removes devices.\<close>

definition grows :: "agent \<Rightarrow> agent \<Rightarrow> bool" where
  "grows w w' \<longleftrightarrow> set (ag_requests w) \<subseteq> set (ag_requests w') \<and> set (agent_regs w') \<subseteq> set (agent_regs w)"

lemma grows_refl [simp]: "grows w w"
  by (simp add: grows_def)

lemma grows_trans: "grows u v \<Longrightarrow> grows v w \<Longrightarrow> grows u w"
  by (auto simp: grows_def)

lemma fan_out_fewer:
  assumes "fan_out deliver (Some (agent_drop wo)) rs w = (w', rqs, es)"
  shows "set (agent_regs w') \<subseteq> set (agent_regs w)"
  unfolding devices.fan_out_regs [OF assms] by auto

lemma publish_message_sends:
  assumes "su_relay su = Some c" "w' = publish_message su wo m w"
  shows "grows w w' \<and> (\<forall>r \<in> set (agent_regs w). agent_alert su c m r \<in> set (ag_requests w'))"
proof (cases "agent_regs w = []")
  case True
  then show ?thesis using assms
    by (simp add: publish_message_def agent_publish_def recorded_def publish_def grows_def agent_regs_def)
next
  case False
  let ?d = "\<lambda>r. send c (reg_token r) (reg_environment r) (c_server_name (su_config su)) (message_text m) (wo_net wo)"
  obtain v rqs es where f: "fan_out ?d (Some (agent_drop wo)) (agent_regs w) w = (v, rqs, es)" by (rule prod_cases3)
  have w': "w' = v\<lparr>ag_requests := ag_requests v @ rqs\<rparr>"
    using assms f False by (simp add: publish_message_def agent_publish_def recorded_def publish_def)
  have "ag_requests v = ag_requests w"
    using fan_out_keeps [of ag_requests wo ?d "agent_regs w" w] f by simp
  moreover have "rqs = map (agent_alert su c m) (agent_regs w)"
    using fan_out_requests [OF f] by (simp add: send_eq agent_alert_def)
  moreover have "set (agent_regs w') \<subseteq> set (agent_regs w)" using fan_out_fewer [OF f] by (simp add: w' agent_regs_def)
  ultimately show ?thesis by (auto simp: grows_def w')
qed

lemma publish_all_send:
  assumes "su_relay su = Some c"
  shows "grows w (fold (publish_message su wo) ms w) \<and>
    (\<forall>m \<in> set ms. \<forall>r \<in> set (agent_regs (fold (publish_message su wo) ms w)).
       agent_alert su c m r \<in> set (ag_requests (fold (publish_message su wo) ms w)))"
proof (induction ms arbitrary: w)
  case (Cons m ms)
  let ?w1 = "publish_message su wo m w"
  have s: "grows w ?w1 \<and> (\<forall>r \<in> set (agent_regs w). agent_alert su c m r \<in> set (ag_requests ?w1))"
    by (rule publish_message_sends [OF assms refl])
  show ?case using Cons.IH [of ?w1] s grows_trans [of w ?w1] by (auto simp: grows_def) blast
qed simp

lemma sink_widget_grows: "grows w (sink_widget su wo c s w)"
proof -
  let ?name = "c_server_name (su_config su)"
  let ?pub = "\<lambda>m. publish_metrics c ?name agent_regs (Some (agent_drop wo)) m (wo_net wo)"
  let ?n = "notify (Some ?pub) (Some (ag_interval w)) ?name (wo_now wo) s (ag_widget_sent w) w"
  let ?p = "?pub (metrics_from ?name s) w"
  define n where "n = ?n"
  define p where "p = ?p"
  have "set (agent_regs p) \<subseteq> set (agent_regs w)" if "fst ?p = p" for p
    using that fan_out_fewer [of "deliver_metrics c ?name (metrics_from ?name s) (wo_net wo)" wo "agent_regs w" w]
    by (cases "fan_out (deliver_metrics c ?name (metrics_from ?name s) (wo_net wo)) (Some (agent_drop wo)) (agent_regs w) w")
      (auto simp: publish_metrics_def split: if_splits)
  then have p: "set (agent_regs (fst p)) \<subseteq> set (agent_regs w)" by (simp add: p_def)
  have q: "ag_requests (fst p) = ag_requests w" unfolding p_def by (rule Agent_Main.publish_keeps(2)) simp
  have "fst (snd n) = w \<or> fst (snd n) = fst p" unfolding n_def p_def by (rule notify_state)
  then have "set (agent_regs (fst (snd n))) \<subseteq> set (agent_regs w)" "ag_requests (fst (snd n)) = ag_requests w" using p q by auto
  moreover have "sink_widget su wo c s w = (fst (snd n))\<lparr>ag_widget_sent := fst n, ag_requests := ag_requests (fst (snd n)) @ fst (snd (snd n))\<rparr>"
    by (simp add: sink_widget_def case_prod_beta Let_def n_def)
  ultimately show ?thesis by (auto simp: grows_def agent_regs_def)
qed

text \<open>One poll: the sample goes through the evaluator, and its messages out.\<close>

lemma tick_sends:
  assumes "su_relay su = Some c" "0 < ag_interval w" "evaluate (sampled wo w) (ag_evaluator w) = (e, ms)"
  shows "ag_evaluator (agent_tick su wo w) = e \<and> grows w (agent_tick su wo w) \<and>
    (\<forall>m \<in> set ms. \<forall>r \<in> set (agent_regs (agent_tick su wo w)). agent_alert su c m r \<in> set (ag_requests (agent_tick su wo w)))"
proof -
  define s where "s = sampled wo w"
  define v where "v = sink_broadcast s (sink_save s w)"
  define u where "u = fold (publish_message su wo) ms (v\<lparr>ag_evaluator := e\<rparr>)"
  have v: "ag_evaluator v = ag_evaluator w" "ag_requests v = ag_requests w" "agent_regs v = agent_regs w"
    by (simp_all add: v_def sink_broadcast_def sink_save_def agent_regs_def)
  have "sink_evaluate su wo s v = u" using assms(3) by (simp add: sink_evaluate_def v(1) u_def s_def)
  moreover obtain x where "agent_tick su wo w = (sink_widget su wo c s (sink_evaluate su wo s v))\<lparr>ag_top := x\<rparr>"
    using assms(1,2) by (simp add: agent_tick_def tick_def agent_sinks_def case_prod_beta Let_def v_def s_def sampled_def)
  ultimately have t: "agent_tick su wo w = (sink_widget su wo c s u)\<lparr>ag_top := x\<rparr>" by simp
  have g: "grows (v\<lparr>ag_evaluator := e\<rparr>) u"
    "\<forall>m \<in> set ms. \<forall>r \<in> set (agent_regs u). agent_alert su c m r \<in> set (ag_requests u)"
    using publish_all_send [OF assms(1), of "v\<lparr>ag_evaluator := e\<rparr>" wo ms] by (simp_all add: u_def)
  have wg: "grows u (sink_widget su wo c s u)" by (rule sink_widget_grows)
  have "ag_evaluator (sink_widget su wo c s u) = e"
    unfolding u_def by (simp add: fold_keeps [of ag_evaluator])
  then show ?thesis using g wg v by (auto simp: t grows_def agent_regs_def) blast
qed

text \<open>A run of polls: the evaluator sees the samples taken, and all its messages go out.\<close>

lemma polls_send:
  assumes "su_relay su = Some c" "0 < ag_interval w"
  shows "length (samples_taken su (map Poll wos) w) = length wos \<and> grows w (serve_run su (map Poll wos) w) \<and>
    (\<forall>k < length wos. \<forall>m \<in> set (snd (evaluate_all (samples_taken su (map Poll wos) w) (ag_evaluator w)) ! k).
       \<forall>r \<in> set (agent_regs (serve_run su (map Poll wos) w)).
         agent_alert su c m r \<in> set (ag_requests (serve_run su (map Poll wos) w)))"
  using assms(2)
proof (induction wos arbitrary: w)
  case (Cons wo wos)
  obtain e ms where ev: "evaluate (sampled wo w) (ag_evaluator w) = (e, ms)" by (rule prod.exhaust)
  define v where "v = agent_tick su wo w"
  note t = tick_sends [OF assms(1) Cons.prems ev, folded v_def]
  have v: "0 < ag_interval v" using Cons.prems by (simp add: v_def agent_tick_view)
  obtain e2 mss where all: "evaluate_all (samples_taken su (map Poll wos) v) e = (e2, mss)" by (rule prod.exhaust)
  note ih = Cons.IH [OF v]
  let ?w' = "serve_run su (map Poll wos) v"
  have run: "serve_run su (map Poll (wo # wos)) w = ?w'"
    "samples_taken su (map Poll (wo # wos)) w = sampled wo w # samples_taken su (map Poll wos) v"
    using Cons.prems by (simp_all add: serve_run_def serve_step_def v_def)
  have msgs: "snd (evaluate_all (samples_taken su (map Poll (wo # wos)) w) (ag_evaluator w)) = ms # mss"
    unfolding run(2) by (simp add: ev all)
  have sent: "agent_alert su c m r \<in> set (ag_requests ?w')"
    if "k < length (wo # wos)" "m \<in> set ((ms # mss) ! k)" "r \<in> set (agent_regs ?w')" for k m r
  proof (cases k)
    case 0
    have "r \<in> set (agent_regs v)" "m \<in> set ms" using ih that(2,3) 0 by (auto simp: grows_def)
    then show ?thesis using t ih by (auto simp: grows_def)
  next
    case (Suc l)
    then show ?thesis using ih that t by (simp add: all)
  qed
  have "grows w ?w'" using ih t grows_trans [of w v ?w'] by blast
  moreover have "length (samples_taken su (map Poll (wo # wos)) w) = length (wo # wos)" unfolding run(2) using ih by simp
  ultimately show ?case unfolding run(1) msgs using sent by blast
qed (simp add: serve_run_def)

lemma serve_init_evaluator:
  assumes "serve_init rest_error version (Inr cfg) a files = Inr (su, w)"
  shows "ag_evaluator w = set_rules (c_rules cfg) (c_service_rules cfg) new_evaluator"
    "c_push_relay_token cfg \<noteq> [] \<Longrightarrow> \<exists>c. su_relay su = Some c"
  using assms by (auto simp: serve_init_def Let_def split: if_splits sum.splits)


text \<open>An agent with one device, whose rule holds at the first poll.\<close>

definition idle_rule :: rule where
  "idle_rule = \<lparr>r_name = ''Idle'', r_metric = MetricCPUPercent, r_comparator = ComparatorLessThan,
     r_threshold = Fin 1, r_for = 0, r_repeat = 0\<rparr>"

definition alert_init :: "(serve_setup \<times> agent) result" where
  "alert_init = serve_init (\<lambda>_. None) ''1.0'' (Inr (demo_config\<lparr>c_rules := Some [idle_rule]\<rparr>)) None demo_files"

definition idle_sample :: sample where
  "idle_sample = zero_sample\<lparr>timestamp := 7\<rparr>"

lemma idle_gathered: "gather ''/'' demo_machine r = (r, idle_sample)"
proof -
  have "f_to_int64 (duration_seconds 0) = 0" by code_simp
  moreover have "check_services checkers demo_machine = []"
    by (simp add: checkers_def docker_check_def systemd_check_def pm2_check_def cron_check_def run_tool_def demo_machine_def)
  moreover have "\<not> on_linux demo_machine" "mc_now demo_machine = 7" by (simp_all add: demo_machine_def)
  ultimately show ?thesis
    by (simp add: gather_def load_avg_read_def uptime_read_def memory_read_def disk_read_def cpu_read_def
        net_read_def top_processes_read_def or_zero_def idle_sample_def zero_sample_def)
qed

lemma alert_start:
  obtains su w where "alert_init = Inr (su, w)"
    "agent_regs (serve_run su [Poll demo_world] w) = [\<lparr>reg_token = ''abc'', reg_environment = ''production'', reg_label = ''phone''\<rparr>]"
proof -
  have a: "case alert_init of Inl _ \<Rightarrow> False | Inr (su, w) \<Rightarrow>
      agent_regs (foldl (\<lambda>w sink. sink idle_sample w) w (agent_sinks su demo_world)) =
        [\<lparr>reg_token = ''abc'', reg_environment = ''production'', reg_label = ''phone''\<rparr>]"
    by code_simp
  obtain su w where d: "alert_init = Inr (su, w)" using a by (auto split: sum.splits)
  have "ag_interval w = minute" using serve_init_state(3) [OF d [unfolded alert_init_def]] by (simp add: demo_config_def)
  moreover have "wo_machine demo_world = demo_machine" by (simp add: demo_world_def)
  ultimately have "agent_regs (serve_run su [Poll demo_world] w) =
      agent_regs (foldl (\<lambda>w sink. sink idle_sample w) w (agent_sinks su demo_world))"
    by (simp add: serve_run_def serve_step_def agent_tick_def tick_def idle_gathered agent_regs_def)
  then show ?thesis using that [OF d] a by (simp add: d)
qed


end
