(* ===== verification/Go_Ftoa.thy ===== *)
theory Go_Ftoa
  imports Float_Bounds Go_Json
begin

text \<open>
  The decimal text of a \<open>float64\<close> as \<open>encoding/json\<close> writes it: \<open>strconv.AppendFloat\<close> with the fewest
  digits that read back to the same value, plain notation between 1e-6 and 1e21 and an exponent
  outside. Seventeen digits always suffice (lemma \<open>shortest_exists\<close>), so the text of every finite value
  is defined and rounds back to it.
\<close>

subsection \<open>Decimal exponent\<close>

function log10_int :: "int \<Rightarrow> nat" where
  "log10_int n = (if n < 10 then 0 else Suc (log10_int (n div 10)))"
  by pat_completeness auto
termination by (relation "measure nat") auto

declare log10_int.simps [simp del]

lemma log10_int_spec: "1 \<le> n \<Longrightarrow> 10 ^ log10_int n \<le> n \<and> n < 10 ^ Suc (log10_int n)"
proof (induction n rule: log10_int.induct)
  case (1 n)
  show ?case
  proof (cases "n < 10")
    case True
    then show ?thesis using "1.prems" by (simp add: log10_int.simps)
  next
    case False
    then have e: "log10_int n = Suc (log10_int (n div 10))" by (subst log10_int.simps) simp
    have IH: "10 ^ log10_int (n div 10) \<le> n div 10" "n div 10 < 10 ^ Suc (log10_int (n div 10))"
      using "1.IH" False by simp_all
    then have "10 ^ log10_int (n div 10) * 10 \<le> n" "n < 10 ^ Suc (log10_int (n div 10)) * 10" by linarith+
    then show ?thesis by (simp add: e mult.commute)
  qed
qed

text \<open>The exponent of the leading decimal digit of a positive rational.\<close>

definition ilog10 :: "rat \<Rightarrow> int" where
  "ilog10 x =
     (if 1 \<le> x then int (log10_int \<lfloor>x\<rfloor>)
      else (let n = \<lceil>1 / x\<rceil> in - (if n \<le> 1 then 0 else 1 + int (log10_int (n - 1)))))"

lemma of_int_pow10: "(of_int (10 ^ k) :: rat) = 10 powi int k"
  by (simp add: power_int_def)

lemma ilog10_spec:
  assumes "0 < x"
  shows "10 powi (ilog10 x) \<le> x \<and> x < 10 powi (ilog10 x + 1)"
proof (cases "1 \<le> x")
  case True
  define k where "k = log10_int \<lfloor>x\<rfloor>"
  have k: "10 ^ k \<le> \<lfloor>x\<rfloor>" "\<lfloor>x\<rfloor> < 10 ^ Suc k"
    using log10_int_spec [of "\<lfloor>x\<rfloor>"] True by (simp_all add: k_def)
  have "(of_int (10 ^ k) :: rat) \<le> x" "x < of_int (10 ^ Suc k)"
    using k by (simp_all only: le_floor_iff floor_less_iff)
  moreover have "int (Suc k) = int k + 1" by simp
  ultimately show ?thesis using True by (simp only: of_int_pow10 ilog10_def if_True k_def)
next
  case False
  define n where "n = \<lceil>1 / x\<rceil>"
  define k where "k = log10_int (n - 1)"
  have "1 < 1 / x" using assms False by simp
  then have n: "2 \<le> n" unfolding n_def by linarith
  then have k: "10 ^ k \<le> n - 1" "n - 1 < 10 ^ Suc k" using log10_int_spec [of "n - 1"] by (simp_all add: k_def)
  have "(of_int (10 ^ k) :: rat) < 1 / x" using k(1) unfolding n_def less_ceiling_iff [symmetric] by linarith
  moreover have "1 / x \<le> of_int (10 ^ Suc k)" using k(2) unfolding n_def ceiling_le_iff [symmetric] by linarith
  ultimately have "10 powi int k < 1 / x" "1 / x \<le> 10 powi int (Suc k)" by (simp_all only: of_int_pow10)
  then have "x < 10 powi (- int k)" "10 powi (- int (Suc k)) \<le> x"
    using assms by (simp_all add: power_int_minus field_simps del: of_nat_Suc)
  moreover have "ilog10 x = - int (Suc k)" using False n by (simp add: ilog10_def Let_def n_def [symmetric] k_def)
  ultimately show ?thesis by simp
qed

subsection \<open>The shortest digits\<close>

text \<open>
  With \<open>n\<close> digits: the closest decimal (ties to even) or, where that one rounds to another float, the
  neighbour on the other side of the value.
\<close>

definition reads_as :: "rat \<Rightarrow> int \<Rightarrow> int \<Rightarrow> bool" where
  "reads_as x d k \<longleftrightarrow> f64 (of_int d * 10 powi k) = Fin x"

definition digits_at :: "rat \<Rightarrow> int \<Rightarrow> (int \<times> int) option" where
  "digits_at x n =
     (let k = ilog10 x - n + 1; y = x / 10 powi k; d = round_half_even y;
          d' = (if d = \<lfloor>y\<rfloor> then d + 1 else d - 1)
      in if reads_as x d k then Some (d, k) else if reads_as x d' k then Some (d', k) else None)"

fun first_digits :: "rat \<Rightarrow> int list \<Rightarrow> (int \<times> int) option" where
  "first_digits x [] = None"
| "first_digits x (n # ns) = (case digits_at x n of Some p \<Rightarrow> Some p | None \<Rightarrow> first_digits x ns)"

definition shortest :: "rat \<Rightarrow> (int \<times> int) option" where
  "shortest x = first_digits x [1..17]"

lemma digits_at_reads: "digits_at x n = Some (d, k) \<Longrightarrow> reads_as x d k"
  by (auto simp: digits_at_def Let_def split: if_splits)

lemma first_digits_reads: "first_digits x ns = Some (d, k) \<Longrightarrow> reads_as x d k"
  by (induction ns) (auto split: option.splits dest: digits_at_reads)

lemma shortest_reads: "shortest x = Some (d, k) \<Longrightarrow> f64 (of_int d * 10 powi k) = Fin x"
  unfolding shortest_def reads_as_def [symmetric] by (rule first_digits_reads)

lemma first_digits_exists: "n \<in> set ns \<Longrightarrow> digits_at x n \<noteq> None \<Longrightarrow> first_digits x ns \<noteq> None"
  by (induction ns) (auto split: option.splits)

subsection \<open>Seventeen digits suffice\<close>

lemma round_half_even_near: "\<bar>x - of_int m\<bar> < 1 / 2 \<Longrightarrow> round_half_even x = m"
proof -
  assume a: "\<bar>x - of_int m\<bar> < 1 / 2"
  then consider "of_int m \<le> x" "x < of_int m + 1 / 2" | "of_int m - 1 / 2 < x" "x < of_int m"
    by linarith
  then show ?thesis
  proof cases
    case 1
    then have "\<lfloor>x\<rfloor> = m" by linarith
    then show ?thesis using 1 by (simp add: round_half_even_def Let_def)
  next
    case 2
    then have "\<lfloor>x\<rfloor> = m - 1" by linarith
    then show ?thesis using 2 by (simp add: round_half_even_def Let_def)
  qed
qed

lemma round_half_even_close: "\<bar>of_int (round_half_even y) - y\<bar> \<le> 1 / 2"
proof -
  have "of_int \<lfloor>y\<rfloor> \<le> y" "y < of_int \<lfloor>y\<rfloor> + 1" by linarith+
  then show ?thesis unfolding round_half_even_def Let_def by (auto simp: abs_le_iff)
qed

lemma ulp_bounds:
  assumes "0 < x"
  shows "ulp x = 2 powi (max (ilog2 x - 52) (- 1074))" "x < 2 ^ 53 * ulp x"
proof -
  show u: "ulp x = 2 powi (max (ilog2 x - 52) (- 1074))" by (simp add: ulp_def)
  have "x < 2 powi (ilog2 x + 1)" using ilog2_spec [OF assms] by simp
  also have "(2 :: rat) powi (ilog2 x + 1) \<le> 2 powi (53 + max (ilog2 x - 52) (- 1074))"
    by (simp add: powi2_le_iff)
  also have "\<dots> = 2 ^ 53 * ulp x" by (simp add: u power_int_add)
  finally show "x < 2 ^ 53 * ulp x" .
qed

text \<open>A value within half a unit of a float, a quarter below a power of two, rounds to it.\<close>

lemma round_pos_near:
  assumes "0 < x" "0 < v" "x = of_int m * ulp x" "\<bar>v - x\<bar> < ulp x / 2"
    "x = 2 powi (ilog2 x) \<Longrightarrow> \<bar>v - x\<bar> < ulp x / 4"
  shows "round_pos v = x"
proof -
  define E where "E = max (ilog2 x - 52) (- 1074)"
  have u: "ulp x = 2 powi E" and upos: "0 < ulp x" using ulp_bounds [OF assms(1)] by (simp_all add: E_def)
  have off: "\<bar>v / U - of_int n\<bar> = \<bar>v - x\<bar> / U" if "0 < U" "x = of_int n * U" for U n
  proof -
    have "v / U - of_int n = (v - x) / U" using that by (simp add: field_simps)
    then show ?thesis using that(1) by (simp add: abs_divide)
  qed
  have same: "round_pos v = x" if "ulp v = ulp x"
  proof -
    have "\<bar>v / ulp x - of_int m\<bar> = \<bar>v - x\<bar> / ulp x" by (rule off [OF upos assms(3)])
    also have "\<dots> < 1 / 2" using assms(4) upos by (simp add: field_simps)
    finally have "round_half_even (v / ulp x) = m" by (rule round_half_even_near)
    then show ?thesis using assms(3) that by (simp add: round_pos_def)
  qed
  have m53: "m \<le> 2 ^ 53 - 1"
  proof -
    have "of_int m * ulp x < 2 ^ 53 * ulp x" using assms(3) ulp_bounds(2) [OF assms(1)] by simp
    then have "(of_int m :: rat) < of_int (2 ^ 53)" using upos by simp
    then show ?thesis by (simp only: of_int_less_iff)
  qed
  have hi: "v < 2 powi (E + 53)"
  proof -
    have "(of_int m :: rat) \<le> of_int (2 ^ 53 - 1)" using m53 by (simp only: of_int_le_iff)
    then have "of_int m * ulp x \<le> of_int (2 ^ 53 - 1) * ulp x" using upos by (intro mult_right_mono) (simp_all add: less_imp_le)
    then have "of_int m * ulp x \<le> 9007199254740991 * ulp x" by simp
    then have "x \<le> 9007199254740991 * ulp x" using assms(3) by linarith
    then have "v < 9007199254740992 * ulp x" using assms(4) upos by linarith
    then show ?thesis by (simp add: u power_int_add mult.commute)
  qed
  then have l: "ilog2 v \<le> E + 52"
    using ilog2_spec [OF assms(2)] powi2_less_iff [of "ilog2 v" "E + 53"] by linarith
  show ?thesis
  proof (cases "ilog2 x \<le> ilog2 v \<or> E = - 1074")
    case True
    then have "ulp v = ulp x" using l by (auto simp: ulp_def E_def max_def)
    then show ?thesis by (rule same)
  next
    case False
    then have E: "E = ilog2 x - 52" by (auto simp: E_def max_def)
    have below: "v < 2 powi (ilog2 x)"
    proof -
      have "v < 2 powi (ilog2 v + 1)" using ilog2_spec [OF assms(2)] by simp
      also have "(2 :: rat) powi (ilog2 v + 1) \<le> 2 powi (ilog2 x)" using False by (simp only: powi2_le_iff) simp
      finally show ?thesis .
    qed
    have "ulp x = 2 powi (ilog2 x - 52)" unfolding u E ..
    then have p: "(2 :: rat) powi (ilog2 x) = 2 ^ 52 * ulp x" by (simp add: power_int_diff)
    have lo: "2 powi (ilog2 x) \<le> x" using ilog2_spec [OF assms(1)] by simp
    have "m = 2 ^ 52"
    proof -
      have "2 ^ 52 * ulp x \<le> of_int m * ulp x" using lo p assms(3) by simp
      then have "(of_int (2 ^ 52) :: rat) \<le> of_int m" using upos by simp
      then have "2 ^ 52 \<le> m" by (simp only: of_int_le_iff)
      moreover have "v < 4503599627370496 * ulp x" using below p by simp
      then have "x < (4503599627370496 + 1 / 2) * ulp x" unfolding distrib_right using assms(4) by linarith
      then have "of_int m * ulp x < (4503599627370496 + 1 / 2) * ulp x" unfolding assms(3) [symmetric] .
      then have "(of_int m :: rat) < 4503599627370496 + 1 / 2" using upos by simp
      then have "m < 4503599627370497" by linarith
      ultimately show ?thesis by simp
    qed
    then have x: "x = 2 powi (ilog2 x)" using p assms(3) by simp
    have q: "\<bar>v - x\<bar> < ulp x / 4" by (rule assms(5) [OF x])
    have "2 powi (ilog2 x - 1) \<le> v"
    proof -
      have "(2 :: rat) powi (ilog2 x - 1) = x / 2" using x by (simp add: power_int_diff)
      moreover have "x = 4503599627370496 * ulp x" using x p by simp
      then have "x / 2 \<le> x - ulp x / 4" using upos by linarith
      ultimately show ?thesis using q by linarith
    qed
    then have "ilog2 x - 1 \<le> ilog2 v"
      using ilog2_spec [OF assms(2)] powi2_less_iff [of "ilog2 x - 1" "ilog2 v + 1"] by linarith
    then have iv: "ilog2 v = ilog2 x - 1" using False by simp
    have "- 1074 < ilog2 x - 52" using False by (auto simp: E_def)
    then have "max (ilog2 v - 52) (- 1074) = E - 1" unfolding iv E by simp
    then have uv: "ulp v = ulp x / 2" by (simp add: ulp_def [of v] u power_int_diff)
    have "\<bar>v / ulp v - of_int (2 * m)\<bar> = \<bar>v - x\<bar> / ulp v"
      using assms(3) upos by (intro off) (simp_all add: uv)
    also have "\<dots> < 1 / 2" using q upos by (simp add: uv field_simps)
    finally have "round_half_even (v / ulp v) = 2 * m" by (rule round_half_even_near)
    then show ?thesis using assms(3) by (simp add: round_pos_def uv)
  qed
qed

lemma f64_same_round:
  assumes "0 < x" "0 < v" "f64 x = Fin x" "round_pos v = x"
  shows "f64 v = Fin x"
proof -
  have "round_rat x = x" using assms(3) by (simp add: f64_def Let_def split: if_splits)
  then show ?thesis using assms by (simp add: f64_def Let_def round_rat_def split: if_splits)
qed

lemma digits_17:
  assumes "0 < x" "f64 x = Fin x"
  shows "digits_at x 17 \<noteq> None"
proof -
  define k where "k = ilog10 x - 16"
  define y where "y = x / 10 powi k"
  define d where "d = round_half_even y"
  define v where "v = of_int d * (10 :: rat) powi k"
  have pk: "(0 :: rat) < 10 powi k" by simp
  have xk: "10 powi k * 10 ^ 16 \<le> x"
  proof -
    have "(10 :: rat) powi k * 10 ^ 16 = 10 powi (ilog10 x)" by (simp add: k_def power_int_diff)
    then show ?thesis using ilog10_spec [OF assms(1)] by simp
  qed
  have y: "10 ^ 16 \<le> y" "x = y * 10 powi k" using xk pk by (simp_all add: y_def field_simps)
  have "of_int d \<ge> y - 1 / 2" using round_half_even_close [of y] unfolding d_def by linarith
  moreover have "1 \<le> y" using y(1) by simp
  ultimately have dpos: "0 < (of_int d :: rat)" by linarith
  then have v: "0 < v" by (simp add: v_def)
  have "v - x = (of_int d - y) * 10 powi k" by (simp add: v_def y(2) algebra_simps)
  then have "\<bar>v - x\<bar> = \<bar>of_int d - y\<bar> * 10 powi k" using pk by (simp add: abs_mult)
  also have "\<dots> \<le> 1 / 2 * 10 powi k" unfolding d_def by (intro mult_right_mono round_half_even_close) (simp add: less_imp_le)
  finally have err: "\<bar>v - x\<bar> \<le> 10 powi k / 2" by simp
  have rr: "round_pos x = x" using assms by (simp add: f64_def Let_def round_rat_def split: if_splits)
  define m where "m = round_half_even (x / ulp x)"
  have m: "x = of_int m * ulp x" using rr unfolding round_pos_def m_def by simp
  have upos: "0 < ulp x" by simp
  have "x < 2 ^ 53 * ulp x" by (rule ulp_bounds(2) [OF assms(1)])
  then have "10 powi k * 10000000000000000 < 9007199254740992 * ulp x" using xk by simp
  then have half: "\<bar>v - x\<bar> < ulp x / 2" using err upos by linarith
  have "\<bar>v - x\<bar> < ulp x / 4" if p: "x = 2 powi (ilog2 x)"
  proof -
    have "(2 :: rat) powi (ilog2 x) \<le> 2 powi (52 + max (ilog2 x - 52) (- 1074))" by (simp add: powi2_le_iff)
    then have "x \<le> 2 ^ 52 * ulp x" using p ulp_bounds(1) [OF assms(1)] by (simp add: power_int_add)
    then have "10 powi k * 10000000000000000 \<le> 4503599627370496 * ulp x" using xk by simp
    then show ?thesis using err upos by linarith
  qed
  then have "round_pos v = x" using round_pos_near [OF assms(1) v m half] by blast
  then have "reads_as x d k" using f64_same_round [OF assms(1) v assms(2)] by (simp add: reads_as_def v_def)
  then show ?thesis by (simp add: digits_at_def Let_def k_def [symmetric] y_def [symmetric] d_def [symmetric])
qed

lemma shortest_exists:
  assumes "0 < x" "f64 x = Fin x"
  obtains d k where "shortest x = Some (d, k)" "f64 (of_int d * 10 powi k) = Fin x"
proof -
  have "17 \<in> set [1..17 :: int]" by simp
  then have "shortest x \<noteq> None" unfolding shortest_def using first_digits_exists digits_17 [OF assms] by blast
  then obtain d k where "shortest x = Some (d, k)" by auto
  with shortest_reads that show thesis by blast
qed

subsection \<open>Text\<close>

text \<open>
  The digits without trailing zeros and the position of the decimal point: the value is \<open>0.\<close> followed by the
  digits, times ten to the position.
\<close>

definition trim_zeros :: "string \<Rightarrow> string" where
  "trim_zeros s = rev (dropWhile (\<lambda>c. c = CHR ''0'') (rev s))"

definition fixed_text :: "string \<Rightarrow> int \<Rightarrow> string" where
  "fixed_text ds dp =
     (if dp \<le> 0 then ''0.'' @ replicate (nat (- dp)) (CHR ''0'') @ ds
      else if int (length ds) \<le> dp then ds @ replicate (nat dp - length ds) (CHR ''0'')
      else take (nat dp) ds @ CHR ''.'' # drop (nat dp) ds)"

text \<open>\<open>%e\<close> with a two-digit exponent at least, from which the encoder removes one leading zero of a negative one.\<close>

definition exp_text :: "string \<Rightarrow> int \<Rightarrow> string" where
  "exp_text ds dp =
     (let e = dp - 1
      in hd ds # (if tl ds = [] then [] else CHR ''.'' # tl ds) @ CHR ''e'' # (if e < 0 then CHR ''-'' else CHR ''+'') #
         uint_digits \<bar>e\<bar>)"

text \<open>An encoded float has an exponent only below -6 or from 21, where no zero is added to a positive one.\<close>

definition pos_float_text :: "rat \<Rightarrow> string" where
  "pos_float_text x =
     (case shortest x of
        None \<Rightarrow> ''0''
      | Some (d, k) \<Rightarrow>
          (let ds = trim_zeros (uint_digits d); dp = int (length (uint_digits d)) + k
           in if f_lt (Fin x) (f64 (1 / 1000000)) \<or> 10 ^ 21 \<le> x then exp_text ds dp else fixed_text ds dp))"

definition float_text :: "rat \<Rightarrow> string" where
  "float_text x = (if x = 0 then ''0'' else if x < 0 then CHR ''-'' # pos_float_text (- x) else pos_float_text x)"


subsection \<open>Reading a number\<close>

text \<open>
  A JSON number: an optional minus sign, an integer without leading zeros, a fraction, an exponent.
  Its value is the exact decimal.
\<close>

definition json_exponent :: "string \<Rightarrow> int option" where
  "json_exponent s =
     (case s of [] \<Rightarrow> Some 0
      | c # cs \<Rightarrow>
          if c = CHR ''e'' \<or> c = CHR ''E'' then
            (let (neg, ds) = strip_sign cs
             in if ds \<noteq> [] \<and> list_all is_digit ds
                then Some (if neg then - digits_val 0 ds else digits_val 0 ds) else None)
          else None)"

definition json_unsigned :: "string \<Rightarrow> rat option" where
  "json_unsigned s =
     (let ip = takeWhile is_digit s; r = dropWhile is_digit s;
          dot = (r \<noteq> [] \<and> hd r = CHR ''.'');
          fp = (if dot then takeWhile is_digit (tl r) else []);
          r2 = (if dot then dropWhile is_digit (tl r) else r)
      in if ip = [] \<or> hd ip = CHR ''0'' \<and> ip \<noteq> ''0'' \<or> dot \<and> fp = [] then None
         else map_option (\<lambda>e. of_int (digits_val 0 (ip @ fp)) * 10 powi (e - int (length fp))) (json_exponent r2))"

definition json_number :: "string \<Rightarrow> rat option" where
  "json_number s =
     (if s \<noteq> [] \<and> hd s = CHR ''-'' then map_option uminus (json_unsigned (tl s)) else json_unsigned s)"

definition no_digit :: "string \<Rightarrow> bool" where
  "no_digit s \<longleftrightarrow> s = [] \<or> \<not> is_digit (hd s)"

lemma takeWhile_digits:
  assumes "list_all is_digit a" "no_digit b"
  shows "takeWhile is_digit (a @ b) = a" "dropWhile is_digit (a @ b) = b"
proof -
  have d: "dropWhile is_digit b = b" using assms(2) by (cases b) (auto simp: no_digit_def)
  have "\<And>x. x \<in> set a \<Longrightarrow> is_digit x" using assms(1) by (simp add: list_all_iff)
  then show "dropWhile is_digit (a @ b) = b" by (simp add: dropWhile_append2 d)
  have "takeWhile is_digit b = []" using assms(2) by (cases b) (auto simp: no_digit_def)
  then show "takeWhile is_digit (a @ b) = a" using \<open>\<And>x. x \<in> set a \<Longrightarrow> is_digit x\<close> by (simp add: takeWhile_append2)
qed

lemma digits_val_zeros: "digits_val n (replicate k (CHR ''0'')) = n * 10 ^ k"
  by (induction k arbitrary: n) (simp_all add: digit_val_def)

lemma is_digit_zero [simp]: "is_digit (CHR ''0'')"
  by (simp add: is_digit_def)

lemma not_digits [simp]: "\<not> is_digit (CHR ''.'')" "\<not> is_digit (CHR ''e'')" "\<not> is_digit (CHR ''-'')" "\<not> is_digit (CHR ''+'')"
  by (simp_all add: is_digit_def)

lemma json_unsigned_parts:
  assumes "list_all is_digit ip" "ip \<noteq> []" "hd ip \<noteq> CHR ''0'' \<or> ip = ''0''" "list_all is_digit fp"
    "no_digit r" "r = [] \<or> hd r \<noteq> CHR ''.''" "json_exponent r = Some e"
  shows "json_unsigned (ip @ (if fp = [] then [] else CHR ''.'' # fp) @ r) =
    Some (of_int (digits_val 0 (ip @ fp)) * 10 powi (e - int (length fp)))"
proof (cases "fp = []")
  case True
  then show ?thesis
    using assms takeWhile_digits [OF assms(1,5)] by (auto simp: json_unsigned_def Let_def)
next
  case False
  have "no_digit (CHR ''.'' # fp @ r)" by (simp add: no_digit_def)
  note t = takeWhile_digits [OF assms(1) this] takeWhile_digits [OF assms(4,5)]
  show ?thesis using assms(2,3,7) False by (auto simp: json_unsigned_def Let_def t)
qed

lemma digits_val_append_zero: "digits_val 0 (CHR ''0'' # s) = digits_val 0 s"
  by (simp add: digit_val_def)

lemma fixed_text_value:
  assumes "list_all is_digit ds" "ds \<noteq> []" "hd ds \<noteq> CHR ''0''"
  shows "json_unsigned (fixed_text ds dp) = Some (of_int (digits_val 0 ds) * 10 powi (dp - int (length ds)))"
proof -
  consider "dp \<le> 0" | "0 < dp" "int (length ds) \<le> dp" | "0 < dp" "dp < int (length ds)" by linarith
  then show ?thesis
  proof cases
    case 1
    let ?z = "replicate (nat (- dp)) (CHR ''0'')"
    have "list_all is_digit (?z @ ds)" using assms(1) by (auto simp: list_all_iff)
    moreover have "digits_val 0 (''0'' @ ?z @ ds) = digits_val 0 ds"
      by (simp only: digits_val_simps digits_val_zeros) (simp add: digit_val_def digits_val_zeros)
    ultimately show ?thesis
      using json_unsigned_parts [of "''0''" "?z @ ds" "[]" 0] assms(2) 1
      by (simp add: fixed_text_def no_digit_def json_exponent_def algebra_simps)
  next
    case 2
    define n where "n = nat dp - length ds"
    let ?z = "replicate n (CHR ''0'')"
    have "list_all is_digit (ds @ ?z)" using assms(1) by (auto simp: list_all_iff)
    moreover have "digits_val 0 (ds @ ?z) = digits_val 0 ds * 10 ^ n" by (simp add: digits_val_zeros)
    moreover have "dp - int (length ds) = int n" using 2 by (simp add: n_def)
    moreover have "fixed_text ds dp = ds @ ?z" using 2 assms(2) by (simp add: fixed_text_def n_def)
    moreover have "hd (ds @ ?z) \<noteq> CHR ''0''" using assms(2,3) by simp
    ultimately show ?thesis
      using json_unsigned_parts [of "ds @ ?z" "[]" "[]" 0] assms(2)
      by (simp add: no_digit_def json_exponent_def)
  next
    case 3
    define n where "n = nat dp"
    have n: "0 < n" "n < length ds" "dp = int n" using 3 by (simp_all add: n_def)
    have "list_all is_digit (take n ds)" "list_all is_digit (drop n ds)"
      using assms(1) by (metis append_take_drop_id list_all_append)+
    moreover have "take n ds \<noteq> []" "hd (take n ds) = hd ds" "drop n ds \<noteq> []" using n assms(2) by auto
    moreover have "fixed_text ds dp = take n ds @ CHR ''.'' # drop n ds" using n by (simp add: fixed_text_def)
    ultimately show ?thesis
      using json_unsigned_parts [of "take n ds" "drop n ds" "[]" 0] assms(3) n
      by (simp add: no_digit_def json_exponent_def of_nat_diff algebra_simps del: digits_val_simps(3))
  qed
qed

lemma exp_text_value:
  assumes "list_all is_digit ds" "ds \<noteq> []" "hd ds \<noteq> CHR ''0''"
  shows "json_unsigned (exp_text ds dp) = Some (of_int (digits_val 0 ds) * 10 powi (dp - int (length ds)))"
proof -
  define e where "e = dp - 1"
  define r where "r = CHR ''e'' # (if e < 0 then CHR ''-'' else CHR ''+'') # uint_digits \<bar>e\<bar>"
  obtain c cs where ds: "ds = c # cs" using assms(2) by (cases ds) auto
  have "json_exponent r = Some e"
    by (simp add: r_def json_exponent_def strip_sign_def uint_digits_all digits_val_uint_digits)
  then have "json_unsigned ([c] @ (if cs = [] then [] else CHR ''.'' # cs) @ r) =
      Some (of_int (digits_val 0 ([c] @ cs)) * 10 powi (e - int (length cs)))"
    using assms ds by (intro json_unsigned_parts) (simp_all add: r_def no_digit_def)
  moreover have "e - int (length cs) = dp - int (length ds)" by (simp add: e_def ds)
  moreover have "exp_text ds dp = [c] @ (if cs = [] then [] else CHR ''.'' # cs) @ r"
    by (simp add: exp_text_def Let_def ds r_def e_def)
  moreover have "digits_val 0 ([c] @ cs) = digits_val 0 ds" by (simp add: ds)
  ultimately show ?thesis by (simp only:)
qed

lemma trim_zeros_split: "\<exists>n. s = trim_zeros s @ replicate n (CHR ''0'')"
proof -
  have "rev s = takeWhile (\<lambda>c. c = CHR ''0'') (rev s) @ dropWhile (\<lambda>c. c = CHR ''0'') (rev s)" by simp
  moreover have "takeWhile (\<lambda>c. c = CHR ''0'') (rev s) = replicate (length (takeWhile (\<lambda>c. c = CHR ''0'') (rev s))) (CHR ''0'')"
    by (rule replicate_eqI) (auto dest: set_takeWhileD)
  ultimately have "s = rev (dropWhile (\<lambda>c. c = CHR ''0'') (rev s)) @ rev (replicate (length (takeWhile (\<lambda>c. c = CHR ''0'') (rev s))) (CHR ''0''))"
    by (metis rev_append rev_rev_ident)
  then show ?thesis unfolding trim_zeros_def by (metis rev_replicate)
qed

lemma uint_digits_hd_zero: "1 \<le> n \<Longrightarrow> hd (uint_digits n) \<noteq> CHR ''0''"
proof (induction n rule: uint_digits.induct)
  case (1 n)
  show ?case
  proof (cases "n < 10")
    case True
    then have "digit_val (digit_char n) = n" using "1.prems" by simp
    then have "digit_char n \<noteq> CHR ''0''" using "1.prems" by (auto simp: digit_val_def)
    then show ?thesis using True by (subst uint_digits.simps) simp
  next
    case False
    then show ?thesis using "1.IH" by (subst uint_digits.simps) simp
  qed
qed

lemma pos_float_text_number:
  assumes "0 < x" "f64 x = Fin x"
  shows "\<exists>v. json_unsigned (pos_float_text x) = Some v \<and> f64 v = Fin x"
proof -
  obtain d k where s: "shortest x = Some (d, k)" "f64 (of_int d * 10 powi k) = Fin x"
    using shortest_exists [OF assms] .
  have "f64 0 = Fin 0" by (simp add: f64_def round_rat_def max_finite_def)
  then have "d \<noteq> 0" using s(2) assms(1) by auto
  moreover have "0 \<le> d"
  proof (rule ccontr)
    assume "\<not> 0 \<le> d"
    then have "(of_int d * 10 powi k :: rat) \<le> 0" by (simp add: mult_nonpos_nonneg less_imp_le)
    then have "round_rat (of_int d * 10 powi k) \<le> round_rat 0" by (rule round_rat_mono)
    moreover have "round_rat (of_int d * 10 powi k) = x" using s(2) by (simp add: f64_def Let_def split: if_splits)
    ultimately show False using assms(1) by (simp add: round_rat_def)
  qed
  ultimately have d: "1 \<le> d" by simp
  define u where "u = uint_digits d"
  define t where "t = trim_zeros u"
  have u: "list_all is_digit u" "digits_val 0 u = d" "u \<noteq> []" "hd u \<noteq> CHR ''0''"
    using d by (simp_all add: u_def uint_digits_all digits_val_uint_digits uint_digits_hd_zero)
  obtain n where n: "u = t @ replicate n (CHR ''0'')" using trim_zeros_split [of u] unfolding t_def by blast
  have t: "list_all is_digit t" "t \<noteq> []" "hd t \<noteq> CHR ''0''"
    using u n by (auto simp: hd_append split: if_splits)
  have "of_int (digits_val 0 t) * 10 powi (int (length u) + k - int (length t)) = (of_int d * 10 powi k :: rat)"
  proof -
    have "d = digits_val 0 t * 10 ^ n" using u(2) unfolding n by (simp add: digits_val_zeros)
    then have "(of_int d :: rat) = of_int (digits_val 0 t) * 10 powi int n" by simp
    moreover have e: "int (length u) + k - int (length t) = int n + k" using n by simp
    ultimately show ?thesis unfolding e by (simp add: power_int_add)
  qed
  then have "json_unsigned (pos_float_text x) = Some (of_int d * 10 powi k)"
    using fixed_text_value [OF t, of "int (length u) + k"] exp_text_value [OF t, of "int (length u) + k"]
    by (simp add: pos_float_text_def s(1) Let_def u_def [symmetric] t_def [symmetric])
  then show ?thesis using s(2) by blast
qed

text \<open>What is written for a float is a JSON number and reads back to it.\<close>

lemma json_unsigned_zero: "json_unsigned ''0'' = Some 0"
  by (simp add: json_unsigned_def json_exponent_def digit_val_def)

lemma json_unsigned_minus: "json_unsigned (CHR ''-'' # s) = None"
  by (simp add: json_unsigned_def)

lemma float_text_number:
  assumes "f64 x = Fin x"
  obtains v where "json_number (float_text x) = Some v" "f64 v = Fin x"
proof -
  have pos: "json_number s = json_unsigned s" if "json_unsigned s = Some v" for s v
    using that by (cases s) (auto simp: json_number_def json_unsigned_minus)
  consider "x = 0" | "0 < x" | "x < 0" by linarith
  then show thesis
  proof cases
    case 1
    then show ?thesis using that [of 0] assms pos [OF json_unsigned_zero] by (simp add: float_text_def json_unsigned_zero)
  next
    case 2
    then obtain v where "json_unsigned (pos_float_text x) = Some v" "f64 v = Fin x" using pos_float_text_number assms by blast
    then show ?thesis using that 2 pos by (simp add: float_text_def)
  next
    case 3
    have neg: "f64 (- y) = Fin (- z)" if "f64 y = Fin z" for y z
      using that by (auto simp: f64_def Let_def round_rat_neg split: if_splits)
    obtain v where v: "json_unsigned (pos_float_text (- x)) = Some v" "f64 v = Fin (- x)"
      using pos_float_text_number [of "- x"] neg [OF assms] 3 by auto
    show ?thesis using that [of "- v"] neg [OF v(2)] v(1) 3 by (simp add: float_text_def json_number_def)
  qed
qed

end
