(* ===== verification/Go_Json_Text.thy ===== *)
theory Go_Json_Text
  imports Go_Ftoa Go_Utf8
begin

text \<open>
  JSON as bytes: the text \<open>json.Marshal\<close> and \<open>json.MarshalIndent\<close> write for a value, and the scanner of
  \<open>json.Unmarshal\<close>, which takes the whole text or nothing. Integers below 2^64 are written with
  all their digits and other numbers as floats, so the text of a float between 2^53 and 2^64 that is an integer
  is more exact here than Go's. A string of a tree is valid UTF-8 already, which is where the encoder would
  write the escape of the replacement character.
\<close>

subsection \<open>Strings\<close>

definition hex4 :: "nat \<Rightarrow> string" where
  "hex4 n = [hex_digit (n div 4096 mod 16), hex_digit (n div 256 mod 16), hex_digit (n div 16 mod 16), hex_digit (n mod 16)]"

definition unicode_escape :: "nat \<Rightarrow> string" where
  "unicode_escape n = CHR 0x5C # CHR ''u'' # hex4 n"

text \<open>\<open>appendString\<close> with HTML escaping, on one byte below 128.\<close>

definition escape_char :: "char \<Rightarrow> string" where
  "escape_char c =
     (if c = CHR 0x22 \<or> c = CHR 0x5C then [CHR 0x5C, c]
      else if c = CHR 0x08 then [CHR 0x5C, CHR ''b'']
      else if c = CHR 0x0C then [CHR 0x5C, CHR ''f'']
      else if c = CHR 0x0A then [CHR 0x5C, CHR ''n'']
      else if c = CHR 0x0D then [CHR 0x5C, CHR ''r'']
      else if c = CHR 0x09 then [CHR 0x5C, CHR ''t'']
      else if (of_char c :: nat) < 32 \<or> c = CHR ''<'' \<or> c = CHR ''>'' \<or> c = CHR ''&'' then unicode_escape (of_char c)
      else [c])"

text \<open>The line and paragraph separators U+2028 and U+2029 are escaped too.\<close>

fun escape_string :: "string \<Rightarrow> string" where
  "escape_string [] = []"
| "escape_string [a] = escape_char a"
| "escape_string [a, b] = escape_char a @ escape_char b"
| "escape_string (a # b # c # s) =
     (if a = CHR 0xE2 \<and> b = CHR 0x80 \<and> c = CHR 0xA8 then unicode_escape 0x2028 @ escape_string s
      else if a = CHR 0xE2 \<and> b = CHR 0x80 \<and> c = CHR 0xA9 then unicode_escape 0x2029 @ escape_string s
      else escape_char a @ escape_string (b # c # s))"

definition quote_json :: "string \<Rightarrow> string" where
  "quote_json s = CHR 0x22 # escape_string s @ [CHR 0x22]"

text \<open>Reading: bytes and \<open>\u\<close> escapes up to the closing quote.\<close>

datatype piece = Raw char | Esc nat

definition hex_value :: "char \<Rightarrow> nat option" where
  "hex_value c =
     (let n = of_char c :: nat
      in if 48 \<le> n \<and> n \<le> 57 then Some (n - 48) else if 97 \<le> n \<and> n \<le> 102 then Some (n - 87)
         else if 65 \<le> n \<and> n \<le> 70 then Some (n - 55) else None)"

definition hex4_value :: "char \<Rightarrow> char \<Rightarrow> char \<Rightarrow> char \<Rightarrow> nat option" where
  "hex4_value a b c d =
     (case (hex_value a, hex_value b, hex_value c, hex_value d) of
        (Some w, Some x, Some y, Some z) \<Rightarrow> Some (((w * 16 + x) * 16 + y) * 16 + z)
      | _ \<Rightarrow> None)"

definition simple_escape :: "char \<Rightarrow> char option" where
  "simple_escape e =
     (if e = CHR 0x22 \<or> e = CHR 0x5C \<or> e = CHR ''/'' then Some e
      else if e = CHR ''b'' then Some (CHR 0x08) else if e = CHR ''f'' then Some (CHR 0x0C)
      else if e = CHR ''n'' then Some (CHR 0x0A) else if e = CHR ''r'' then Some (CHR 0x0D)
      else if e = CHR ''t'' then Some (CHR 0x09) else None)"

definition push_piece :: "piece \<Rightarrow> (piece list \<times> string) option \<Rightarrow> (piece list \<times> string) option" where
  "push_piece p r = map_option (\<lambda>(ps, s). (p # ps, s)) r"

text \<open>What follows a backslash.\<close>

fun scan_escape :: "string \<Rightarrow> (piece \<times> string) option" where
  "scan_escape [] = None"
| "scan_escape (e # r) =
     (if e = CHR ''u'' then
        (case r of
           w # x # y # z # q \<Rightarrow> map_option (\<lambda>n. (Esc n, q)) (hex4_value w x y z)
         | _ \<Rightarrow> None)
      else map_option (\<lambda>v. (Raw v, r)) (simple_escape e))"

lemma scan_escape_shorter: "scan_escape s = Some (p, q) \<Longrightarrow> length q < length s"
  by (cases s) (auto split: list.splits if_splits)

function scan_string :: "string \<Rightarrow> (piece list \<times> string) option" where
  "scan_string [] = None"
| "scan_string (c # s) =
     (if c = CHR 0x22 then Some ([], s)
      else if (of_char c :: nat) < 32 then None
      else if c \<noteq> CHR 0x5C then push_piece (Raw c) (scan_string s)
      else (case scan_escape s of None \<Rightarrow> None | Some (p, q) \<Rightarrow> push_piece p (scan_string q)))"
  by pat_completeness auto
termination by (relation "measure length") (auto dest: scan_escape_shorter)

declare scan_escape.simps [simp del] scan_string.simps(2) [simp del]

lemma scan_string_simps [simp]:
  "scan_string (CHR 0x22 # s) = Some ([], s)"
  "scan_string (CHR 0x5C # s) = (case scan_escape s of None \<Rightarrow> None | Some (p, q) \<Rightarrow> push_piece p (scan_string q))"
  "c \<noteq> CHR 0x22 \<Longrightarrow> c \<noteq> CHR 0x5C \<Longrightarrow> 32 \<le> (of_char c :: nat) \<Longrightarrow> scan_string (c # s) = push_piece (Raw c) (scan_string s)"
  by (simp_all add: scan_string.simps(2))

text \<open>UTF-8 of a code point, and of the escapes: a surrogate pair is one, a lone surrogate the replacement character.\<close>

definition utf8_bytes :: "nat \<Rightarrow> nat list" where
  "utf8_bytes n =
     (if n < 0x80 then [n]
      else if n < 0x800 then [0xC0 + n div 64, 0x80 + n mod 64]
      else if n < 0x10000 then [0xE0 + n div 4096, 0x80 + n div 64 mod 64, 0x80 + n mod 64]
      else [0xF0 + n div 262144, 0x80 + n div 4096 mod 64, 0x80 + n div 64 mod 64, 0x80 + n mod 64])"

definition code_point :: "nat \<Rightarrow> string" where
  "code_point n = map char_of (utf8_bytes n)"

definition surrogate :: "nat \<Rightarrow> bool" where
  "surrogate n \<longleftrightarrow> 0xD800 \<le> n \<and> n < 0xE000"

fun join_pieces :: "piece list \<Rightarrow> string" where
  "join_pieces [] = []"
| "join_pieces (Raw c # ps) = c # join_pieces ps"
| "join_pieces (Esc h # Esc l # ps) =
     (if 0xD800 \<le> h \<and> h < 0xDC00 \<and> 0xDC00 \<le> l \<and> l < 0xE000
      then code_point (0x10000 + (h - 0xD800) * 1024 + (l - 0xDC00)) @ join_pieces ps
      else code_point (if surrogate h then 0xFFFD else h) @ join_pieces (Esc l # ps))"
| "join_pieces (Esc h # ps) = code_point (if surrogate h then 0xFFFD else h) @ join_pieces ps"

definition unquoted :: "piece list \<Rightarrow> string" where
  "unquoted ps = json_string (join_pieces ps)"

lemma push_piece_Some: "push_piece p x = Some (ps, r) \<longleftrightarrow> (\<exists>qs. ps = p # qs \<and> x = Some (qs, r))"
  by (auto simp: push_piece_def)

lemma scan_string_shorter: "scan_string s = Some (ps, r) \<Longrightarrow> length r < length s"
proof (induction s arbitrary: ps rule: scan_string.induct)
  case (2 c s)
  consider "c = CHR 0x22" | "c \<noteq> CHR 0x22" "\<not> (of_char c :: nat) < 32" "c \<noteq> CHR 0x5C"
    | p q where "c = CHR 0x5C" "scan_escape s = Some (p, q)"
    using "2.prems" unfolding scan_string.simps(2) [of c s] by (auto split: if_splits option.splits)
  then show ?case
  proof cases
    case 1
    then show ?thesis using "2.prems" by simp
  next
    case 2
    then show ?thesis using "2.prems" "2.IH"(1) by (force simp: push_piece_Some)
  next
    case 3
    then show ?thesis using "2.prems" "2.IH"(2) scan_escape_shorter [OF 3(2)] by (force simp: push_piece_Some)
  qed
qed simp

subsection \<open>Tokens\<close>

datatype token = TOpenArr | TCloseArr | TOpenObj | TCloseObj | TComma | TColon | TNull | TBool bool | TNum rat | TStr string

definition json_space :: "char \<Rightarrow> bool" where
  "json_space c \<longleftrightarrow> c = CHR '' '' \<or> c = CHR 0x09 \<or> c = CHR 0x0A \<or> c = CHR 0x0D"

definition number_char :: "char \<Rightarrow> bool" where
  "number_char c \<longleftrightarrow> is_digit c \<or> c = CHR ''-'' \<or> c = CHR ''+'' \<or> c = CHR ''.'' \<or> c = CHR ''e'' \<or> c = CHR ''E''"

definition punctuation :: "char \<Rightarrow> token option" where
  "punctuation c =
     (if c = CHR ''['' then Some TOpenArr else if c = CHR '']'' then Some TCloseArr
      else if c = CHR ''{'' then Some TOpenObj else if c = CHR ''}'' then Some TCloseObj
      else if c = CHR '','' then Some TComma else if c = CHR '':'' then Some TColon else None)"

text \<open>The first token and the rest of the text.\<close>

definition next_token :: "string \<Rightarrow> (token \<times> string) option" where
  "next_token s =
     (if punctuation (hd s) \<noteq> None then Some (the (punctuation (hd s)), tl s)
      else if hd s = CHR 0x22 then map_option (\<lambda>(ps, r). (TStr (unquoted ps), r)) (scan_string (tl s))
      else if has_prefix s ''null'' then Some (TNull, drop 4 s)
      else if has_prefix s ''true'' then Some (TBool True, drop 4 s)
      else if has_prefix s ''false'' then Some (TBool False, drop 5 s)
      else if number_char (hd s)
      then map_option (\<lambda>r. (TNum r, dropWhile number_char s)) (json_number (takeWhile number_char s))
      else None)"

lemma next_token_shorter: "s \<noteq> [] \<Longrightarrow> next_token s = Some (t, r) \<Longrightarrow> length r < length s"
proof -
  assume s: "s \<noteq> []" and t: "next_token s = Some (t, r)"
  obtain c q where q: "s = c # q" using s by (cases s) auto
  have "length (dropWhile number_char q) \<le> length q" by (rule length_dropWhile_le)
  then show ?thesis
    using t by (auto simp: q next_token_def split: if_splits dest: scan_string_shorter)
qed

definition before :: "token list \<Rightarrow> token list option \<Rightarrow> token list option" where
  "before ts x = map_option ((@) ts) x"

lemma before_simps [simp]: "before a (before b x) = before (a @ b) x" "before [] x = x"
    "before ts (Some us) = Some (ts @ us)" "before ts None = None"
  by (cases x; simp add: before_def)+

function lex_json :: "string \<Rightarrow> token list option" where
  "lex_json [] = Some []"
| "lex_json (c # s) =
     (if json_space c then lex_json s
      else (case next_token (c # s) of None \<Rightarrow> None | Some (t, r) \<Rightarrow> before [t] (lex_json r)))"
  by pat_completeness auto
termination by (relation "measure length") (auto dest: next_token_shorter [rotated])

declare lex_json.simps(2) [simp del]

subsection \<open>Values\<close>

text \<open>
  The parser is a stack machine, as the scanner of encoding/json is: a frame is an array or an object that
  is open, with its elements in reverse and, for an object, the key whose value is awaited.
\<close>

datatype frame = FArr "json list" | FObj "(string \<times> json) list" string

datatype mode = MValue | MFirst | MFirstKey | MKey | MColon | MNext | MDone json

fun give :: "json \<Rightarrow> frame list \<Rightarrow> frame list \<times> mode" where
  "give j [] = ([], MDone j)"
| "give j (FArr js # fs) = (FArr (j # js) # fs, MNext)"
| "give j (FObj kvs k # fs) = (FObj ((k, j) # kvs) [] # fs, MNext)"

definition max_depth :: nat where "max_depth = 10000"

definition open_frame :: "frame \<Rightarrow> mode \<Rightarrow> frame list \<Rightarrow> (frame list \<times> mode) option" where
  "open_frame f m fs = (if length fs < max_depth then Some (f # fs, m) else None)"

fun start_value :: "token \<Rightarrow> frame list \<Rightarrow> (frame list \<times> mode) option" where
  "start_value TNull fs = Some (give JNull fs)"
| "start_value (TBool b) fs = Some (give (JBool b) fs)"
| "start_value (TNum r) fs = Some (give (JNum r) fs)"
| "start_value (TStr s) fs = Some (give (JStr s) fs)"
| "start_value TOpenArr fs = open_frame (FArr []) MFirst fs"
| "start_value TOpenObj fs = open_frame (FObj [] []) MFirstKey fs"
| "start_value _ fs = None"

definition take_key :: "token \<Rightarrow> frame list \<Rightarrow> (frame list \<times> mode) option" where
  "take_key t fs = (case (t, fs) of (TStr k, FObj kvs _ # fs') \<Rightarrow> Some (FObj kvs k # fs', MColon) | _ \<Rightarrow> None)"

definition close_frame :: "token \<Rightarrow> frame list \<Rightarrow> (frame list \<times> mode) option" where
  "close_frame t fs =
     (case (t, fs) of
        (TCloseArr, FArr js # fs') \<Rightarrow> Some (give (JArr (rev js)) fs')
      | (TCloseObj, FObj kvs _ # fs') \<Rightarrow> Some (give (JObj (rev kvs)) fs')
      | _ \<Rightarrow> None)"

definition after_value :: "token \<Rightarrow> frame list \<Rightarrow> (frame list \<times> mode) option" where
  "after_value t fs =
     (case (t, fs) of
        (TComma, FArr js # _) \<Rightarrow> Some (fs, MValue)
      | (TComma, FObj kvs _ # _) \<Rightarrow> Some (fs, MKey)
      | _ \<Rightarrow> close_frame t fs)"

definition parse_step :: "token \<Rightarrow> frame list \<times> mode \<Rightarrow> (frame list \<times> mode) option" where
  "parse_step t st =
     (case st of (fs, m) \<Rightarrow>
       (case m of
          MValue \<Rightarrow> start_value t fs
        | MFirst \<Rightarrow> if t = TCloseArr then close_frame t fs else start_value t fs
        | MFirstKey \<Rightarrow> if t = TCloseObj then close_frame t fs else take_key t fs
        | MKey \<Rightarrow> take_key t fs
        | MColon \<Rightarrow> if t = TColon then Some (fs, MValue) else None
        | MNext \<Rightarrow> after_value t fs
        | MDone j \<Rightarrow> None))"

fun parse_from :: "token list \<Rightarrow> frame list \<times> mode \<Rightarrow> json option" where
  "parse_from [] (fs, m) = (case m of MDone j \<Rightarrow> Some j | _ \<Rightarrow> None)"
| "parse_from (t # ts) st = (case parse_step t st of None \<Rightarrow> None | Some st' \<Rightarrow> parse_from ts st')"

definition parse_json :: "string \<Rightarrow> json option" where
  "parse_json s = (case lex_json s of None \<Rightarrow> None | Some ts \<Rightarrow> parse_from ts ([], MValue))"

subsection \<open>Writing\<close>

definition plain_int :: "rat \<Rightarrow> bool" where
  "plain_int r \<longleftrightarrow> of_int \<lfloor>r\<rfloor> = r \<and> \<bar>\<lfloor>r\<rfloor>\<bar> < 2 ^ 64"

definition number_text :: "rat \<Rightarrow> string" where
  "number_text r = (if plain_int r then itoa \<lfloor>r\<rfloor> else float_text r)"

fun json_text :: "json \<Rightarrow> string" where
  "json_text JNull = ''null''"
| "json_text (JBool b) = (if b then ''true'' else ''false'')"
| "json_text (JNum r) = number_text r"
| "json_text (JStr s) = quote_json s"
| "json_text (JArr js) = CHR ''['' # join '','' (map json_text js) @ '']''"
| "json_text (JObj kvs) = CHR ''{'' # join '','' (map (\<lambda>(k, v). quote_json k @ CHR '':'' # json_text v) kvs) @ ''}''"

text \<open>\<open>json.MarshalIndent\<close> with no prefix and an indentation of two spaces.\<close>

definition line_break :: "nat \<Rightarrow> string" where
  "line_break n = CHR 0x0A # replicate (2 * n) (CHR '' '')"

fun json_indent :: "nat \<Rightarrow> json \<Rightarrow> string" where
  "json_indent n (JArr js) =
     (if js = [] then ''[]''
      else CHR ''['' # line_break (Suc n) @ join (CHR '','' # line_break (Suc n)) (map (json_indent (Suc n)) js) @
        line_break n @ '']'')"
| "json_indent n (JObj kvs) =
     (if kvs = [] then ''{}''
      else CHR ''{'' # line_break (Suc n) @
        join (CHR '','' # line_break (Suc n)) (map (\<lambda>(k, v). quote_json k @ '': '' @ json_indent (Suc n) v) kvs) @
        line_break n @ ''}'')"
| "json_indent n j = json_text j"

subsection \<open>Reading undoes writing: strings\<close>

lemma hex_value_digit: "d < 16 \<Longrightarrow> hex_value (hex_digit d) = Some d"
  by (auto simp: hex_value_def hex_digit_def Let_def)

lemma hex4_round:
  assumes "n < 65536"
  obtains a b c d where "hex4 n = [a, b, c, d]" "hex4_value a b c d = Some n"
proof -
  have top: "n div 4096 < 16" using assms by simp
  have "n div 4096 = n div 256 div 16" "n div 256 = n div 16 div 16" by (simp_all flip: div_mult2_eq)
  with top have v: "((n div 4096 mod 16 * 16 + n div 256 mod 16) * 16 + n div 16 mod 16) * 16 + n mod 16 = n"
    by (metis div_mult_mod_eq mod_less)
  have "hex4_value (hex_digit (n div 4096 mod 16)) (hex_digit (n div 256 mod 16)) (hex_digit (n div 16 mod 16))
      (hex_digit (n mod 16)) = Some n"
    using v top by (simp add: hex4_value_def hex_value_digit)
  then show thesis by (intro that) (simp_all only: hex4_def)
qed

lemma scan_unicode_escape:
  "n < 65536 \<Longrightarrow> scan_string (unicode_escape n @ t) = push_piece (Esc n) (scan_string t)"
  by (erule hex4_round) (simp add: unicode_escape_def scan_escape.simps)

lemma join_escape: "\<not> surrogate n \<Longrightarrow> join_pieces (Esc n # ps) = code_point n @ join_pieces ps"
  by (cases ps; cases "hd ps") (auto simp: surrogate_def)

lemma scan_escape_char:
  assumes "scan_string t = Some (ps, r)"
  shows "\<exists>qs. scan_string (escape_char c @ t) = Some (qs, r) \<and> join_pieces qs = c # join_pieces ps"
proof -
  have esc: ?thesis if "escape_char c = unicode_escape (of_char c)" "(of_char c :: nat) < 128"
  proof -
    have "code_point (of_char c) = [c]" using that(2) by (simp add: code_point_def utf8_bytes_def)
    moreover have "\<not> surrogate (of_char c)" using that(2) by (simp add: surrogate_def)
    moreover have "(of_char c :: nat) < 65536" using that(2) by simp
    ultimately show ?thesis
      using assms by (intro exI [of _ "Esc (of_char c) # ps"]) (simp add: that(1) scan_unicode_escape push_piece_def join_escape)
  qed
  have raw: ?thesis if "scan_string (escape_char c @ t) = push_piece (Raw c) (scan_string t)"
    using that assms by (intro exI [of _ "Raw c # ps"]) (simp add: push_piece_def)
  show ?thesis
  proof (cases "c \<in> {CHR 0x22, CHR 0x5C, CHR 0x08, CHR 0x0C, CHR 0x0A, CHR 0x0D, CHR 0x09}")
    case True
    then show ?thesis by (intro raw) (auto simp: escape_char_def scan_escape.simps simple_escape_def)
  next
    case short: False
    show ?thesis
    proof (cases "(of_char c :: nat) < 32 \<or> c \<in> {CHR ''<'', CHR ''>'', CHR ''&''}")
      case True
      moreover have "(of_char c :: nat) < 128" if "c \<in> {CHR ''<'', CHR ''>'', CHR ''&''}" using that by (elim insertE) simp_all
      ultimately have "escape_char c = unicode_escape (of_char c)" "(of_char c :: nat) < 128"
        using short by (simp_all add: escape_char_def) linarith
      then show ?thesis by (rule esc)
    next
      case False
      then have "escape_char c = [c]" "32 \<le> (of_char c :: nat)" using short by (simp_all add: escape_char_def)
      then show ?thesis using short by (intro raw) simp
    qed
  qed
qed

lemma scan_escaped:
  "scan_string t = Some (ps, r) \<Longrightarrow>
   \<exists>qs. scan_string (escape_string s @ t) = Some (qs, r) \<and> join_pieces qs = s @ join_pieces ps"
proof (induction s rule: escape_string.induct)
  case (4 a b c s)
  have sep: "\<exists>qs. scan_string ((unicode_escape n @ escape_string s) @ t) = Some (qs, r) \<and> join_pieces qs = u @ s @ join_pieces ps"
    if u: "code_point n = u" "n < 0xD800"
      and ih: "\<exists>qs. scan_string (escape_string s @ t) = Some (qs, r) \<and> join_pieces qs = s @ join_pieces ps" for n u
  proof -
    obtain qs where "scan_string (escape_string s @ t) = Some (qs, r)" "join_pieces qs = s @ join_pieces ps" using ih by blast
    moreover have "\<not> surrogate n" "n < 65536" using u(2) by (simp_all add: surrogate_def)
    ultimately show ?thesis
      by (intro exI [of _ "Esc n # qs"]) (simp add: scan_unicode_escape push_piece_def join_escape u(1))
  qed
  have byte: "(of_char x :: nat) = n \<Longrightarrow> char_of n = x" for x :: char and n by (metis char_of_char)
  have cp: "code_point 0x2028 = [CHR 0xE2, CHR 0x80, CHR 0xA8]" "code_point 0x2029 = [CHR 0xE2, CHR 0x80, CHR 0xA9]"
    by (simp_all add: code_point_def utf8_bytes_def byte)
  show ?case
  proof (cases "a = CHR 0xE2 \<and> b = CHR 0x80 \<and> c = CHR 0xA8")
    case True
    then show ?thesis using sep [OF cp(1)] "4.IH"(1) "4.prems" by simp
  next
    case a8: False
    show ?thesis
    proof (cases "a = CHR 0xE2 \<and> b = CHR 0x80 \<and> c = CHR 0xA9")
      case True
      then show ?thesis using sep [OF cp(2)] "4.IH"(2) "4.prems" by simp
    next
      case False
      then have e: "escape_string (a # b # c # s) = escape_char a @ escape_string (b # c # s)"
        unfolding escape_string.simps using a8 by (simp only: if_False)
      obtain qs where "scan_string (escape_string (b # c # s) @ t) = Some (qs, r)" "join_pieces qs = b # c # s @ join_pieces ps"
        using "4.IH"(3) [OF a8 False "4.prems"] by auto
      then show ?thesis using scan_escape_char [of "escape_string (b # c # s) @ t" qs r a] by (simp only: e append.simps append_assoc)
    qed
  qed
next
  case (2 a)
  then show ?case using scan_escape_char [of t ps r a] by simp
next
  case (3 a b)
  obtain qs where "scan_string (escape_char b @ t) = Some (qs, r)" "join_pieces qs = b # join_pieces ps"
    using scan_escape_char [OF 3] by blast
  then show ?case using scan_escape_char [of "escape_char b @ t" qs r a] by simp
qed simp

lemma next_token_string: "next_token (quote_json s @ r) = Some (TStr (json_string s), r)"
proof -
  obtain qs where "scan_string (escape_string s @ CHR 0x22 # r) = Some (qs, r)" "join_pieces qs = s"
    using scan_escaped [of "CHR 0x22 # r" "[]" r s] by auto
  then show ?thesis by (simp add: next_token_def quote_json_def punctuation_def unquoted_def)
qed

subsection \<open>Reading undoes writing: tokens\<close>

text \<open>What a number reads back as, and the tokens of a value.\<close>

definition read_number :: "rat \<Rightarrow> rat" where
  "read_number r = the (json_number (number_text r))"

fun read_back :: "json \<Rightarrow> json" where
  "read_back (JNum r) = JNum (read_number r)"
| "read_back (JArr js) = JArr (map read_back js)"
| "read_back (JObj kvs) = JObj (map (\<lambda>(k, v). (k, read_back v)) kvs)"
| "read_back j = j"

fun join_tokens :: "token list list \<Rightarrow> token list" where
  "join_tokens [] = []"
| "join_tokens [w] = w"
| "join_tokens (w # v # ws) = w @ TComma # join_tokens (v # ws)"

fun tokens :: "json \<Rightarrow> token list" where
  "tokens JNull = [TNull]"
| "tokens (JBool b) = [TBool b]"
| "tokens (JNum r) = [TNum (read_number r)]"
| "tokens (JStr s) = [TStr s]"
| "tokens (JArr js) = TOpenArr # join_tokens (map tokens js) @ [TCloseArr]"
| "tokens (JObj kvs) = TOpenObj # join_tokens (map (\<lambda>(k, v). TStr k # TColon # tokens v) kvs) @ [TCloseObj]"

text \<open>
  What can be written and read: valid strings, integers of 64 bits and floats, and no more than \<open>n\<close> levels
  of nesting.
\<close>

definition number_ok :: "rat \<Rightarrow> bool" where
  "number_ok r \<longleftrightarrow> plain_int r \<or> f64 r = Fin r"

fun json_ok :: "nat \<Rightarrow> json \<Rightarrow> bool" where
  "json_ok n (JNum r) = number_ok r"
| "json_ok n (JStr s) = valid_utf8 s"
| "json_ok 0 (JArr js) = False"
| "json_ok (Suc n) (JArr js) = list_all (json_ok n) js"
| "json_ok 0 (JObj kvs) = False"
| "json_ok (Suc n) (JObj kvs) = list_all (\<lambda>(k, v). valid_utf8 k \<and> json_ok n v) kvs"
| "json_ok n _ = True"

lemma itoa_number:
  shows "json_number (itoa i) = Some (of_int i)" "itoa i \<noteq> []" "list_all number_char (itoa i)"
    "hd (itoa i) = CHR ''-'' \<or> is_digit (hd (itoa i))"
proof -
  have u: "json_unsigned (uint_digits n) = Some (of_int n)" if "0 \<le> n" for n
  proof (cases "n = 0")
    case True
    have "(of_char (CHR ''0'') :: int) = 48" by simp
    then have "digit_char 0 = CHR ''0''" unfolding digit_char_def by (metis add.right_neutral char_of_char)
    then have "uint_digits 0 = ''0''" by (subst uint_digits.simps) simp
    then show ?thesis using json_unsigned_zero True by simp
  next
    case False
    then show ?thesis
      using json_unsigned_parts [of "uint_digits n" "[]" "[]" 0] that uint_digits_hd_zero [of n]
      by (simp add: uint_digits_all no_digit_def json_exponent_def digits_val_uint_digits)
  qed
  have c: "list_all number_char (uint_digits n)" if "0 \<le> n" for n
    using uint_digits_all [OF that] by (simp add: list_all_iff number_char_def)
  have h: "is_digit (hd (uint_digits n))" if "0 \<le> n" for n by (simp add: uint_digits_digits [OF that])
  show "json_number (itoa i) = Some (of_int i)"
    using u [of i] u [of "- i"] uint_digits_hd(1) [of i] by (auto simp: itoa_def json_number_def)
  show "itoa i \<noteq> []" by (simp add: itoa_def)
  show "list_all number_char (itoa i)" using c [of i] c [of "- i"] by (simp add: itoa_def number_char_def)
  show "hd (itoa i) = CHR ''-'' \<or> is_digit (hd (itoa i))" using h [of i] by (simp add: itoa_def)
qed

lemma json_unsigned_chars:
  assumes "json_unsigned s = Some v"
  shows "s \<noteq> [] \<and> is_digit (hd s) \<and> list_all number_char s"
proof -
  define ip where "ip = takeWhile is_digit s"
  define r where "r = dropWhile is_digit s"
  define dot where "dot = (r \<noteq> [] \<and> hd r = CHR ''.'')"
  define fp where "fp = (if dot then takeWhile is_digit (tl r) else [])"
  define r2 where "r2 = (if dot then dropWhile is_digit (tl r) else r)"
  note d = ip_def r_def dot_def fp_def r2_def
  have e: "ip \<noteq> []" "json_exponent r2 \<noteq> None"
    using assms unfolding json_unsigned_def Let_def d [symmetric] by (auto split: if_splits)
  have dig: "list_all number_char w" if "list_all is_digit w" for w
    using that by (simp add: list_all_iff number_char_def)
  have tw: "list_all is_digit (takeWhile is_digit w)" for w by (auto simp: list_all_iff dest: set_takeWhileD)
  have ip: "list_all is_digit ip" by (simp add: ip_def tw)
  have s: "s = ip @ r" by (simp add: ip_def r_def)
  have r: "r = (if dot then CHR ''.'' # fp @ r2 else r2)"
    by (cases r) (auto simp: dot_def fp_def r2_def)
  have "list_all is_digit fp" by (simp add: fp_def tw)
  moreover have "list_all number_char r2"
    using e(2) dig by (auto simp: json_exponent_def strip_sign_def number_char_def Let_def split: list.splits if_splits)
  ultimately have "list_all number_char r" by (subst r) (simp add: dig number_char_def)
  moreover have "is_digit (hd ip)" using ip e(1) by (cases ip) simp_all
  ultimately show ?thesis using s e(1) ip dig by simp
qed

lemma json_number_chars:
  assumes "json_number s = Some v"
  shows "s \<noteq> [] \<and> (hd s = CHR ''-'' \<or> is_digit (hd s)) \<and> list_all number_char s"
proof (cases "s \<noteq> [] \<and> hd s = CHR ''-''")
  case True
  then obtain t where s: "s = CHR ''-'' # t" by (cases s) auto
  then obtain w where "json_unsigned t = Some w" using assms by (auto simp: json_number_def)
  then show ?thesis using json_unsigned_chars s by (simp add: number_char_def)
next
  case False
  then show ?thesis using assms json_unsigned_chars [of s v] by (simp add: json_number_def split: if_splits)
qed

lemma number_text_reads:
  assumes "number_ok r"
  shows "json_number (number_text r) = Some (read_number r)" "plain_int r \<Longrightarrow> read_number r = r"
    "f64 r = Fin r \<Longrightarrow> f64 (read_number r) = Fin r"
proof -
  have "\<exists>v. json_number (number_text r) = Some v \<and> (plain_int r \<longrightarrow> v = r) \<and> (f64 r = Fin r \<longrightarrow> f64 v = Fin r)"
  proof (cases "plain_int r")
    case True
    then have "json_number (number_text r) = Some (of_int \<lfloor>r\<rfloor>)" by (simp only: number_text_def if_True itoa_number(1))
    also have "of_int \<lfloor>r\<rfloor> = r" using True by (simp add: plain_int_def)
    finally show ?thesis by blast
  next
    case False
    then have "f64 r = Fin r" using assms by (auto simp: number_ok_def)
    then obtain v where "json_number (float_text r) = Some v" "f64 v = Fin r" using float_text_number by blast
    then show ?thesis using False by (auto simp: number_text_def)
  qed
  then show "json_number (number_text r) = Some (read_number r)" "plain_int r \<Longrightarrow> read_number r = r"
    "f64 r = Fin r \<Longrightarrow> f64 (read_number r) = Fin r"
    by (auto simp: read_number_def)
qed

subsection \<open>Reading undoes writing: the lexer\<close>

definition stops :: "string \<Rightarrow> bool" where
  "stops r \<longleftrightarrow> r = [] \<or> \<not> number_char (hd r)"

definition lexes :: "string \<Rightarrow> token list \<Rightarrow> bool" where
  "lexes s ts \<longleftrightarrow> (\<forall>r. stops r \<longrightarrow> lex_json (s @ r) = before ts (lex_json r))"

lemma lexesD: "lexes s ts \<Longrightarrow> stops r \<Longrightarrow> lex_json (s @ r) = before ts (lex_json r)"
  by (simp add: lexes_def)

lemma lex_token:
  assumes "\<not> json_space (hd s)" "s \<noteq> []" "next_token s = Some (t, r)"
  shows "lex_json s = before [t] (lex_json r)"
  using assms by (cases s) (simp_all add: lex_json.simps(2))

lemma lex_punctuation:
  assumes "punctuation c = Some t"
  shows "lex_json (c # r) = before [t] (lex_json r)"
proof -
  have "\<not> json_space c" using assms by (auto simp: punctuation_def json_space_def split: if_splits)
  then show ?thesis using assms by (intro lex_token) (simp_all add: next_token_def)
qed

lemma number_char_not:
  assumes "number_char c"
  shows "punctuation c = None \<and> c \<noteq> CHR 0x22 \<and> \<not> json_space c \<and> c \<noteq> CHR ''n'' \<and> c \<noteq> CHR ''t'' \<and> c \<noteq> CHR ''f''"
proof -
  have "\<not> number_char x" if "x \<in> {CHR ''['', CHR '']'', CHR ''{'', CHR ''}'', CHR '','', CHR '':'', CHR 0x22, CHR '' '',
      CHR 0x09, CHR 0x0A, CHR 0x0D, CHR ''n'', CHR ''t'', CHR ''f''}" for x
    using that by (elim insertE emptyE) (simp_all add: number_char_def is_digit_def)
  then have "c \<notin> {CHR ''['', CHR '']'', CHR ''{'', CHR ''}'', CHR '','', CHR '':'', CHR 0x22, CHR '' '',
      CHR 0x09, CHR 0x0A, CHR 0x0D, CHR ''n'', CHR ''t'', CHR ''f''}" using assms by blast
  then show ?thesis by (simp add: punctuation_def json_space_def)
qed

lemma lexes_number:
  assumes "json_number s = Some v"
  shows "lexes s [TNum v]"
  unfolding lexes_def
proof (intro allI impI)
  fix r assume r: "stops r"
  have s: "s \<noteq> []" "list_all number_char s" using json_number_chars [OF assms] by simp_all
  then obtain c q where c: "s = c # q" "number_char c" by (cases s) auto
  have all: "\<And>x. x \<in> set s \<Longrightarrow> number_char x" using s(2) by (simp add: list_all_iff)
  have "takeWhile number_char r = []" "dropWhile number_char r = r" using r by (cases r; auto simp: stops_def)+
  then have "takeWhile number_char (s @ r) = s" "dropWhile number_char (s @ r) = r"
    using all by (simp_all add: takeWhile_append2 dropWhile_append2)
  then have "next_token (s @ r) = Some (TNum v, r)"
    using c number_char_not [OF c(2)] assms by (simp add: next_token_def has_prefix_def)
  then show "lex_json (s @ r) = before [TNum v] (lex_json r)"
    using lex_token [of "s @ r"] c number_char_not [OF c(2)] by simp
qed

lemma lexes_string: "valid_utf8 s \<Longrightarrow> lexes (quote_json s) [TStr s]"
proof (unfold lexes_def, intro allI impI)
  fix r assume "valid_utf8 s"
  then have "next_token (quote_json s @ r) = Some (TStr s, r)" by (simp add: next_token_string)
  then show "lex_json (quote_json s @ r) = before [TStr s] (lex_json r)"
    using lex_token [of "quote_json s @ r"] by (simp add: quote_json_def json_space_def)
qed

lemma lexes_word:
  "lexes ''null'' [TNull]" "lexes ''true'' [TBool True]" "lexes ''false'' [TBool False]"
  by (simp_all add: lexes_def lex_json.simps(2) json_space_def next_token_def punctuation_def has_prefix_def)

lemma stops_simps [simp]: "stops []" "\<not> number_char c \<Longrightarrow> stops (c # r)"
  by (simp_all add: stops_def)

lemma not_number_chars [simp]:
  "\<not> number_char (CHR '','')" "\<not> number_char (CHR '']'')" "\<not> number_char (CHR ''}'')" "\<not> number_char (CHR '':'')"
  "\<not> number_char (CHR 0x0A)" "\<not> number_char (CHR '' '')"
  by (simp_all add: number_char_def is_digit_def)

text \<open>A separator is a comma followed by white space.\<close>

lemma lex_spaces: "list_all json_space w \<Longrightarrow> lex_json (w @ r) = lex_json r"
  by (induction w) (simp_all add: lex_json.simps(2))

lemma lexes_join:
  assumes "\<And>x. x \<in> set xs \<Longrightarrow> lexes (f x) (g x)" "list_all json_space w"
  shows "lexes (join (CHR '','' # w) (map f xs)) (join_tokens (map g xs))"
  using assms(1)
proof (induction xs rule: induct_list012)
  case 1
  show ?case by (simp add: lexes_def)
next
  case (3 x y zs)
  let ?rest = "join (CHR '','' # w) (map f (y # zs))" and ?ts = "join_tokens (map g (y # zs))"
  have ih: "lexes ?rest ?ts" using "3.IH"(2) "3.prems" by simp
  have "lex_json (f x @ CHR '','' # w @ ?rest @ r) = before (g x @ TComma # ?ts) (lex_json r)" if "stops r" for r
  proof -
    have "lex_json (w @ ?rest @ r) = before ?ts (lex_json r)"
      using lexesD [OF ih that] by (simp only: lex_spaces [OF assms(2)])
    then have "lex_json (CHR '','' # w @ ?rest @ r) = before (TComma # ?ts) (lex_json r)"
      using lex_punctuation [of "CHR '',''" TComma "w @ ?rest @ r"]
      by (simp add: punctuation_def )
    then show ?thesis
      using lexesD [of "f x" "g x" "CHR '','' # w @ ?rest @ r"] "3.prems" [of x] by simp
  qed
  then show ?case by (simp add: lexes_def)
qed simp

text \<open>Brackets around what is inside, white space on both sides.\<close>

lemma lexes_bracket:
  assumes "punctuation a = Some s" "punctuation b = Some t" "lexes x ts" "list_all json_space w" "list_all json_space w'"
  shows "lexes (a # w @ x @ w' @ [b]) (s # ts @ [t])"
proof (unfold lexes_def, intro allI impI)
  fix r
  have nb: "\<not> number_char b" using assms(2) number_char_not by fastforce
  have "stops (w' @ b # r)"
  proof (cases w')
    case (Cons c q)
    then have "json_space c" using assms(5) by simp
    then have "\<not> number_char c" using number_char_not by blast
    then show ?thesis by (simp add: Cons)
  qed (simp add: nb)
  then have "lex_json (x @ w' @ b # r) = before ts (lex_json (w' @ b # r))" by (rule lexesD [OF assms(3)])
  also have "lex_json (w' @ b # r) = before [t] (lex_json r)"
    using lex_punctuation [OF assms(2)] by (simp add: lex_spaces [OF assms(5)])
  finally have "lex_json (w @ x @ w' @ b # r) = before (ts @ [t]) (lex_json r)"
    by (simp add: lex_spaces [OF assms(4)] )
  then show "lex_json ((a # w @ x @ w' @ [b]) @ r) = before (s # ts @ [t]) (lex_json r)"
    using lex_punctuation [OF assms(1)] by (simp)
qed

lemma lexes_pair:
  assumes "valid_utf8 k" "lexes x ts" "list_all json_space w"
  shows "lexes (quote_json k @ CHR '':'' # w @ x) (TStr k # TColon # ts)"
proof (unfold lexes_def, intro allI impI)
  fix r assume "stops r"
  then have "lex_json (CHR '':'' # w @ x @ r) = before (TColon # ts) (lex_json r)"
    using lex_punctuation [of "CHR '':''" TColon] lexesD [OF assms(2)]
    by (simp add: punctuation_def lex_spaces [OF assms(3)] )
  then show "lex_json ((quote_json k @ CHR '':'' # w @ x) @ r) = before (TStr k # TColon # ts) (lex_json r)"
    using lexesD [OF lexes_string [OF assms(1)], of "CHR '':'' # w @ x @ r"] by (simp)
qed

lemma lexes_number_text: "number_ok r \<Longrightarrow> lexes (number_text r) [TNum (read_number r)]"
  by (rule lexes_number) (rule number_text_reads(1))

lemma json_ok_JArr: "json_ok n (JArr js) \<longleftrightarrow> (\<exists>m. n = Suc m \<and> (\<forall>j \<in> set js. json_ok m j))"
  by (cases n) (simp_all add: list_all_iff)

lemma json_ok_JObj: "json_ok n (JObj kvs) \<longleftrightarrow> (\<exists>m. n = Suc m \<and> (\<forall>(k, v) \<in> set kvs. valid_utf8 k \<and> json_ok m v))"
  by (cases n) (simp_all add: list_all_iff case_prod_beta)

lemma lexes_text: "json_ok n j \<Longrightarrow> lexes (json_text j) (tokens j)"
proof (induction j arbitrary: n rule: json_text.induct)
  case (5 js)
  then obtain m where "\<forall>j \<in> set js. json_ok m j" by (auto simp: json_ok_JArr)
  then have "lexes (join ('','' @ []) (map json_text js)) (join_tokens (map tokens js))"
    unfolding append_Cons append_Nil using 5 by (intro lexes_join) auto
  then show ?case
    using lexes_bracket [of "CHR ''[''" TOpenArr "CHR '']''" TCloseArr _ _ "[]" "[]"] by (simp add: punctuation_def)
next
  case (6 kvs)
  then obtain m where m: "\<forall>(k, v) \<in> set kvs. valid_utf8 k \<and> json_ok m v" by (auto simp: json_ok_JObj)
  have "lexes ((\<lambda>(k, v). quote_json k @ CHR '':'' # json_text v) p) ((\<lambda>(k, v). TStr k # TColon # tokens v) p)" if "p \<in> set kvs" for p
  proof (cases p)
    case (Pair k v)
    then have kv: "valid_utf8 k \<and> json_ok m v" using m that by fast
    have "lexes (json_text v) (tokens v)" by (rule "6.IH" [OF that Pair [symmetric] kv [THEN conjunct2]])
    then show ?thesis using lexes_pair [of k _ _ "[]"] kv by (simp add: Pair)
  qed
  then have "lexes (join ('','' @ []) (map (\<lambda>(k, v). quote_json k @ CHR '':'' # json_text v) kvs))
      (join_tokens (map (\<lambda>(k, v). TStr k # TColon # tokens v) kvs))"
    unfolding append_Cons append_Nil by (intro lexes_join) auto
  then show ?case
    using lexes_bracket [of "CHR ''{''" TOpenObj "CHR ''}''" TCloseObj _ _ "[]" "[]"] by (simp add: punctuation_def)
qed (simp_all add: lexes_word lexes_string lexes_number_text)

lemma line_break_space [simp]: "list_all json_space (line_break n)"
  by (simp add: line_break_def json_space_def list_all_iff)

lemma lexes_indent: "json_ok n j \<Longrightarrow> lexes (json_indent i j) (tokens j)"
proof (induction i j arbitrary: n rule: json_indent.induct)
  case (1 i js)
  then obtain m where m: "\<forall>j \<in> set js. json_ok m j" by (auto simp: json_ok_JArr)
  show ?case
  proof (cases "js = []")
    case True
    then show ?thesis using lexes_text [OF "1.prems"] by simp
  next
    case False
    have "lexes (join (CHR '','' # line_break (Suc i)) (map (json_indent (Suc i)) js)) (join_tokens (map tokens js))"
      using m "1.IH" [OF False] by (intro lexes_join) auto
    then show ?thesis
      using lexes_bracket [of "CHR ''[''" TOpenArr "CHR '']''" TCloseArr _ _ "line_break (Suc i)" "line_break i"] False
      by (simp add: punctuation_def)
  qed
next
  case (2 i kvs)
  then obtain m where m: "\<forall>(k, v) \<in> set kvs. valid_utf8 k \<and> json_ok m v" by (auto simp: json_ok_JObj)
  show ?case
  proof (cases "kvs = []")
    case True
    then show ?thesis using lexes_text [OF "2.prems"] by simp
  next
    case False
    let ?f = "\<lambda>(k, v). quote_json k @ '': '' @ json_indent (Suc i) v" and ?g = "\<lambda>(k, v). TStr k # TColon # tokens v"
    have "lexes (?f p) (?g p)" if "p \<in> set kvs" for p
    proof (cases p)
      case (Pair k v)
      then have kv: "valid_utf8 k \<and> json_ok m v" using m that by fast
      have "lexes (json_indent (Suc i) v) (tokens v)" by (rule "2.IH" [OF False that Pair [symmetric] kv [THEN conjunct2]])
      then show ?thesis using lexes_pair [of k _ _ "'' ''"] kv by (simp add: Pair json_space_def)
    qed
    then have "lexes (join (CHR '','' # line_break (Suc i)) (map ?f kvs)) (join_tokens (map ?g kvs))"
      by (intro lexes_join) auto
    then show ?thesis
      using lexes_bracket [of "CHR ''{''" TOpenObj "CHR ''}''" TCloseObj _ _ "line_break (Suc i)" "line_break i"] False
      by (simp add: punctuation_def)
  qed
qed (simp_all add: lexes_word lexes_string lexes_number_text)

subsection \<open>Reading undoes writing: the parser\<close>

lemma tokens_head: "\<exists>t ts. tokens j = t # ts \<and> t \<noteq> TCloseArr"
  by (cases j) auto

text \<open>A value is parsed when its tokens take the machine from expecting it to having been given it.\<close>

definition parses :: "nat \<Rightarrow> token list \<Rightarrow> json \<Rightarrow> bool" where
  "parses n us j \<longleftrightarrow> (\<forall>fs ts. length fs + n \<le> max_depth \<longrightarrow> parse_from (us @ ts) (fs, MValue) = parse_from ts (give j fs))"

lemma parsesD: "parses n us j \<Longrightarrow> length fs + n \<le> max_depth \<Longrightarrow> parse_from (us @ ts) (fs, MValue) = parse_from ts (give j fs)"
  by (simp add: parses_def)

lemma parse_elements:
  assumes "js \<noteq> []" "\<And>j. j \<in> set js \<Longrightarrow> parses n (tokens j) (read_back j)" "Suc (length fs) + n \<le> max_depth"
  shows "parse_from (join_tokens (map tokens js) @ TCloseArr # ts) (FArr acc # fs, MValue) =
    parse_from ts (give (JArr (rev acc @ map read_back js)) fs)"
  using assms(1,2)
proof (induction js arbitrary: acc rule: induct_list012)
  case (2 j)
  then show ?case
    using parsesD [of n "tokens j" "read_back j" "FArr acc # fs" "TCloseArr # ts"] assms(3)
    by (simp add: parse_step_def after_value_def close_frame_def)
next
  case (3 j k js)
  have "parse_from (join_tokens (map tokens (k # js)) @ TCloseArr # ts) (FArr (read_back j # acc) # fs, MValue) =
      parse_from ts (give (JArr (rev (read_back j # acc) @ map read_back (k # js))) fs)"
    using "3.prems" by (intro "3.IH"(2)) auto
  then show ?case
    using parsesD [of n "tokens j" "read_back j" "FArr acc # fs" "TComma # join_tokens (map tokens (k # js)) @ TCloseArr # ts"]
      "3.prems"(2) assms(3)
    by (simp add: parse_step_def after_value_def)
qed simp

lemma parse_pairs:
  assumes "kvs \<noteq> []" "\<And>k v. (k, v) \<in> set kvs \<Longrightarrow> parses n (tokens v) (read_back v)" "Suc (length fs) + n \<le> max_depth"
    "m = MFirstKey \<or> m = MKey"
  shows "parse_from (join_tokens (map (\<lambda>(k, v). TStr k # TColon # tokens v) kvs) @ TCloseObj # ts) (FObj acc k0 # fs, m) =
    parse_from ts (give (JObj (rev acc @ map (\<lambda>(k, v). (k, read_back v)) kvs)) fs)"
  using assms(1,2,4)
proof (induction kvs arbitrary: acc k0 m rule: induct_list012)
  case (2 p)
  obtain k v where p: "p = (k, v)" by fastforce
  show ?case
    using parsesD [of n "tokens v" "read_back v" "FObj acc k # fs" "TCloseObj # ts"] assms(3) "2.prems"(2,3)
    by (auto simp: p parse_step_def take_key_def after_value_def close_frame_def)
next
  case (3 p q kvs)
  obtain k v where p: "p = (k, v)" by fastforce
  have ih: "parse_from (join_tokens (map (\<lambda>(k, v). TStr k # TColon # tokens v) (q # kvs)) @ TCloseObj # ts)
        (FObj ((k, read_back v) # acc) [] # fs, MKey) =
      parse_from ts (give (JObj (rev ((k, read_back v) # acc) @ map (\<lambda>(k, v). (k, read_back v)) (q # kvs))) fs)"
    using "3.prems"(2) by (intro "3.IH"(2)) auto
  have "parses n (tokens v) (read_back v)" using "3.prems"(2) [of k v] by (simp add: p)
  then have v: "parse_from (tokens v @ us) (FObj acc k # fs, MValue) = parse_from us (give (read_back v) (FObj acc k # fs))" for us
    using assms(3) by (intro parsesD) simp_all
  have key: "parse_step (TStr k) (FObj acc k0 # fs, m) = Some (FObj acc k # fs, MColon)"
    using "3.prems"(3) by (auto simp: parse_step_def take_key_def)
  have "parse_from (join_tokens (map (\<lambda>(k, v). TStr k # TColon # tokens v) (p # q # kvs)) @ TCloseObj # ts) (FObj acc k0 # fs, m) =
      parse_from (tokens v @ TComma # join_tokens (map (\<lambda>(k, v). TStr k # TColon # tokens v) (q # kvs)) @ TCloseObj # ts)
        (FObj acc k # fs, MValue)"
    using key by (simp add: p) (simp add: parse_step_def)
  also have "\<dots> = parse_from (join_tokens (map (\<lambda>(k, v). TStr k # TColon # tokens v) (q # kvs)) @ TCloseObj # ts)
        (FObj ((k, read_back v) # acc) [] # fs, MKey)"
    unfolding v by (simp add: parse_step_def after_value_def)
  also note ih
  finally show ?case by (simp add: p)
qed simp

lemma parses_tokens: "json_ok n j \<Longrightarrow> parses n (tokens j) (read_back j)"
proof (induction j arbitrary: n rule: tokens.induct)
  case (5 js)
  then obtain m where m: "n = Suc m" "\<forall>j \<in> set js. json_ok m j" by (auto simp: json_ok_JArr)
  show ?case
  proof (unfold parses_def, intro allI impI)
    fix fs :: "frame list" and ts assume l: "length fs + n \<le> max_depth"
    have o: "open_frame (FArr []) MFirst fs = Some (FArr [] # fs, MFirst)" using l m(1) by (simp add: open_frame_def)
    show "parse_from (tokens (JArr js) @ ts) (fs, MValue) = parse_from ts (give (read_back (JArr js)) fs)"
    proof (cases js)
      case Nil
      then show ?thesis by (simp add: parse_step_def o close_frame_def)
    next
      case (Cons j js')
      have "\<exists>t us. join_tokens (map tokens js) = t # us \<and> t \<noteq> TCloseArr"
        using tokens_head [of j] by (cases js') (auto simp: Cons)
      then obtain t us where t: "join_tokens (map tokens js) = t # us" "t \<noteq> TCloseArr" by blast
      have "parse_from (join_tokens (map tokens js) @ TCloseArr # ts) (FArr [] # fs, MValue) =
          parse_from ts (give (JArr (rev [] @ map read_back js)) fs)"
        using Cons m l "5.IH" by (intro parse_elements [where n = m]) auto
      then show ?thesis by (simp add: parse_step_def o t)
    qed
  qed
next
  case (6 kvs)
  then obtain m where m: "n = Suc m" "\<forall>(k, v) \<in> set kvs. valid_utf8 k \<and> json_ok m v" by (auto simp: json_ok_JObj)
  show ?case
  proof (unfold parses_def, intro allI impI)
    fix fs :: "frame list" and ts assume l: "length fs + n \<le> max_depth"
    have o: "open_frame (FObj [] []) MFirstKey fs = Some (FObj [] [] # fs, MFirstKey)" using l m(1) by (simp add: open_frame_def)
    show "parse_from (tokens (JObj kvs) @ ts) (fs, MValue) = parse_from ts (give (read_back (JObj kvs)) fs)"
    proof (cases "kvs = []")
      case True
      then show ?thesis by (simp add: parse_step_def o close_frame_def)
    next
      case False
      have "parse_from (join_tokens (map (\<lambda>(k, v). TStr k # TColon # tokens v) kvs) @ TCloseObj # ts) (FObj [] [] # fs, MFirstKey) =
          parse_from ts (give (JObj (rev [] @ map (\<lambda>(k, v). (k, read_back v)) kvs)) fs)"
        using False m l "6.IH" by (intro parse_pairs [where n = m]) fastforce+
      then show ?thesis by (simp add: parse_step_def o)
    qed
  qed
qed (simp_all add: parses_def parse_step_def)

text \<open>The text of a value, compact or indented, possibly with a final newline, is read back.\<close>

lemma parse_lexed:
  assumes "json_ok max_depth j" "lexes s (tokens j)" "list_all json_space w"
  shows "parse_json (s @ w) = Some (read_back j)"
proof -
  have "stops w"
  proof (cases w)
    case (Cons c q)
    then have "\<not> number_char c" using assms(3) number_char_not by auto
    then show ?thesis by (simp add: Cons)
  qed simp
  then have "lex_json (s @ w) = before (tokens j) (lex_json w)" by (rule lexesD [OF assms(2)])
  also have "lex_json w = Some []" using lex_spaces [OF assms(3), of "[]"] by simp
  finally show ?thesis
    using parsesD [OF parses_tokens [OF assms(1)], of "[]" "[]"] by (simp add: parse_json_def)
qed

lemma parse_text: "json_ok max_depth j \<Longrightarrow> list_all json_space w \<Longrightarrow> parse_json (json_text j @ w) = Some (read_back j)"
  by (intro parse_lexed lexes_text)

lemma parse_indent: "json_ok max_depth j \<Longrightarrow> list_all json_space w \<Longrightarrow> parse_json (json_indent 0 j @ w) = Some (read_back j)"
  by (intro parse_lexed lexes_indent)

subsection \<open>What a decoder sees\<close>

text \<open>
  The value read differs from the one written only in fractions, by less than the precision of a float: a
  decoder that takes numbers as floats or integers cannot tell.
\<close>

definition agrees :: "'a decoder \<Rightarrow> bool" where
  "agrees d \<longleftrightarrow> (\<forall>n j old. json_ok n j \<longrightarrow> d (read_back j) old = d j old)"

lemma agreesD: "agrees d \<Longrightarrow> json_ok n j \<Longrightarrow> d (read_back j) old = d j old"
  by (simp add: agrees_def)

named_theorems agrees_intros

lemma agrees_scalars [agrees_intros]: "agrees dec_string" "agrees dec_bool"
proof -
  have "dec_string (read_back j) old = dec_string j old" for j old by (cases j) simp_all
  then show "agrees dec_string" by (simp add: agrees_def)
  have "dec_bool (read_back j) old = dec_bool j old" for j old by (cases j) simp_all
  then show "agrees dec_bool" by (simp add: agrees_def)
qed

lemma agrees_float [agrees_intros]: "agrees dec_float"
proof (unfold agrees_def, intro allI impI)
  fix n j and old :: float64 assume "json_ok n j"
  then show "dec_float (read_back j) old = dec_float j old"
    using number_text_reads by (cases j) (auto simp: number_ok_def)
qed

lemma agrees_lift [agrees_intros]: "agrees d \<Longrightarrow> agrees (lift_field get put d)"
  by (simp add: agrees_def lift_field_def)

lemma dec_pairs_agree:
  assumes "\<And>k d. (k, d) \<in> set fs \<Longrightarrow> agrees d" "\<forall>(k, v) \<in> set kvs. json_ok n v"
  shows "dec_pairs fs (map (\<lambda>(k, v). (k, read_back v)) kvs) s = dec_pairs fs kvs s"
  using assms(2)
proof (induction kvs arbitrary: s)
  case (Cons p kvs)
  obtain k v where p: "p = (k, v)" by fastforce
  have "d (read_back v) s = d v s" if "find_field fs k = Some d" for d
  proof -
    have "agrees d" using find_field_in [OF that] assms(1) by blast
    then show ?thesis using Cons.prems by (intro agreesD [where n = n]) (simp_all add: p)
  qed
  then show ?case using Cons by (auto simp: p Let_def split: option.split)
qed simp

lemma agrees_struct [agrees_intros]: "(\<And>k d. (k, d) \<in> set fs \<Longrightarrow> agrees d) \<Longrightarrow> agrees (dec_struct fs)"
proof (unfold agrees_def, intro allI impI)
  fix n j s assume "\<And>k d. (k, d) \<in> set fs \<Longrightarrow> \<forall>n j old. json_ok n j \<longrightarrow> d (read_back j) old = d j old" "json_ok n j"
  then show "dec_struct fs (read_back j) s = dec_struct fs j s"
    by (cases j) (fastforce simp: json_ok_JObj agrees_def intro!: dec_pairs_agree)+
qed

lemma agrees_slice [agrees_intros]: "agrees d \<Longrightarrow> agrees (dec_slice d z)"
proof (unfold agrees_def, intro allI impI)
  fix n j old assume d: "\<forall>n j old. json_ok n j \<longrightarrow> d (read_back j) old = d j old" and j: "json_ok n j"
  show "dec_slice d z (read_back j) old = dec_slice d z j old"
  proof (cases j)
    case (JArr js)
    then obtain m where "\<forall>j \<in> set js. json_ok m j" using j by (auto simp: json_ok_JArr)
    then have "d (read_back j) z = d j z" if "j \<in> set js" for j using d that by blast
    then show ?thesis by (simp add: JArr image_def comp_def cong: map_cong)
  qed simp_all
qed

lemma agrees_custom [agrees_intros]: "(\<And>n j old. json_ok n j \<Longrightarrow> u (read_back j) old = u j old) \<Longrightarrow> agrees (dec_custom u)"
  by (simp add: agrees_def dec_custom_def)

text \<open>A compact text has no control character: it fits on one line.\<close>

definition printable :: "char \<Rightarrow> bool" where
  "printable c \<longleftrightarrow> 32 \<le> (of_char c :: nat)"

lemma printable_chars [simp]:
  "printable (CHR '','')" "printable (CHR '':'')" "printable (CHR ''['')" "printable (CHR '']'')" "printable (CHR ''{'')"
  "printable (CHR ''}'')" "printable (CHR 0x22)" "printable (CHR ''-'')" "printable (CHR ''+'')" "printable (CHR ''.'')" "printable (CHR ''e'')"
  "printable (CHR ''E'')" "list_all printable ''null''" "list_all printable ''true''" "list_all printable ''false''"
  by (simp_all add: printable_def)

lemma printable_hex: "d < 16 \<Longrightarrow> printable (hex_digit d)"
  by (auto simp: printable_def hex_digit_def)

lemma printable_unicode_escape: "list_all printable (unicode_escape n)"
  by (simp add: unicode_escape_def hex4_def printable_hex) (simp add: printable_def)

lemma printable_escape_char: "list_all printable (escape_char c)"
  using printable_unicode_escape by (auto simp: escape_char_def printable_def)

lemma printable_escape: "list_all printable (escape_string s)"
proof (induction s rule: escape_string.induct)
  case (4 a b c s)
  then show ?case
    unfolding escape_string.simps by (auto simp only: printable_escape_char printable_unicode_escape list_all_append split: if_split)
qed (simp_all add: printable_escape_char)

lemma printable_quote: "list_all printable (quote_json s)"
  by (simp add: quote_json_def printable_escape)

lemma printable_join: "list_all printable sep \<Longrightarrow> \<forall>w \<in> set ws. list_all printable w \<Longrightarrow> list_all printable (join sep ws)"
  by (induction sep ws rule: join.induct) simp_all

lemma printable_digit: "is_digit c \<Longrightarrow> printable c"
proof -
  have "(of_char c :: int) = int (of_char c)" by (simp only: of_nat_of_char)
  moreover assume "is_digit c"
  ultimately show ?thesis by (simp only: is_digit_def printable_def) linarith
qed

lemma printable_number: "number_ok r \<Longrightarrow> list_all printable (number_text r)"
proof -
  assume "number_ok r"
  then have "list_all number_char (number_text r)" using number_text_reads(1) json_number_chars by blast
  moreover have "printable c" if "number_char c" for c
    using that printable_digit by (auto simp: number_char_def)
  ultimately show ?thesis by (auto simp: list_all_iff)
qed

lemma printable_text: "json_ok n j \<Longrightarrow> list_all printable (json_text j)"
proof (induction j arbitrary: n)
  case (JArr js)
  then obtain m where "\<forall>j \<in> set js. json_ok m j" by (auto simp: json_ok_JArr)
  then have "list_all printable (join '','' (map json_text js))"
    using JArr.IH by (intro printable_join) (simp, auto)
  then show ?case by simp
next
  case (JObj kvs)
  then obtain m where m: "\<forall>(k, v) \<in> set kvs. valid_utf8 k \<and> json_ok m v" by (auto simp: json_ok_JObj)
  have "list_all printable (quote_json k @ CHR '':'' # json_text v)" if "(k, v) \<in> set kvs" for k v
    using JObj.IH [of "(k, v)" v] that m printable_quote [of k] by fastforce
  then have "list_all printable (join '','' (map (\<lambda>(k, v). quote_json k @ CHR '':'' # json_text v) kvs))"
    by (intro printable_join) auto
  then show ?case by simp
qed (auto simp: printable_quote printable_number printable_def)

lemma f64_int64:
  assumes "f64 (of_int v) = Fin r" "in_int64 v"
  shows "plain_int r"
proof -
  have r: "r = round_rat (of_int v)" using assms(1) by (simp add: f64_def Let_def split: if_splits)
  then obtain m where m: "r = of_int m" using round_rat_of_int by blast
  have p: "(2 :: rat) powi 63 = of_int (2 ^ 63)" by (simp add: power_int_numeral)
  have "of_int v \<le> (2 :: rat) powi 63" "- (2 powi 63) \<le> (of_int v :: rat)"
    using assms(2) unfolding p by (simp_all only: in_int64_iff of_int_le_iff flip: of_int_minus) simp_all
  then have "round_rat (of_int v) \<le> 2 powi 63" "- (2 powi 63) \<le> round_rat (of_int v)"
    using round_rat_mono [of "of_int v" "2 powi 63"] round_rat_mono [of "- (2 powi 63)" "of_int v"]
    using round_rat_powi [of 63] by (simp_all add: round_rat_neg)
  then have "m \<le> 2 ^ 63" "- (2 ^ 63) \<le> m" unfolding p r [symmetric] m by (simp_all only: of_int_le_iff flip: of_int_minus)
  then show ?thesis by (simp add: plain_int_def m)
qed

end
