(* ===== verification/Stream_Text.thy ===== *)
theory Stream_Text
  imports Sample_Claims Stream_Hub Go_Json_Text
begin

text \<open>
  The bytes of the live stream. \<open>handleStream\<close> writes one event per sample and a comment every thirty
  seconds; a client reads the text as the HTML standard has it: complete lines, a blank line dispatches
  the event whose fields came before it, a line that starts with a colon is ignored and so is whatever
  follows the last line end. (The standard also ends lines at a carriage return, which the stream never contains.)
\<close>

subsection \<open>Writing\<close>

text \<open>The turns of the loop in \<open>handleStream\<close>: a sample from the channel, or the ticker.\<close>

datatype stream_turn = SampleTurn sample | KeepAliveTurn

definition line_end :: char where "line_end = CHR 0x0A"

definition event_text :: "string \<Rightarrow> string" where
  "event_text data = ''event: sample'' @ [line_end] @ ''data: '' @ data @ [line_end, line_end]"

definition keep_alive_text :: string where
  "keep_alive_text = '': keep-alive'' @ [line_end, line_end]"

text \<open>A sample that cannot be marshalled is logged and skipped.\<close>

definition turn_output :: "(time \<Rightarrow> int) \<Rightarrow> stream_turn \<Rightarrow> string" where
  "turn_output zone t = (case t of
      SampleTurn s \<Rightarrow> (case sample_json zone s of Inl e \<Rightarrow> [] | Inr j \<Rightarrow> event_text (json_text j))
    | KeepAliveTurn \<Rightarrow> keep_alive_text)"

definition stream_body :: "(time \<Rightarrow> int) \<Rightarrow> stream_turn list \<Rightarrow> string" where
  "stream_body zone ts = concat (map (turn_output zone) ts)"

definition turn_samples :: "stream_turn list \<Rightarrow> sample list" where
  "turn_samples ts = concat (map (\<lambda>t. case t of SampleTurn s \<Rightarrow> [s] | KeepAliveTurn \<Rightarrow> []) ts)"

subsection \<open>Reading\<close>

fun complete_lines :: "string \<Rightarrow> string \<Rightarrow> string list" where
  "complete_lines line [] = []"
| "complete_lines line (c # s) =
     (if c = line_end then line # complete_lines [] s else complete_lines (line @ [c]) s)"

record event_reader =
  er_type :: string
  er_data :: "string list"
  er_events :: "(string \<times> string) list"

definition new_event_reader :: event_reader where
  "new_event_reader = \<lparr>er_type = [], er_data = [], er_events = []\<rparr>"

text \<open>An event without data is not dispatched, one without a type is a \<open>message\<close>.\<close>

definition dispatch_event :: "event_reader \<Rightarrow> event_reader" where
  "dispatch_event r =
     \<lparr>er_type = [], er_data = [],
      er_events = (if er_data r = [] then er_events r
        else er_events r @ [(if er_type r = [] then ''message'' else er_type r, join [line_end] (er_data r))])\<rparr>"

definition field_value :: "string \<Rightarrow> string" where
  "field_value v = (case v of CHR '':'' # CHR '' '' # w \<Rightarrow> w | c # w \<Rightarrow> w | [] \<Rightarrow> [])"

definition read_line :: "string \<Rightarrow> event_reader \<Rightarrow> event_reader" where
  "read_line line r =
     (if line = [] then dispatch_event r
      else if hd line = CHR '':'' then r
      else let name = takeWhile (\<lambda>c. c \<noteq> CHR '':'') line; v = field_value (dropWhile (\<lambda>c. c \<noteq> CHR '':'') line)
           in if name = ''event'' then r\<lparr>er_type := v\<rparr>
              else if name = ''data'' then r\<lparr>er_data := er_data r @ [v]\<rparr>
              else r)"

definition read_events :: "string \<Rightarrow> (string \<times> string) list" where
  "read_events s = er_events (fold read_line (complete_lines [] s) new_event_reader)"

definition received_sample :: "string \<times> string \<Rightarrow> sample option" where
  "received_sample = (\<lambda>(type, data).
     if type \<noteq> ''sample'' then None
     else case parse_json data of
       None \<Rightarrow> None
     | Some j \<Rightarrow> (case dec_sample j zero_sample of (s, err) \<Rightarrow> if err then None else Some s))"

definition received :: "string \<Rightarrow> sample option list" where
  "received s = map received_sample (read_events s)"

subsection \<open>What has been read stays read\<close>

lemma complete_lines_prefix: "prefix (complete_lines l s) (complete_lines l (s @ t))"
  by (induction s arbitrary: l) simp_all

lemma complete_lines_line: "line_end \<notin> set w \<Longrightarrow> complete_lines l (w @ line_end # s) = (l @ w) # complete_lines [] s"
  by (induction w arbitrary: l) auto

lemma read_line_events: "prefix (er_events r) (er_events (read_line l r))"
  by (simp add: read_line_def dispatch_event_def Let_def)

lemma fold_read_line_events: "prefix (er_events r) (er_events (fold read_line ls r))"
  by (induction ls arbitrary: r) (simp_all, metis prefix_order.trans read_line_events)

lemma read_events_prefix: "prefix (read_events s) (read_events (s @ t))"
proof -
  obtain ls where "complete_lines [] (s @ t) = complete_lines [] s @ ls" using complete_lines_prefix [of "[]" s t] by (auto elim: prefixE)
  then show ?thesis by (simp add: read_events_def fold_read_line_events)
qed

subsection \<open>An event is read as it was written\<close>

definition idle :: "event_reader \<Rightarrow> bool" where
  "idle r \<longleftrightarrow> er_type r = [] \<and> er_data r = []"

lemma lines_of_event:
  assumes "line_end \<notin> set d"
  shows "complete_lines [] (event_text d @ s) = [''event: sample'', ''data: '' @ d, []] @ complete_lines [] s"
  using complete_lines_line [of "''event: sample''" "[]" "''data: '' @ d @ line_end # line_end # s"]
    complete_lines_line [of "''data: '' @ d" "[]" "line_end # s"] assms
  by (simp add: event_text_def) (simp add: line_end_def)

lemma read_event_lines:
  "idle r \<Longrightarrow> fold read_line [''event: sample'', ''data: '' @ d, []] r = r\<lparr>er_events := er_events r @ [(''sample'', d)]\<rparr>"
  by (cases r) (simp add: idle_def read_line_def field_value_def dispatch_event_def)

lemma lines_of_keep_alive: "complete_lines [] (keep_alive_text @ s) = ['': keep-alive'', []] @ complete_lines [] s"
  using complete_lines_line [of "'': keep-alive''" "[]" "line_end # s"] by (simp add: keep_alive_text_def) (simp add: line_end_def)

lemma read_keep_alive: "idle r \<Longrightarrow> fold read_line ['': keep-alive'', []] r = r"
  by (cases r) (simp add: idle_def read_line_def dispatch_event_def)

definition turn_events :: "(time \<Rightarrow> int) \<Rightarrow> stream_turn \<Rightarrow> (string \<times> string) list" where
  "turn_events zone t = (case t of
      SampleTurn s \<Rightarrow> (case sample_json zone s of Inl e \<Rightarrow> [] | Inr j \<Rightarrow> [(''sample'', json_text j)])
    | KeepAliveTurn \<Rightarrow> [])"

definition one_line :: "(time \<Rightarrow> int) \<Rightarrow> stream_turn \<Rightarrow> bool" where
  "one_line zone t \<longleftrightarrow> (\<forall>s j. t = SampleTurn s \<longrightarrow> sample_json zone s = Inr j \<longrightarrow> line_end \<notin> set (json_text j))"

lemma turn_lines:
  assumes "one_line zone t" "idle r"
  shows "\<exists>ls. (\<forall>s. complete_lines [] (turn_output zone t @ s) = ls @ complete_lines [] s) \<and>
    fold read_line ls r = r\<lparr>er_events := er_events r @ turn_events zone t\<rparr>"
proof (cases t)
  case (SampleTurn s)
  show ?thesis
  proof (cases "sample_json zone s")
    case (Inr j)
    then have "line_end \<notin> set (json_text j)" using assms(1) SampleTurn by (auto simp: one_line_def)
    then show ?thesis
      using lines_of_event read_event_lines [OF assms(2), of "json_text j"]
      by (intro exI [of _ "[''event: sample'', ''data: '' @ json_text j, []]"])
        (simp only: turn_output_def turn_events_def SampleTurn Inr stream_turn.case sum.case, blast)
  qed (use SampleTurn in \<open>simp add: turn_output_def turn_events_def\<close>)
next
  case KeepAliveTurn
  then show ?thesis
    using lines_of_keep_alive read_keep_alive [OF assms(2)]
    by (intro exI [of _ "['': keep-alive'', []]"])
      (simp only: turn_output_def turn_events_def stream_turn.case append_Nil2, simp)
qed

lemma read_turns:
  assumes "\<forall>t \<in> set ts. one_line zone t" "idle r"
  shows "er_events (fold read_line (complete_lines [] (stream_body zone ts)) r) = er_events r @ concat (map (turn_events zone) ts)"
  using assms
proof (induction ts arbitrary: r)
  case (Cons t ts)
  obtain ls where ls: "complete_lines [] (turn_output zone t @ stream_body zone ts) = ls @ complete_lines [] (stream_body zone ts)"
    "fold read_line ls r = r\<lparr>er_events := er_events r @ turn_events zone t\<rparr>"
    using turn_lines [of zone t r] Cons.prems by auto
  have "idle (r\<lparr>er_events := er_events r @ turn_events zone t\<rparr>)" using Cons.prems(2) by (simp add: idle_def)
  then show ?case using Cons.IH Cons.prems(1) ls by (simp add: stream_body_def)
qed (simp add: stream_body_def)

subsection \<open>A sample in an event\<close>

lemma agrees_int [agrees_intros]: "agrees dec_int"
proof (unfold agrees_def, intro allI impI)
  fix n j and old :: int assume j: "json_ok n j"
  show "dec_int (read_back j) old = dec_int j old"
  proof (cases j)
    case (JNum r)
    show ?thesis
    proof (cases "plain_int r")
      case True
      then show ?thesis using number_text_reads(2) j by (simp add: JNum)
    next
      case False
      then have r: "f64 (read_number r) = Fin r" using j number_text_reads(3) by (auto simp: JNum number_ok_def)
      have "\<not> (of_int \<lfloor>read_number r\<rfloor> = read_number r \<and> in_int64 \<lfloor>read_number r\<rfloor>)"
        using f64_int64 [of "\<lfloor>read_number r\<rfloor>" r] r False by auto
      moreover have "\<not> (of_int \<lfloor>r\<rfloor> = r \<and> in_int64 \<lfloor>r\<rfloor>)" using False by (auto simp: plain_int_def in_int64_iff)
      ultimately show ?thesis by (simp add: JNum dec_int_def)
    qed
  qed (simp_all add: dec_int_def)
qed

lemma agrees_time [agrees_intros]: "agrees dec_time"
proof -
  have "dec_time (read_back j) old = dec_time j old" for j old by (cases j) simp_all
  then show ?thesis by (simp add: agrees_def)
qed

lemma agrees_list [agrees_intros]: "agrees d \<Longrightarrow> agrees (dec_list d z)"
  using agrees_slice [of d z] by (simp add: agrees_def dec_list_def)

lemma agrees_fields:
  "(k, d) \<in> set process_fields \<Longrightarrow> agrees d" "(k, d') \<in> set service_fields \<Longrightarrow> agrees d'"
  by (auto simp: process_fields_def service_fields_def intro!: agrees_intros)

lemma agrees_sample: "agrees dec_sample"
  unfolding dec_sample_def
  by (rule agrees_struct) (auto simp: sample_fields_def dec_processes_def dec_services_def
      intro!: agrees_intros intro: agrees_fields)

text \<open>What is marshalled can be written as text.\<close>

lemma all_ok_map_Inr: "all_ok rs = Inr xs \<Longrightarrow> rs = map Inr xs"
  by (induction rs arbitrary: xs) (auto split: sum.splits)

lemma object_ok:
  assumes "object fs = Inr j" "\<And>k v. Inr (k, v) \<in> set fs \<Longrightarrow> valid_utf8 k \<and> json_ok n v"
  shows "json_ok (Suc n) j"
  using assms all_ok_map_Inr [of fs] by (cases "all_ok fs") (fastforce simp: object_def list_all_iff)+

lemma array_ok:
  assumes "array rs = Inr j" "\<And>v. Inr v \<in> set rs \<Longrightarrow> json_ok n v"
  shows "json_ok (Suc n) j"
  using assms all_ok_map_Inr [of rs] by (cases "all_ok rs") (fastforce simp: array_def list_all_iff)+

lemma valid_utf8_Cons [simp]: "(of_char c :: nat) < 128 \<Longrightarrow> valid_utf8 (c # s) \<longleftrightarrow> valid_utf8 s"
  by (simp add: valid_utf8_def)

lemma valid_utf8_Nil [simp]: "valid_utf8 []"
  by (simp add: valid_utf8_def)

lemma Inr_field_iff [simp]: "Inr (k', v) = field k r \<longleftrightarrow> k' = k \<and> r = Inr v"
  by (cases r) (auto simp: field_def)

lemma number_ok_int: "in_int64 i \<Longrightarrow> number_ok (of_int i)"
  by (auto simp: number_ok_def plain_int_def in_int64_iff)

lemma exact_ok: "exact x \<Longrightarrow> enc_float x = Inr v \<Longrightarrow> json_ok n v"
  by (auto simp: exact_def enc_float_def number_ok_def)

definition ascii :: "char \<Rightarrow> bool" where
  "ascii c \<longleftrightarrow> (of_char c :: nat) < 128"

lemma ascii_digit: "is_digit c \<Longrightarrow> ascii c"
proof -
  have "(of_char c :: int) = int (of_char c)" by (simp only: of_nat_of_char)
  moreover assume "is_digit c"
  ultimately show ?thesis by (simp only: is_digit_def ascii_def) linarith
qed

lemma ascii_chars [simp]: "ascii (CHR ''-'')" "ascii (CHR '':'')" "ascii (CHR ''+'')" "ascii (CHR ''.'')" "ascii (CHR ''T'')" "ascii (CHR ''Z'')"
  by (simp_all add: ascii_def)

lemma ascii_pad_digits [simp]: "list_all ascii (pad_digits w n)"
  using pad_digits_all [of w n] ascii_digit by (auto simp: list_all_iff)

lemma ascii_frac: "list_all ascii (frac_text n)"
proof -
  have "d < 10" if "d \<in> set (strip_zeros (be_digits 10 9 n))" for d
    using that be_digits_less [of 10 d 9 n] set_dropWhileD by (fastforce simp: strip_zeros_def)
  then show ?thesis using ascii_digit by (auto simp: frac_text_def Let_def list_all_iff)
qed

lemma time_text_ok: "time_json z t = Inr v \<Longrightarrow> json_ok n v"
proof -
  have "list_all ascii (rfc3339_text z t)"
    by (simp add: rfc3339_text_def clock_text_def zone_text_def ascii_frac Let_def split: prod.split)
  then have "valid_utf8 (rfc3339_text z t)" by (intro valid_utf8_ascii) (simp add: ascii_def list_all_iff)
  moreover assume "time_json z t = Inr v"
  ultimately show ?thesis by (auto simp: time_json_def split: if_splits)
qed

lemma process_json_ok: "process_ok p \<Longrightarrow> process_json p = Inr j \<Longrightarrow> json_ok (Suc n) j"
  unfolding process_json_def
  by (erule object_ok) (auto simp: process_ok_def number_ok_int dest: exact_ok)

lemma service_json_ok: "service_json zone v = Inr j \<Longrightarrow> json_ok (Suc n) j"
  unfolding service_json_def
  by (erule object_ok) (auto simp: opt_field_def dest: time_text_ok split: if_splits)

lemma sample_json_ok:
  assumes "sample_ok zone s" "sample_json zone s = Inr j"
  shows "json_ok (Suc (Suc (Suc n))) j"
proof (rule object_ok [OF assms(2) [unfolded sample_json_def]])
  have ps: "json_ok (Suc (Suc n)) v" if "processes_json (top_processes s) = Inr v" for v
    using that assms(1) process_json_ok unfolding processes_json_def
    by (elim array_ok) (auto simp: sample_ok_def list_all_iff image_iff)
  have vs: "json_ok (Suc (Suc n)) v" if "services_json zone (services s) = Inr v" for v
    using that service_json_ok unfolding services_json_def by (elim array_ok) (auto simp: image_iff)
  fix k v assume "Inr (k, v) \<in> set ([field ''timestamp'' (time_json 0 (timestamp s)),
       field ''cpu_percent'' (enc_float (cpu_percent s)),
       field ''mem_used_mb'' (enc_float (mem_used_mb s)), field ''mem_total_mb'' (enc_float (mem_total_mb s)),
       field ''disk_used_gb'' (enc_float (disk_used_gb s)), field ''disk_total_gb'' (enc_float (disk_total_gb s)),
       field ''load_avg_1'' (enc_float (load_avg_1 s)), field ''load_avg_5'' (enc_float (load_avg_5 s)),
       field ''load_avg_15'' (enc_float (load_avg_15 s)),
       field ''uptime_seconds'' (Inr (JNum (of_int (uptime_seconds s)))),
       field ''net_rx_bytes_per_sec'' (enc_float (net_rx_bytes_per_sec s)),
       field ''net_tx_bytes_per_sec'' (enc_float (net_tx_bytes_per_sec s))] @
      omit_empty ''top_processes'' (top_processes s) (processes_json (top_processes s)) @
      omit_empty ''services'' (services s) (services_json zone (services s)))"
  then show "valid_utf8 k \<and> json_ok (Suc (Suc n)) v"
    using assms(1) ps vs
    by (auto simp: sample_ok_def number_ok_int omit_empty_def dest: exact_ok time_text_ok split: if_splits)
qed

lemma sample_text:
  assumes "sample_ok zone s"
  shows "\<exists>j. sample_json zone s = Inr j \<and> line_end \<notin> set (json_text j) \<and>
    received_sample (''sample'', json_text j) = Some (clean_sample s)"
proof -
  obtain j where j: "sample_json zone s = Inr j" "dec_sample j zero_sample = (clean_sample s, False)"
    using sample_round_trip [OF assms] by blast
  have ok: "json_ok max_depth j"
    using sample_json_ok [OF assms j(1), of 9997] by (simp add: max_depth_def numeral_eq_Suc del: json_ok.simps)
  have "line_end \<notin> set (json_text j)"
    using printable_text [OF ok] by (auto simp: list_all_iff printable_def line_end_def)
  moreover have "dec_sample (read_back j) zero_sample = (clean_sample s, False)"
    using agreesD [OF agrees_sample ok] j(2) by simp
  ultimately show ?thesis using j(1) parse_text [OF ok, of "[]"] by (simp add: received_sample_def)
qed

subsection \<open>The stream arrives\<close>

definition sendable :: "(time \<Rightarrow> int) \<Rightarrow> sample \<Rightarrow> bool" where
  "sendable zone s \<longleftrightarrow> sample_ok zone s \<or> isl (sample_json zone s)"

lemma object_error: "Inl e \<in> set fs \<Longrightarrow> isl (object fs)"
  using all_ok_map_Inr [of fs] by (cases "all_ok fs") (auto simp: object_def)

lemma load_error: "\<nexists>q. x = Fin q \<Longrightarrow> \<exists>e. field k (enc_float x) = Inl e"
  by (cases x) (simp_all add: enc_float_def field_def)

text \<open>Every sample the collector gathers is: load averages that are no numbers make it one that is skipped.\<close>

lemma gathered_sendable:
  assumes "time_ok (\<lambda>_. 0) (mc_now m)" "time_ok zone (mc_check_at m)" "s = snd (gather path m r)"
  shows "sendable zone s"
proof (cases "list_all (\<lambda>x. \<exists>q. x = Fin q) [load_avg_1 s, load_avg_5 s, load_avg_15 s]")
  case True
  then show ?thesis using gather_sample_ok [OF True assms] by (simp add: sendable_def)
next
  case False
  then consider e where "field ''load_avg_1'' (enc_float (load_avg_1 s)) = Inl e"
    | e where "field ''load_avg_5'' (enc_float (load_avg_5 s)) = Inl e"
    | e where "field ''load_avg_15'' (enc_float (load_avg_15 s)) = Inl e"
    using load_error [of "load_avg_1 s" "''load_avg_1''"] load_error [of "load_avg_5 s" "''load_avg_5''"]
      load_error [of "load_avg_15 s" "''load_avg_15''"] by auto
  then have "isl (sample_json zone s)"
  proof cases
    case (1 e) then show ?thesis unfolding sample_json_def by (intro object_error [of e]) simp
  next
    case (2 e) then show ?thesis unfolding sample_json_def by (intro object_error [of e]) simp
  next
    case (3 e) then show ?thesis unfolding sample_json_def by (intro object_error [of e]) simp
  qed
  then show ?thesis by (simp add: sendable_def)
qed

lemma turn_events_received:
  assumes "list_all (sendable zone) (turn_samples [t])"
  shows "one_line zone t \<and> map received_sample (turn_events zone t) =
    map (Some \<circ> clean_sample) (filter (sample_ok zone) (turn_samples [t]))"
proof (cases t)
  case (SampleTurn s)
  show ?thesis
  proof (cases "sample_ok zone s")
    case True
    then show ?thesis using sample_text [OF True] SampleTurn by (auto simp: one_line_def turn_events_def turn_samples_def)
  next
    case False
    then obtain e where "sample_json zone s = Inl e" using assms SampleTurn by (auto simp: turn_samples_def sendable_def isl_def)
    then show ?thesis using False SampleTurn by (simp add: one_line_def turn_events_def turn_samples_def)
  qed
qed (simp add: one_line_def turn_events_def turn_samples_def)

lemma received_body:
  assumes "list_all (sendable zone) (turn_samples ts)"
  shows "received (stream_body zone ts) = map (Some \<circ> clean_sample) (filter (sample_ok zone) (turn_samples ts))"
proof -
  have t: "one_line zone t \<and> map received_sample (turn_events zone t) =
      map (Some \<circ> clean_sample) (filter (sample_ok zone) (turn_samples [t]))" if "t \<in> set ts" for t
    using assms that by (intro turn_events_received) (auto simp: turn_samples_def list_all_iff)
  have "read_events (stream_body zone ts) = concat (map (turn_events zone) ts)"
    using read_turns [of ts zone new_event_reader] t by (simp add: read_events_def idle_def new_event_reader_def)
  then have "received (stream_body zone ts) = concat (map (\<lambda>t. map received_sample (turn_events zone t)) ts)"
    by (simp add: received_def map_concat comp_def)
  also have "\<dots> = concat (map (\<lambda>t. map (Some \<circ> clean_sample) (filter (sample_ok zone) (turn_samples [t]))) ts)"
    using t by (intro arg_cong [where f = concat] map_cong) simp_all
  also have "\<dots> = map (Some \<circ> clean_sample) (filter (sample_ok zone) (turn_samples ts))"
    by (simp add: turn_samples_def map_concat filter_concat comp_def)
  finally show ?thesis .
qed

lemma subseq_mapped: "subseq xs ys \<Longrightarrow> subseq (map f (filter P xs)) (map f (filter P ys))"
  by (intro subseq_map) (rule subseq_filter)

text \<open>
  C13. The stream reaches the app. Take any run of the hub and any client of it, and the turns of that client's
  loop: the samples it was handed, with keep-alives anywhere between. However much of the response has
  arrived, the events a standard event-stream reader has dispatched decode, with no error, to samples
  the handler took, in order and without a gap, so also in the order of the broadcast; a half-arrived
  event is never seen; and once the whole response has arrived every sample that has a JSON form has been read.
\<close>
theorem stream_reaches_the_app:
  assumes "hub_step\<^sup>*\<^sup>* empty_hub h" "c \<in> set (hub_clients h)" "turn_samples ts = sc_delivered c"
    "list_all (sendable zone) (sc_offered c)" "stream_body zone ts = arrived @ missing"
  shows "prefix (received arrived) (map (Some \<circ> clean_sample) (filter (sample_ok zone) (sc_delivered c))) \<and>
    subseq (received arrived) (map (Some \<circ> clean_sample) (filter (sample_ok zone) (sc_offered c))) \<and>
    (missing = [] \<longrightarrow> received arrived = map (Some \<circ> clean_sample) (filter (sample_ok zone) (sc_delivered c)))"
proof -
  have "client_inv c" using hub_inv_reachable [OF assms(1)] assms(2) by (simp add: hub_inv_def)
  then have sub: "subseq (sc_delivered c) (sc_offered c)"
    using subseq_order.trans [OF prefix_imp_subseq [of "sc_delivered c" "sc_delivered c @ sc_queue c"]] by (simp add: client_inv_def)
  have "list_all (sendable zone) (turn_samples ts)" unfolding assms(3)
    using assms(4) list_emb_set [OF sub] by (fastforce simp: list_all_iff)
  then have all: "received (arrived @ missing) = map (Some \<circ> clean_sample) (filter (sample_ok zone) (sc_delivered c))"
    using received_body assms(3,5) by metis
  moreover have "prefix (received arrived) (received (arrived @ missing))"
    using read_events_prefix [of arrived missing] by (simp add: received_def map_mono_prefix)
  ultimately have p: "prefix (received arrived) (map (Some \<circ> clean_sample) (filter (sample_ok zone) (sc_delivered c)))"
    by simp
  then have "subseq (received arrived) (map (Some \<circ> clean_sample) (filter (sample_ok zone) (sc_offered c)))"
    using subseq_mapped [OF sub] subseq_order.trans prefix_imp_subseq by blast
  then show ?thesis using p all by auto
qed

text \<open>One sample delivered after a keep-alive, the response cut in the middle of the next comment.\<close>

theorem stream_reaches_the_app_witness:
  "\<exists>h c. hub_step\<^sup>*\<^sup>* empty_hub h \<and> c \<in> set (hub_clients h) \<and> sc_delivered c = [zero_sample] \<and>
     received (stream_body (\<lambda>_. 0) [KeepAliveTurn, SampleTurn zero_sample]) = [Some zero_sample] \<and>
     prefix (received (take 20 (stream_body (\<lambda>_. 0) [KeepAliveTurn, SampleTurn zero_sample]))) [Some zero_sample]"
proof -
  let ?c = "\<lambda>q dl. \<lparr>sc_registered = True, sc_closed = False, sc_queue = q, sc_delivered = dl, sc_offered = [zero_sample], sc_dropped = 0\<rparr>"
  let ?h = "\<lambda>cs. \<lparr>hub_clients = cs, hub_panic = False\<rparr>"
  have 1: "hub_step empty_hub (?h [new_client_channel])"
    using subscribe [of empty_hub] by (simp add: empty_hub_def)
  have 2: "hub_step (?h [new_client_channel]) (?h [?c [zero_sample] []])"
    using broadcast [of "?h [new_client_channel]" zero_sample]
    by (simp add: broadcast_sample_def offer_def stream_buffer_def new_client_channel_def)
  have 3: "hub_step (?h [?c [zero_sample] []]) (?h [?c [] [zero_sample]])"
    using forward [of 0 "?h [?c [zero_sample] []]" "?c [zero_sample] []" zero_sample "[]"] by simp
  have r: "hub_step\<^sup>*\<^sup>* empty_hub (?h [?c [] [zero_sample]])"
    using 1 2 3 by (meson converse_rtranclp_into_rtranclp r_into_rtranclp)
  have m: "?c [] [zero_sample] \<in> set (hub_clients (?h [?c [] [zero_sample]]))" by simp
  let ?ts = "[KeepAliveTurn, SampleTurn zero_sample]"
  have t: "turn_samples ?ts = sc_delivered (?c [] [zero_sample])" by (simp add: turn_samples_def)
  have "time_ok (\<lambda>_. 0) zero_time" "f64 0 = Fin 0" by code_simp+
  then have ok: "sample_ok (\<lambda>_. 0) zero_sample" by (simp add: sample_ok_def zero_sample_def in_int64_iff)
  then have o: "list_all (sendable (\<lambda>_. 0)) (sc_offered (?c [] [zero_sample]))" by (simp add: sendable_def)
  have "clean_sample zero_sample = zero_sample" by (simp add: clean_sample_def zero_sample_def)
  then show ?thesis
    using stream_reaches_the_app [OF r m t o append_Nil2 [symmetric]]
      stream_reaches_the_app [OF r m t o append_take_drop_id [of 20, symmetric]] r m ok
    by (intro exI [of _ "?h [?c [] [zero_sample]]"] exI [of _ "?c [] [zero_sample]"]) simp
qed

end
