(* ===== verification/Config_Saves.thy ===== *)
theory Config_Saves
  imports Config Go_Json_Text
begin

text \<open>
  \<open>saveConfigFields\<close> one system call at a time, on the bytes. Names lead to inodes and inodes hold bytes; a
  save reads the file, opens the temporary file (creating or truncating it), writes its text in as many
  \<open>write\<close> calls as the system makes of it, closes it and renames it over the file. Any call may fail, and the run
  may stop after any of them, which is what a crash leaves behind. Several saves may be under way: the
  handlers of PATCH /api/v1/config and PATCH /api/v1/alerts call it with no lock, each in its own goroutine.
  (\<open>os.ReadFile\<close> is one step here.)
\<close>

subsection \<open>The disk\<close>

record disk =
  dk_names :: "string \<Rightarrow> nat option"
  dk_bytes :: "nat \<Rightarrow> string"
  dk_fresh :: nat

definition file_text :: "disk \<Rightarrow> string \<Rightarrow> string option" where
  "file_text d p = map_option (dk_bytes d) (dk_names d p)"

text \<open>\<open>O_CREATE | O_TRUNC\<close>.\<close>

definition open_trunc :: "string \<Rightarrow> disk \<Rightarrow> disk \<times> nat" where
  "open_trunc p d = (case dk_names d p of
      Some i \<Rightarrow> (d\<lparr>dk_bytes := (dk_bytes d)(i := [])\<rparr>, i)
    | None \<Rightarrow> (d\<lparr>dk_names := (dk_names d)(p \<mapsto> dk_fresh d), dk_bytes := (dk_bytes d)(dk_fresh d := []), dk_fresh := Suc (dk_fresh d)\<rparr>,
        dk_fresh d))"

text \<open>A write at an offset; a gap before it reads as NUL bytes.\<close>

definition overwrite :: "nat \<Rightarrow> string \<Rightarrow> string \<Rightarrow> string" where
  "overwrite off s old = take off (old @ replicate (off - length old) (CHR 0x00)) @ s @ drop (off + length s) old"

definition rename_name :: "string \<Rightarrow> string \<Rightarrow> disk \<Rightarrow> disk option" where
  "rename_name p q d = map_option (\<lambda>i. d\<lparr>dk_names := (dk_names d)(p := None, q \<mapsto> i)\<rparr>) (dk_names d p)"

subsection \<open>One save\<close>

type_synonym settings = "(string \<times> json result) list"

definition text_content :: "string \<Rightarrow> file_content" where
  "text_content s = (if s = [] then EmptyFile else case parse_json s of None \<Rightarrow> Garbage | Some j \<Rightarrow> Doc j)"

text \<open>The text a save writes, from the text it read (\<open>None\<close>: there was no file).\<close>

definition saved_doc :: "raw_map \<Rightarrow> (string \<times> json) list \<Rightarrow> json" where
  "saved_doc raw vs = (case raw of NilMap \<Rightarrow> JNull | Map kvs \<Rightarrow> JObj (as_map (kvs @ vs)))"

definition new_doc :: "string \<Rightarrow> settings \<Rightarrow> file_content option \<Rightarrow> save_result + json" where
  "new_doc path upd old =
     (case read_raw_map None (\<lambda>_. old) path of
        Inl e \<Rightarrow> Inl (SaveError e)
      | Inr raw \<Rightarrow>
          if raw = NilMap \<and> upd \<noteq> [] then Inl SavePanic
          else (case marshal_values upd of
             Inl e \<Rightarrow> Inl (SaveError (''config: marshaling config: '' @ e))
           | Inr vs \<Rightarrow> Inr (saved_doc raw vs)))"

definition doc_text :: "json \<Rightarrow> string" where
  "doc_text doc = json_indent 0 doc @ [CHR 0x0A]"

definition new_text :: "string \<Rightarrow> settings \<Rightarrow> string option \<Rightarrow> save_result + string" where
  "new_text path upd old = map_sum (\<lambda>r. r) doc_text (new_doc path upd (map_option text_content old))"

text \<open>\<open>Writing i off rest\<close>: the descriptor's inode and offset, and what is left to write.\<close>

datatype phase = Waiting | Opening string | Writing nat nat string | Renaming | Finished save_result

text \<open>What the system answers: the call succeeds (a write of up to so many bytes), or it fails.\<close>

datatype answer = Succeeds nat | Fails string

definition temp_error :: "string \<Rightarrow> phase" where
  "temp_error e = Finished (SaveError (''config: writing temp file: '' @ e))"

definition rename_error :: "string \<Rightarrow> phase" where
  "rename_error e = Finished (SaveError (''config: renaming temp file into place: '' @ e))"

definition path_refused :: "string \<Rightarrow> string option" where
  "path_refused path =
     (if path = [] then Some ''config: no config file path configured; cannot persist setting''
      else if to_lower (file_ext path) \<noteq> ''.json'' \<and> to_lower (file_ext path) \<noteq> []
      then Some (''config: cannot persist to non-JSON config file '' @ quote path)
      else None)"

fun save_call :: "string \<Rightarrow> settings \<Rightarrow> answer \<Rightarrow> disk \<Rightarrow> phase \<Rightarrow> disk \<times> phase" where
  "save_call path upd a d Waiting =
     (case path_refused path of
        Some e \<Rightarrow> (d, Finished (SaveError e))
      | None \<Rightarrow> (case a of
          Fails e \<Rightarrow> (d, Finished (SaveError (''config: reading file '' @ quote path @ '': '' @ e)))
        | Succeeds _ \<Rightarrow> (case new_text path upd (file_text d path) of
            Inl r \<Rightarrow> (d, Finished r)
          | Inr t \<Rightarrow> (d, Opening t))))"
| "save_call path upd a d (Opening t) =
     (case a of
        Fails e \<Rightarrow> (d, temp_error e)
      | Succeeds _ \<Rightarrow> (let (d', i) = open_trunc (tmp_path path) d in (d', Writing i 0 t)))"
| "save_call path upd a d (Writing i off rest) =
     (case a of
        Fails e \<Rightarrow> (d, temp_error e)
      | Succeeds n \<Rightarrow>
          if rest = [] then (d, Renaming)
          else (d\<lparr>dk_bytes := (dk_bytes d)(i := overwrite off (take (Suc n) rest) (dk_bytes d i))\<rparr>,
                Writing i (off + length (take (Suc n) rest)) (drop (Suc n) rest)))"
| "save_call path upd a d Renaming =
     (case a of
        Fails e \<Rightarrow> (d, rename_error e)
      | Succeeds _ \<Rightarrow> (case rename_name (tmp_path path) path d of
          None \<Rightarrow> (d, rename_error ''no such file or directory'')
        | Some d' \<Rightarrow> (d', Finished Saved)))"
| "save_call path upd a d (Finished r) = (d, Finished r)"

subsection \<open>Several saves\<close>

text \<open>The order in which saves reached their rename is recorded in \<open>sv_committed\<close>.\<close>

record saves =
  sv_disk :: disk
  sv_phases :: "phase list"
  sv_committed :: "nat list"

fun under_way :: "phase \<Rightarrow> bool" where
  "under_way Waiting \<longleftrightarrow> False"
| "under_way (Finished r) \<longleftrightarrow> False"
| "under_way _ \<longleftrightarrow> True"

definition save_turn :: "string \<Rightarrow> settings list \<Rightarrow> nat \<Rightarrow> answer \<Rightarrow> saves \<Rightarrow> saves" where
  "save_turn path upds i a w =
     (let (d, ph) = save_call path (upds ! i) a (sv_disk w) (sv_phases w ! i)
      in \<lparr>sv_disk = d, sv_phases = (sv_phases w)[i := ph],
          sv_committed = (if ph = Finished Saved \<and> sv_phases w ! i \<noteq> Finished Saved then sv_committed w @ [i] else sv_committed w)\<rparr>)"

text \<open>\<open>alone\<close>: a save makes its calls only while no other is under way.\<close>

inductive save_step :: "bool \<Rightarrow> string \<Rightarrow> settings list \<Rightarrow> saves \<Rightarrow> saves \<Rightarrow> bool"
  for alone :: bool and path :: string and upds :: "settings list" where
  "i < length (sv_phases w) \<Longrightarrow> (alone \<Longrightarrow> \<forall>j < length (sv_phases w). j \<noteq> i \<longrightarrow> \<not> under_way (sv_phases w ! j)) \<Longrightarrow>
   save_step alone path upds w (save_turn path upds i a w)"

definition saves_start :: "disk \<Rightarrow> settings list \<Rightarrow> saves" where
  "saves_start d upds = \<lparr>sv_disk = d, sv_phases = map (\<lambda>_. Waiting) upds, sv_committed = []\<rparr>"

text \<open>Inode numbers in use are below the next one, and the file and its temporary name are not links to one inode.\<close>

definition disk_ok :: "string \<Rightarrow> disk \<Rightarrow> bool" where
  "disk_ok path d \<longleftrightarrow> (\<forall>i. dk_names d path = Some i \<longrightarrow> i < dk_fresh d \<and> dk_names d (tmp_path path) \<noteq> Some i) \<and>
     (\<forall>i. dk_names d (tmp_path path) = Some i \<longrightarrow> i < dk_fresh d)"

text \<open>The texts of saves done one after the other.\<close>

definition apply_save :: "string \<Rightarrow> settings \<Rightarrow> string option \<Rightarrow> string option" where
  "apply_save path upd t = (case new_text path upd t of Inl r \<Rightarrow> t | Inr t' \<Rightarrow> Some t')"

definition apply_saves :: "string \<Rightarrow> settings list \<Rightarrow> nat list \<Rightarrow> string option \<Rightarrow> string option" where
  "apply_saves path upds is t = fold (\<lambda>i. apply_save path (upds ! i)) is t"

lemma apply_saves_snoc: "apply_saves path upds (is @ [i]) t = apply_save path (upds ! i) (apply_saves path upds is t)"
  by (simp add: apply_saves_def)

text \<open>Where a save that is alone stands: what it has written so far is the head of its text.\<close>

definition phase_inv :: "string \<Rightarrow> settings \<Rightarrow> disk \<Rightarrow> phase \<Rightarrow> bool" where
  "phase_inv path upd d ph = (case ph of
      Opening t \<Rightarrow> new_text path upd (file_text d path) = Inr t
    | Writing i off rest \<Rightarrow> dk_names d (tmp_path path) = Some i \<and> length (dk_bytes d i) = off \<and>
        new_text path upd (file_text d path) = Inr (dk_bytes d i @ rest)
    | Renaming \<Rightarrow> (\<exists>t. file_text d (tmp_path path) = Some t \<and> new_text path upd (file_text d path) = Inr t)
    | _ \<Rightarrow> True)"

lemma phase_inv_idle: "\<not> under_way ph \<Longrightarrow> phase_inv path upd d ph"
  by (cases ph) (simp_all add: phase_inv_def)

lemma overwrite_end: "overwrite (length old) s old = old @ s"
  by (simp add: overwrite_def)

text \<open>Bytes put into another inode do not show in the file.\<close>

lemma file_text_other [simp]: "m \<noteq> Some i \<Longrightarrow> map_option (f(i := x)) m = map_option f m"
  by (cases m) auto

lemma not_alias: "disk_ok path d \<Longrightarrow> dk_names d (tmp_path path) = Some i \<Longrightarrow> dk_names d path \<noteq> Some i"
  by (auto simp: disk_ok_def)

lemma not_fresh: "disk_ok path d \<Longrightarrow> dk_names d path \<noteq> Some (dk_fresh d)"
  by (auto simp: disk_ok_def)

text \<open>A call of a save that is alone leaves the file as it is, or replaces it by the whole new text.\<close>

lemma save_call_alone:
  assumes "save_call path upd a d ph = (d', ph')" "phase_inv path upd d ph" "disk_ok path d" "\<not> (\<exists>r. ph = Finished r)"
  shows "phase_inv path upd d' ph' \<and> disk_ok path d' \<and>
    file_text d' path = (if ph' = Finished Saved then apply_save path upd (file_text d path) else file_text d path)"
proof (cases ph)
  case Waiting
  have "r \<noteq> Saved" if "new_text path upd old = Inl r" for r old
    using that by (auto simp: new_text_def new_doc_def split: sum.splits if_splits)
  then show ?thesis
    using assms Waiting by (auto simp: phase_inv_def split: option.splits answer.splits sum.splits)
next
  case (Opening t)
  show ?thesis
  proof (cases a)
    case (Succeeds n)
    show ?thesis
    proof (cases "dk_names d (tmp_path path)")
      case None
      then show ?thesis
        using assms Opening Succeeds not_fresh [OF assms(3)]
        by (auto simp: phase_inv_def open_trunc_def disk_ok_def file_text_def less_Suc_eq)
    next
      case (Some i)
      then show ?thesis
        using assms Opening Succeeds not_alias [OF assms(3) Some]
        by (auto simp: phase_inv_def open_trunc_def disk_ok_def file_text_def)
    qed
  qed (use assms Opening in \<open>auto simp: phase_inv_def temp_error_def\<close>)
next
  case (Writing i off rest)
  then have tmp: "dk_names d (tmp_path path) = Some i" "length (dk_bytes d i) = off"
    "new_text path upd (file_text d path) = Inr (dk_bytes d i @ rest)"
    using assms(2) by (simp_all add: phase_inv_def)
  show ?thesis
  proof (cases a)
    case (Succeeds n)
    then show ?thesis
      using assms(1,3) Writing tmp not_alias [OF assms(3) tmp(1)] overwrite_end [of "dk_bytes d i"]
      by (auto simp: phase_inv_def disk_ok_def file_text_def split: if_splits)
  qed (use assms Writing tmp in \<open>auto simp: phase_inv_def temp_error_def\<close>)
next
  case Renaming
  then show ?thesis
    using assms by (cases a)
      (auto simp: phase_inv_def disk_ok_def file_text_def rename_error_def rename_name_def apply_save_def split: option.splits)
qed (use assms in auto)

definition saves_inv :: "string \<Rightarrow> settings list \<Rightarrow> string option \<Rightarrow> saves \<Rightarrow> bool" where
  "saves_inv path upds t w \<longleftrightarrow> length (sv_phases w) = length upds \<and> disk_ok path (sv_disk w) \<and>
     (\<forall>i < length upds. phase_inv path (upds ! i) (sv_disk w) (sv_phases w ! i)) \<and>
     file_text (sv_disk w) path = apply_saves path upds (sv_committed w) t \<and> distinct (sv_committed w) \<and>
     set (sv_committed w) = {i. i < length upds \<and> sv_phases w ! i = Finished Saved}"

lemma save_call_finished: "save_call path upd a d (Finished r) = (d, Finished r)"
  by simp

lemma save_turn_inv:
  assumes inv: "saves_inv path upds t w" and i: "i < length (sv_phases w)"
    and alone: "\<forall>j < length (sv_phases w). j \<noteq> i \<longrightarrow> \<not> under_way (sv_phases w ! j)"
  shows "saves_inv path upds t (save_turn path upds i a w)"
proof (cases "\<exists>r. sv_phases w ! i = Finished r")
  case True
  then obtain r where r: "sv_phases w ! i = Finished r" by blast
  then have "(sv_phases w)[i := Finished r] = sv_phases w" using list_update_id [of "sv_phases w" i] by simp
  then have "save_turn path upds i a w = w" by (simp add: save_turn_def r)
  then show ?thesis using inv by simp
next
  case False
  obtain d ph where c: "save_call path (upds ! i) a (sv_disk w) (sv_phases w ! i) = (d, ph)" by fastforce
  have len: "length (sv_phases w) = length upds" using inv by (simp add: saves_inv_def)
  then have "phase_inv path (upds ! i) (sv_disk w) (sv_phases w ! i)" "disk_ok path (sv_disk w)"
    using inv i by (simp_all add: saves_inv_def)
  note call = save_call_alone [OF c this False]
  have w: "save_turn path upds i a w = \<lparr>sv_disk = d, sv_phases = (sv_phases w)[i := ph],
      sv_committed = (if ph = Finished Saved then sv_committed w @ [i] else sv_committed w)\<rparr>"
    using False by (auto simp: save_turn_def c)
  have "phase_inv path (upds ! j) d ((sv_phases w)[i := ph] ! j)" if "j < length upds" for j
    using call alone that i len by (cases "j = i") (simp_all add: phase_inv_idle)
  moreover have "file_text d path = apply_saves path upds (sv_committed (save_turn path upds i a w)) t"
    using call inv by (simp add: w saves_inv_def apply_saves_snoc)
  moreover have "i \<notin> set (sv_committed w)" using inv False by (auto simp: saves_inv_def)
  ultimately show ?thesis
    using call inv i False by (auto simp: w saves_inv_def nth_list_update)
qed

lemma saves_inv_start: "disk_ok path d \<Longrightarrow> saves_inv path upds (file_text d path) (saves_start d upds)"
  by (auto simp: saves_inv_def saves_start_def phase_inv_def apply_saves_def)

lemma saves_inv_reachable:
  assumes "(save_step True path upds)\<^sup>*\<^sup>* (saves_start d upds) w" "disk_ok path d"
  shows "saves_inv path upds (file_text d path) w"
  using assms(1)
proof (induction rule: rtranclp_induct)
  case base
  show ?case using assms(2) by (rule saves_inv_start)
next
  case (step v w)
  then show ?case by (auto elim!: save_step.cases intro: save_turn_inv)
qed

subsection \<open>Agreement with the model of \<open>Config\<close>\<close>

definition abs_fs :: "disk \<Rightarrow> fs" where
  "abs_fs d = (\<lambda>p. map_option text_content (file_text d p))"

lemma read_raw_map_at: "read_raw_map None files path = read_raw_map None (\<lambda>_. files path) path"
  by (simp add: read_raw_map_def read_file_def)

lemma save_config_fields_calls:
  "save_config_fields ra wa path upd files =
     (case path_refused path of Some e \<Rightarrow> (files, SaveError e)
      | None \<Rightarrow> (case ra of Some e \<Rightarrow> (files, SaveError (''config: reading file '' @ quote path @ '': '' @ e))
        | None \<Rightarrow> (case new_doc path upd (files path) of
            Inl r \<Rightarrow> (files, r)
          | Inr doc \<Rightarrow>
              (let (files1, r1) = write_file wa (tmp_path path) (Doc doc) files
               in case r1 of Some e \<Rightarrow> (files1, SaveError (''config: writing temp file: '' @ e))
                | None \<Rightarrow> (let (files2, r2) = rename_file wa (tmp_path path) path files1
                    in case r2 of Some e \<Rightarrow> (files2, SaveError (''config: renaming temp file into place: '' @ e))
                     | None \<Rightarrow> (files2, Saved))))))"
proof (cases ra)
  case (Some e)
  then show ?thesis by (simp add: save_config_fields_def path_refused_def read_raw_map_def read_file_def)
next
  case None
  then show ?thesis
    unfolding save_config_fields_def path_refused_def new_doc_def saved_doc_def
    by (simp add: read_raw_map_at [of files] split: sum.split)
qed

definition outcome_ok :: "string \<Rightarrow> settings \<Rightarrow> fs \<Rightarrow> phase \<Rightarrow> bool" where
  "outcome_ok path upd files ph = (case ph of
      Waiting \<Rightarrow> True
    | Finished r \<Rightarrow> (\<exists>ra wa. snd (save_config_fields ra wa path upd files) = r)
    | _ \<Rightarrow> path_refused path = None \<and> \<not> isl (new_doc path upd (files path)))"

lemma outcome_ok_errors:
  assumes "path_refused path = None" "\<not> isl (new_doc path upd (files path))"
  shows "outcome_ok path upd files (temp_error e)" "outcome_ok path upd files (rename_error e)"
    "outcome_ok path upd files (Finished Saved)"
proof -
  obtain doc where doc: "new_doc path upd (files path) = Inr doc" using assms(2) by (cases "new_doc path upd (files path)") auto
  show "outcome_ok path upd files (temp_error e)"
    unfolding outcome_ok_def temp_error_def
    by (simp, rule exI [of _ None], rule exI [of _ "all_ok\<lparr>wa_write := Some e\<rparr>"])
      (simp add: save_config_fields_calls assms(1) doc write_file_def)
  show "outcome_ok path upd files (rename_error e)"
    unfolding outcome_ok_def rename_error_def
    by (simp, rule exI [of _ None], rule exI [of _ "all_ok\<lparr>wa_rename := Some e\<rparr>"])
      (simp add: save_config_fields_calls assms(1) doc write_file_def rename_file_def all_ok_def)
  show "outcome_ok path upd files (Finished Saved)"
    unfolding outcome_ok_def
    by (simp, rule exI [of _ None], rule exI [of _ all_ok])
      (simp add: save_config_fields_calls assms(1) doc write_file_def rename_file_def all_ok_def)
qed

lemma outcome_ok_call:
  assumes "save_call path upd a d ph = (d', ph')" "outcome_ok path upd files ph"
    "ph = Waiting \<Longrightarrow> abs_fs d path = files path"
  shows "outcome_ok path upd files ph'"
proof (cases ph)
  case Waiting
  have read: "outcome_ok path upd files (Finished (SaveError (''config: reading file '' @ quote path @ '': '' @ e)))"
    if "path_refused path = None" for e
    unfolding outcome_ok_def by (simp, rule exI [of _ "Some e"]) (simp add: save_config_fields_calls that)
  have old: "map_option text_content (file_text d path) = files path" using assms(3) Waiting by (simp add: abs_fs_def)
  show ?thesis
  proof (cases "path_refused path")
    case None
    show ?thesis
    proof (cases a)
      case (Succeeds n)
      show ?thesis
      proof (cases "new_doc path upd (files path)")
        case (Inl r)
        then have "ph' = Finished r" using assms(1) Waiting None Succeeds old by (simp add: new_text_def)
        then show ?thesis unfolding outcome_ok_def
          by (simp, intro exI [of _ None]) (simp add: save_config_fields_calls None Inl)
      next
        case (Inr doc)
        then show ?thesis using assms(1) Waiting None Succeeds old by (auto simp: new_text_def outcome_ok_def)
      qed
    qed (use assms(1) Waiting None read [OF None] in auto)
  qed (use assms(1) Waiting in \<open>auto simp: outcome_ok_def save_config_fields_calls\<close>)
next
  case (Finished r)
  then show ?thesis using assms by simp
qed (use assms(1,2) in \<open>auto simp: outcome_ok_def [of _ _ _ "Opening _"] outcome_ok_def [of _ _ _ "Writing _ _ _"]
      outcome_ok_def [of _ _ _ Renaming] Let_def outcome_ok_errors split: answer.splits option.splits prod.splits if_splits\<close>)

lemma set_single: "distinct xs \<Longrightarrow> set xs = {x} \<Longrightarrow> xs = [x]"
  by (cases xs; cases "tl xs") auto

lemma lone_committed:
  assumes "saves_inv path [upd] t v"
  shows "sv_committed v = (if sv_phases v ! 0 = Finished Saved then [0] else [])"
proof -
  have "set (sv_committed v) = {i. i < length [upd] \<and> sv_phases v ! i = Finished Saved}" and d: "distinct (sv_committed v)"
    using assms unfolding saves_inv_def by blast+
  moreover have "{i. i < length [upd] \<and> sv_phases v ! i = Finished Saved} = (if sv_phases v ! 0 = Finished Saved then {0} else {})"
    by auto
  ultimately have "set (sv_committed v) = (if sv_phases v ! 0 = Finished Saved then {0} else {})" by (simp only:)
  then show ?thesis using set_single [OF d, of 0] by (simp split: if_splits)
qed

lemma lone_save_outcome:
  assumes "(save_step True path [upd])\<^sup>*\<^sup>* (saves_start d [upd]) w" "disk_ok path d"
  shows "outcome_ok path upd (abs_fs d) (sv_phases w ! 0)"
  using assms(1)
proof (induction rule: rtranclp_induct)
  case base
  show ?case by (simp add: saves_start_def outcome_ok_def)
next
  case (step v w)
  have inv: "saves_inv path [upd] (file_text d path) v" using saves_inv_reachable [OF step(1) assms(2)] .
  obtain a where w: "w = save_turn path [upd] 0 a v" using step(2) inv by (auto simp: saves_inv_def elim!: save_step.cases)
  obtain d' ph where c: "save_call path upd a (sv_disk v) (sv_phases v ! 0) = (d', ph)" by fastforce
  have "abs_fs (sv_disk v) path = abs_fs d path" if "sv_phases v ! 0 = Waiting"
  proof -
    have "sv_committed v = []" using lone_committed [OF inv] that by simp
    then show ?thesis using inv by (simp add: saves_inv_def abs_fs_def apply_saves_def)
  qed
  then have "outcome_ok path upd (abs_fs d) ph" using outcome_ok_call [OF c step.IH] by blast
  then show ?case using inv by (simp add: w save_turn_def c saves_inv_def)
qed

lemma save_config_fields_doc:
  assumes "save_config_fields ra wa path upd files = (files', r)"
  shows "if r = Saved then (\<exists>doc. new_doc path upd (files path) = Inr doc \<and> files' path = Some (Doc doc)) else files' path = files path"
proof -
  have not_saved: "r' \<noteq> Saved" if "new_doc path upd old = Inl r'" for r' old
    using that by (auto simp: new_doc_def split: sum.splits if_splits)
  show ?thesis
  proof (cases "path_refused path = None \<and> ra = None")
    case True
    then show ?thesis
      using assms not_saved
      by (cases "new_doc path upd (files path)"; cases "wa_write wa"; cases "wa_rename wa")
        (auto simp: save_config_fields_calls write_file_def rename_file_def)
  next
    case False
    then show ?thesis using assms by (cases "path_refused path"; cases ra) (auto simp: save_config_fields_calls)
  qed
qed

text \<open>What a lone save does to the file is what \<open>save_config_fields\<close> does for some answers of the system.\<close>

theorem lone_save_refines:
  assumes "disk_ok path d" "(save_step True path [upd])\<^sup>*\<^sup>* (saves_start d [upd]) w" "sv_phases w ! 0 = Finished r"
  shows "\<exists>ra wa files'. save_config_fields ra wa path upd (abs_fs d) = (files', r) \<and>
    (if r = Saved then \<exists>doc. files' path = Some (Doc doc) \<and> file_text (sv_disk w) path = Some (doc_text doc)
     else files' path = abs_fs d path \<and> file_text (sv_disk w) path = file_text d path)"
proof -
  have inv: "saves_inv path [upd] (file_text d path) w" using saves_inv_reachable [OF assms(2,1)] .
  obtain ra wa files' where s: "save_config_fields ra wa path upd (abs_fs d) = (files', r)"
    using lone_save_outcome [OF assms(2,1)] assms(3) by (fastforce simp: outcome_ok_def prod_eq_iff)
  have "sv_committed w = (if r = Saved then [0] else [])" using lone_committed [OF inv] assms(3) by simp
  then have "file_text (sv_disk w) path = (if r = Saved then apply_save path upd (file_text d path) else file_text d path)"
    using inv by (simp add: saves_inv_def apply_saves_def)
  moreover have "apply_save path upd (file_text d path) = Some (doc_text doc)" if "new_doc path upd (abs_fs d path) = Inr doc" for doc
    using that by (simp add: apply_save_def new_text_def abs_fs_def)
  ultimately show ?thesis
    using s save_config_fields_doc [OF s]
    by (intro exI [of _ ra] exI [of _ wa] exI [of _ files']) (cases "r = Saved"; fastforce)
qed

subsection \<open>Settings through the text\<close>

lemma last_keys_id: "distinct (map fst kvs) \<Longrightarrow> last_keys kvs = kvs"
  by (induction kvs rule: last_keys.induct) auto

lemma as_map_idem [simp]: "as_map (as_map kvs) = as_map kvs"
proof -
  have "sort_key fst (as_map kvs) = as_map kvs" by (rule sort_key_id_if_sorted) (simp add: as_map_def)
  then show ?thesis by (simp only: as_map_def [of "as_map kvs"] last_keys_id [OF as_map_distinct])
qed

lemma to_any_list_iff: "to_any_list js = Some xs \<longleftrightarrow> list_all2 (\<lambda>j x. to_any j = Some x) js xs"
  by (induction js arbitrary: xs) (auto simp: list_all2_Cons1 split: option.splits)

lemma to_any_pairs_iff:
  "to_any_pairs kvs = Some ps \<longleftrightarrow> list_all2 (\<lambda>p q. fst q = fst p \<and> to_any (snd p) = Some (snd q)) kvs ps"
  by (induction kvs arbitrary: ps) (auto simp: list_all2_Cons1 split: option.splits prod.splits)

lemma as_map_set: "set (as_map kvs) \<subseteq> set kvs"
proof -
  have "set (last_keys kvs) \<subseteq> set kvs" by (induction kvs rule: last_keys.induct) auto
  then show ?thesis by (simp add: as_map_def)
qed

text \<open>A value decoded into an \<open>any\<close> decodes to itself.\<close>

lemma to_any_idem: "to_any j = Some x \<Longrightarrow> to_any x = Some x"
proof (induction j arbitrary: x)
  case (JNum r)
  then obtain q where "f64 r = Fin q" "x = JNum q" by (auto split: float64.splits)
  then show ?case using f64_exact [of r] by simp
next
  case (JArr js)
  then obtain xs where xs: "x = JArr xs" "list_all2 (\<lambda>j x. to_any j = Some x) js xs"
    by (auto simp: to_any_list_iff)
  have "list_all2 (\<lambda>j x. to_any j = Some x) xs xs"
    using xs(2) JArr.IH by (fastforce simp: list_all2_conv_all_nth in_set_conv_nth)
  then show ?case by (simp add: xs(1) to_any_list_iff [symmetric])
next
  case (JObj kvs)
  then obtain ps where ps: "x = JObj (as_map ps)" "list_all2 (\<lambda>p q. fst q = fst p \<and> to_any (snd p) = Some (snd q)) kvs ps"
    by (auto simp: to_any_pairs_iff)
  have "to_any (snd q) = Some (snd q)" if "q \<in> set ps" for q
  proof -
    have "\<exists>i < length ps. ps ! i = q" using that by (simp only: in_set_conv_nth)
    then obtain i where i: "i < length ps" "q = ps ! i" by blast
    then have p: "kvs ! i \<in> set kvs" "to_any (snd (kvs ! i)) = Some (snd q)"
      using list_all2_nthD2 [OF ps(2) i(1)] list_all2_lengthD [OF ps(2)] i by simp_all
    show ?thesis by (rule JObj.IH [OF p(1) _ p(2)]) (cases "kvs ! i", simp)
  qed
  then have "list_all2 (\<lambda>p q. fst q = fst p \<and> to_any (snd p) = Some (snd q)) (as_map ps) (as_map ps)"
    using as_map_set [of ps] by (intro list.rel_refl_strong) auto
  then have "to_any_pairs (as_map ps) = Some (as_map ps)" by (simp only: to_any_pairs_iff)
  then show ?case by (simp add: ps(1))
qed auto

lemma to_any_read_back: "json_ok n j \<Longrightarrow> to_any (read_back j) = to_any j"
proof (induction j arbitrary: n)
  case (JNum r)
  then show ?case using number_text_reads [of r] by (cases "plain_int r") (auto simp: number_ok_def)
next
  case (JArr js)
  then obtain m where "\<forall>j \<in> set js. json_ok m j" by (auto simp: json_ok_JArr)
  then have "to_any_list (map read_back js) = to_any_list js" using JArr.IH by (induction js) (auto split: option.split)
  then show ?case by simp
next
  case (JObj kvs)
  then obtain m where "\<forall>(k, v) \<in> set kvs. valid_utf8 k \<and> json_ok m v" by (auto simp: json_ok_JObj)
  then have "to_any_pairs (map (\<lambda>(k, v). (k, read_back v)) kvs) = to_any_pairs kvs"
    using JObj.IH by (induction kvs) (fastforce split: option.split)+
  then show ?case by simp
qed auto

lemma plain_int_finite: "plain_int r \<Longrightarrow> \<exists>x. f64 r = Fin x"
proof -
  assume p: "plain_int r"
  have "(2 :: int) ^ 64 \<le> 2 ^ 900" by (rule power_increasing) simp_all
  then have "f_of_int \<lfloor>r\<rfloor> = Fin (round_rat (of_int \<lfloor>r\<rfloor>))"
    using p by (intro f_of_int_fin) (auto simp: plain_int_def)
  then show ?thesis using p by (auto simp: f_of_int_def plain_int_def)
qed

lemma to_any_ok: "json_ok n j \<Longrightarrow> \<exists>x. to_any j = Some x \<and> json_ok n x"
proof (induction j arbitrary: n)
  case (JNum r)
  then obtain x where "f64 r = Fin x" using plain_int_finite by (auto simp: number_ok_def)
  then show ?case using f64_exact [of r] by (simp add: number_ok_def)
next
  case (JArr js)
  then obtain m where n: "n = Suc m" "\<forall>j \<in> set js. json_ok m j" by (auto simp: json_ok_JArr)
  have "\<forall>j \<in> set js. \<exists>x. to_any j = Some x \<and> json_ok m x" using JArr.IH n(2) by blast
  then obtain f where f: "\<forall>j \<in> set js. to_any j = Some (f j) \<and> json_ok m (f j)" by metis
  then have "to_any_list js = Some (map f js)" by (auto simp: to_any_list_iff list_all2_conv_all_nth)
  then show ?case using f n(1) by (simp add: list_all_iff)
next
  case (JObj kvs)
  then obtain m where n: "n = Suc m" "\<forall>(k, v) \<in> set kvs. valid_utf8 k \<and> json_ok m v" by (auto simp: json_ok_JObj)
  have "\<exists>x. to_any (snd p) = Some x \<and> json_ok m x" if "p \<in> set kvs" for p
    using JObj.IH [of p "snd p"] n(2) that by (cases p) (fastforce simp: snds.simps)
  then obtain f where f: "\<forall>p \<in> set kvs. to_any (snd p) = Some (f p) \<and> json_ok m (f p)" by metis
  let ?ps = "map (\<lambda>p. (fst p, f p)) kvs"
  have "to_any_pairs kvs = Some ?ps" using f by (auto simp: to_any_pairs_iff list_all2_conv_all_nth)
  moreover have "\<forall>(k, v) \<in> set (as_map ?ps). valid_utf8 k \<and> json_ok m v"
    using as_map_set [of ?ps] f n(2) by fastforce
  ultimately show ?case by (auto simp: json_ok_JObj n(1))
qed auto

text \<open>The settings a text holds, and the values a request may set.\<close>

definition raw_settings :: "string \<Rightarrow> string option \<Rightarrow> (string \<times> json) list option" where
  "raw_settings path t =
     (case read_raw_map None (\<lambda>_. map_option text_content t) path of Inr (Map kvs) \<Rightarrow> Some kvs | _ \<Rightarrow> None)"

definition savable :: "settings \<Rightarrow> bool" where
  "savable upd \<longleftrightarrow> list_all (\<lambda>(k, v). valid_utf8 k \<and> (case v of Inl e \<Rightarrow> False | Inr j \<Rightarrow> json_ok (max_depth - 1) j)) upd"

lemma marshal_savable:
  "savable upd \<Longrightarrow> \<exists>vs. marshal_values upd = Inr vs \<and> upd = map (\<lambda>(k, v). (k, Inr v)) vs \<and>
     (\<forall>(k, v) \<in> set vs. valid_utf8 k \<and> json_ok (max_depth - 1) v)"
  by (induction upd rule: marshal_values.induct) (auto simp: savable_def split: sum.splits)

lemma raw_settings_fixed: "raw_settings path t = Some kvs \<Longrightarrow> to_any (JObj kvs) = Some (JObj kvs)"
proof -
  assume r: "raw_settings path t = Some kvs"
  then consider "kvs = []" | j where "to_any j = Some (JObj kvs)"
    by (auto simp: raw_settings_def read_raw_map_def split: option.splits sum.splits raw_map.splits read_result.splits
        file_content.splits json.splits simp del: to_any.simps)
  then show ?thesis by cases (auto dest: to_any_idem simp: as_map_def)
qed

lemma obj_get_Inr: "obj_get (map (\<lambda>(k, v). (k, Inr v)) vs) k = map_option Inr (obj_get vs k)"
  by (induction vs) (auto simp: obj_get_Cons split: option.splits)

definition set_value :: "settings \<Rightarrow> string \<Rightarrow> json option \<Rightarrow> json option" where
  "set_value upd k old = (case obj_get upd k of Some (Inr v) \<Rightarrow> to_any v | _ \<Rightarrow> old)"

lemma new_text_settings:
  assumes "raw_settings path old = Some kvs" "json_ok max_depth (JObj kvs)" "savable upd"
  shows "\<exists>t kvs'. new_text path upd old = Inr t \<and> raw_settings path (Some t) = Some kvs' \<and>
    json_ok max_depth (JObj kvs') \<and> (\<forall>k. obj_get kvs' k = set_value upd k (obj_get kvs k))"
proof -
  obtain vs where vs: "marshal_values upd = Inr vs" "upd = map (\<lambda>(k, v). (k, Inr v)) vs"
    "\<forall>(k, v) \<in> set vs. valid_utf8 k \<and> json_ok (max_depth - 1) v"
    using marshal_savable [OF assms(3)] by blast
  define doc where "doc = JObj (as_map (kvs @ vs))"
  obtain m where m: "max_depth = Suc m" "\<forall>(k, v) \<in> set kvs. valid_utf8 k \<and> json_ok m v"
    using assms(2) by (auto simp: json_ok_JObj)
  have "\<forall>(k, v) \<in> set (kvs @ vs). valid_utf8 k \<and> json_ok m v" using m(2) vs(3) unfolding m(1) by auto
  then have ok: "json_ok max_depth doc"
    using as_map_set [of "kvs @ vs"] by (auto simp: doc_def m(1) list_all_iff)
  then obtain x where x: "to_any doc = Some x" "json_ok max_depth x" using to_any_ok by blast
  then obtain ps where ps: "to_any_pairs (as_map (kvs @ vs)) = Some ps" "x = JObj (as_map ps)" by (auto simp: doc_def)
  define t where "t = doc_text doc"
  have t: "new_text path upd old = Inr t"
    using assms(1) vs(1) by (auto simp: new_text_def new_doc_def raw_settings_def saved_doc_def t_def doc_def
        split: sum.splits raw_map.splits)
  have "parse_json t = Some (read_back doc)" unfolding t_def doc_text_def by (rule parse_indent [OF ok]) (simp add: json_space_def)
  moreover have "to_any (read_back doc) = Some (JObj (as_map ps))" using to_any_read_back [OF ok] x(1) ps(2) by simp
  moreover have "t \<noteq> []" by (simp add: t_def doc_text_def)
  ultimately have r: "raw_settings path (Some t) = Some (as_map ps)"
    by (simp add: raw_settings_def read_raw_map_def read_file_def text_content_def doc_def del: to_any.simps)
  obtain qs where qs: "to_any_pairs kvs = Some qs" "as_map qs = kvs" using raw_settings_fixed [OF assms(1)] by auto
  then have "obj_get kvs k = Option.bind (obj_get kvs k) to_any" for k
    using to_any_obj_get [OF qs(1), of k] obj_get_as_map [of qs k] by simp
  then have "obj_get (as_map ps) k = set_value upd k (obj_get kvs k)" for k
    using to_any_obj_get [OF ps(1), of k]
    by (simp add: set_value_def vs(2) obj_get_Inr obj_get_append split: option.split)
  then show ?thesis using t r x(2) ps(2) by blast
qed

lemma apply_saves_settings:
  assumes "raw_settings path t = Some kvs" "json_ok max_depth (JObj kvs)" "list_all (\<lambda>i. savable (upds ! i)) is"
  shows "\<exists>kvs'. raw_settings path (apply_saves path upds is t) = Some kvs' \<and> json_ok max_depth (JObj kvs') \<and>
    (\<forall>k. obj_get kvs' k = fold (\<lambda>i. set_value (upds ! i) k) is (obj_get kvs k))"
  using assms(3)
proof (induction "is" rule: rev_induct)
  case Nil
  then show ?case using assms(1,2) by (simp add: apply_saves_def)
next
  case (snoc i "is")
  then obtain kvs' where k: "raw_settings path (apply_saves path upds is t) = Some kvs'" "json_ok max_depth (JObj kvs')"
    "\<forall>k. obj_get kvs' k = fold (\<lambda>i. set_value (upds ! i) k) is (obj_get kvs k)" by auto
  have "savable (upds ! i)" using snoc.prems by simp
  from new_text_settings [OF k(1,2) this] show ?case
    using k(3) by (auto simp: apply_saves_snoc apply_save_def)
qed

subsection \<open>Runs by script\<close>

text \<open>Which save makes the next call, and the system's answer.\<close>

definition play :: "string \<Rightarrow> settings list \<Rightarrow> (nat \<times> answer) list \<Rightarrow> saves \<Rightarrow> saves" where
  "play path upds script w = fold (\<lambda>(i, a). save_turn path upds i a) script w"

lemma save_turn_length [simp]: "length (sv_phases (save_turn path upds i a w)) = length (sv_phases w)"
  by (simp add: save_turn_def split: prod.split)

lemma play_run:
  "list_all (\<lambda>(i, a). i < length (sv_phases w)) script \<Longrightarrow> (save_step False path upds)\<^sup>*\<^sup>* w (play path upds script w)"
proof (induction script arbitrary: w)
  case (Cons p script)
  obtain i a where p: "p = (i, a)" by fastforce
  have "save_step False path upds w (save_turn path upds i a w)" using Cons.prems p by (auto intro: save_step.intros)
  then show ?case using Cons p by (simp add: play_def converse_rtranclp_into_rtranclp)
qed (simp add: play_def)

text \<open>The same, checking that each call is made alone.\<close>

fun apart :: "string \<Rightarrow> settings list \<Rightarrow> (nat \<times> answer) list \<Rightarrow> saves \<Rightarrow> bool" where
  "apart path upds [] w \<longleftrightarrow> True"
| "apart path upds ((i, a) # script) w \<longleftrightarrow> i < length (sv_phases w) \<and>
     list_all (\<lambda>j. j = i \<or> \<not> under_way (sv_phases w ! j)) [0..<length (sv_phases w)] \<and>
     apart path upds script (save_turn path upds i a w)"

lemma play_alone_run:
  "apart path upds script w \<Longrightarrow> (save_step True path upds)\<^sup>*\<^sup>* w (play path upds script w)"
proof (induction script arbitrary: w)
  case (Cons p script)
  obtain i a where p: "p = (i, a)" by fastforce
  have "save_step True path upds w (save_turn path upds i a w)"
    using Cons.prems p by (intro save_step.intros) (auto simp: list_all_iff)
  then show ?case using Cons p by (simp add: play_def converse_rtranclp_into_rtranclp)
qed (simp add: play_def)

definition empty_disk :: disk where
  "empty_disk = \<lparr>dk_names = (\<lambda>_. None), dk_bytes = (\<lambda>_. []), dk_fresh = 0\<rparr>"

definition interval_save :: "string \<Rightarrow> settings" where
  "interval_save d = [(''poll_interval'', Inr (JStr d))]"

definition full_save :: "nat \<Rightarrow> (nat \<times> answer) list" where
  "full_save i = [(i, Succeeds 0), (i, Succeeds 0), (i, Succeeds 9), (i, Succeeds 99), (i, Succeeds 0), (i, Succeeds 0)]"


definition two_saves :: "settings list" where
  "two_saves = [interval_save ''1h10m0s'', [(''rules'', Inr (JArr []))]]"

definition two_intervals :: "settings list" where
  "two_intervals = [interval_save ''1h10m0s'', interval_save ''5m0s'']"

definition lost_script :: "(nat \<times> answer) list" where
  "lost_script = [(0, Succeeds 0), (1, Succeeds 0)] @ tl (full_save 0) @ tl (full_save 1)"

definition torn_script :: "(nat \<times> answer) list" where
  "torn_script = [(0, Succeeds 0), (1, Succeeds 0), (0, Succeeds 0), (1, Succeeds 0), (0, Succeeds 99), (0, Succeeds 0),
     (1, Succeeds 99), (1, Succeeds 0), (0, Succeeds 0), (1, Succeeds 0)]"

subsection \<open>Saves that do not overlap\<close>

text \<open>
  C17. Saves one after the other. However the system answers and wherever the run stops, as long as no two saves are
  under way together the configuration file is at every moment the text it would be had exactly the
  saves reported as done been made, whole and in that order: a save that fails, or is cut off by a
  crash, leaves no trace in it, and a later start from what is left on the disk is in the same case.
\<close>
theorem saves_in_turn:
  assumes "disk_ok path d" "(save_step True path upds)\<^sup>*\<^sup>* (saves_start d upds) w"
  shows "file_text (sv_disk w) path = apply_saves path upds (sv_committed w) (file_text d path) \<and>
    distinct (sv_committed w) \<and> set (sv_committed w) = {i. i < length upds \<and> sv_phases w ! i = Finished Saved} \<and>
    disk_ok path (sv_disk w)"
  using saves_inv_reachable [OF assms(2,1)] by (simp add: saves_inv_def)

text \<open>The interval is saved; the run stops after the first bytes of the second save.\<close>

definition crash_script :: "(nat \<times> answer) list" where
  "crash_script = full_save 0 @ take 3 (full_save 1)"

definition crash_end :: saves where
  "crash_end = play ''c.json'' two_saves crash_script (saves_start empty_disk two_saves)"

lemma crash_run:
  "(save_step True ''c.json'' two_saves)\<^sup>*\<^sup>* (saves_start empty_disk two_saves) crash_end" "sv_committed crash_end = [0]"
  unfolding crash_end_def by (rule play_alone_run, code_simp) code_simp

theorem saves_in_turn_witness:
  "\<exists>w. (save_step True ''c.json'' two_saves)\<^sup>*\<^sup>* (saves_start empty_disk two_saves) w \<and> sv_committed w = [0] \<and>
     file_text (sv_disk w) ''c.json'' = apply_saves ''c.json'' two_saves [0] None \<and> file_text (sv_disk w) ''c.json.tmp'' \<noteq> None"
proof -
  have d: "disk_ok ''c.json'' empty_disk" by (simp add: disk_ok_def empty_disk_def)
  have tmp: "file_text (sv_disk crash_end) ''c.json.tmp'' \<noteq> None" by code_simp
  have "file_text empty_disk ''c.json'' = None" by code_simp
  then show ?thesis using saves_in_turn [OF d crash_run(1)] crash_run tmp by (intro exI [of _ crash_end]) simp
qed

text \<open>
  C18. Settings survive in the file. After any saves that do not overlap, failing or cut off anywhere, of
  settings that have a JSON form, the file parses, and every key has the value of the last save done
  that sets it, else the value it had (both as \<open>encoding/json\<close> reads them), whatever the text looked like
  that was there before, as long as it was a JSON object.
\<close>
theorem saved_settings_survive:
  assumes "disk_ok path d" "(save_step True path upds)\<^sup>*\<^sup>* (saves_start d upds) w"
    "raw_settings path (file_text d path) = Some kvs" "json_ok max_depth (JObj kvs)" "list_all savable upds"
  shows "\<exists>kvs'. raw_settings path (file_text (sv_disk w) path) = Some kvs' \<and>
    (\<forall>k. obj_get kvs' k = fold (\<lambda>i. set_value (upds ! i) k) (sv_committed w) (obj_get kvs k))"
proof -
  have inv: "saves_inv path upds (file_text d path) w" using saves_inv_reachable [OF assms(2,1)] .
  then have "list_all (\<lambda>i. savable (upds ! i)) (sv_committed w)"
    using assms(5) by (auto simp: saves_inv_def list_all_iff)
  from apply_saves_settings [OF assms(3,4) this] show ?thesis using inv by (auto simp: saves_inv_def)
qed

theorem saved_settings_survive_witness:
  "\<exists>kvs. raw_settings ''c.json'' (file_text (sv_disk (crash_end)) ''c.json'')
     = Some kvs \<and> obj_get kvs ''poll_interval'' = Some (JStr ''1h10m0s'') \<and> obj_get kvs ''rules'' = None"
proof -
  have d: "disk_ok ''c.json'' empty_disk" by (simp add: disk_ok_def empty_disk_def)
  have "raw_settings ''c.json'' (file_text empty_disk ''c.json'') = Some []" by code_simp
  moreover have "json_ok max_depth (JObj [])" by (simp add: json_ok_JObj max_depth_def)
  moreover have "list_all savable two_saves"
    by (simp add: savable_def two_saves_def interval_save_def valid_utf8_def json_ok_JArr max_depth_def)
  ultimately show ?thesis
    using saved_settings_survive [OF d crash_run(1)] crash_run(2) by (auto simp: set_value_def two_saves_def interval_save_def obj_get_Cons)
qed

subsection \<open>Saves that overlap\<close>

text \<open>Nothing in the program keeps two saves apart, and then both promises fail: one update may be lost with both reported as done,\<close>

theorem overlapping_saves_lose_one:
  "\<exists>w. (save_step False ''c.json'' two_saves)\<^sup>*\<^sup>* (saves_start empty_disk two_saves) w \<and>
     sv_phases w = [Finished Saved, Finished Saved] \<and>
     file_text (sv_disk w) ''c.json'' = apply_save ''c.json'' (two_saves ! 1) None"
proof (intro exI conjI)
  show "(save_step False ''c.json'' two_saves)\<^sup>*\<^sup>* (saves_start empty_disk two_saves)
      (play ''c.json'' two_saves lost_script (saves_start empty_disk two_saves))"
    by (rule play_run) code_simp
  show "sv_phases (play ''c.json'' two_saves lost_script (saves_start empty_disk two_saves)) = [Finished Saved, Finished Saved]"
    by code_simp
  show "file_text (sv_disk (play ''c.json'' two_saves lost_script (saves_start empty_disk two_saves))) ''c.json'' =
      apply_save ''c.json'' (two_saves ! 1) None"
    by code_simp
qed

text \<open>and the file itself may be left a mixture of both texts, which no later start of the agent can read.\<close>

theorem overlapping_saves_corrupt_the_file:
  "\<exists>w. (save_step False ''c.json'' two_intervals)\<^sup>*\<^sup>* (saves_start empty_disk two_intervals) w \<and>
     sv_phases w ! 0 = Finished Saved \<and> load_file None (abs_fs (sv_disk w)) ''c.json'' =
       Inl ''parsing JSON: invalid character''"
proof (intro exI conjI)
  show "(save_step False ''c.json'' two_intervals)\<^sup>*\<^sup>* (saves_start empty_disk two_intervals)
      (play ''c.json'' two_intervals torn_script (saves_start empty_disk two_intervals))"
    by (rule play_run) code_simp
  show "sv_phases (play ''c.json'' two_intervals torn_script (saves_start empty_disk two_intervals)) ! 0 = Finished Saved"
    by code_simp
  show "load_file None (abs_fs (sv_disk (play ''c.json'' two_intervals torn_script (saves_start empty_disk two_intervals)))) ''c.json'' =
      Inl ''parsing JSON: invalid character''"
    by code_simp
qed

end
