(* ===== verification/Spec2Isabelle.thy ===== *)
theory Spec2Isabelle
  imports Alert_Claims Rule_Json Store_Memory Widget Config_Claims Api_Claims Stream_Hub Collector_Loop
    Proc_Claims Service_Claims Reader_Claims Pairing Security_Claims Mosh_Claims Agent_Claims
    Store_Sqlite Sample_Claims Agent_Shutdown Agent_Alerts Stream_Text Config_Saves
begin

text \<open>
  Verification development for gateshell-go, the self-hosted agent of GateShell: a Go program that
  samples a host, keeps the samples, serves them over an HTTP API guarded by a pairing token, raises
  alerts and sends them through a push relay, assesses the host's security, and bridges Mosh sessions.
  Source paths below are relative to src/.

  \<^bold>\<open>How the program is put together.\<close> The command \<open>serve\<close> (cmd/gateshell-agent/main.go) loads the configuration
  (internal/config), opens a store (internal/store), and starts two goroutines. The collector
  (internal/collector) gathers a sample at each poll and hands it to its sinks in order: the store, the
  live stream, the alert evaluator (internal/alerts), the widget notifier (internal/pushrelay). The HTTP
  server (internal/api) reads the store, changes the poll interval and the rules, and writes both back
  to the configuration file; alerts and widget updates leave through the relay client, whose devices are
  kept by the token store. mobile/moshbridge is the library the app uses to talk to \<open>mosh-server\<close>.

  \<^bold>\<open>The library under the components.\<close>
  \<^item> \<open>Go_Base\<close>, \<open>Go_Strings\<close>, \<open>Go_Strconv\<close>, \<open>Go_Digits\<close>, \<open>Go_Utf8\<close>: integers at 64 bits with their wrap-around,
    byte strings, number parsing and printing, fixed-width digits, UTF-8 as json.Marshal repairs it.
  \<^item> \<open>Go_Float\<close>, \<open>Float_Bounds\<close>: float64 as exact rationals with IEEE rounding written out, infinities and
    NaN; magnitude bounds under which arithmetic stays finite. The sign of zero is not kept.
  \<^item> \<open>Go_Time\<close>, \<open>Go_Duration\<close>, \<open>Go_Rfc3339\<close>: times, durations, their texts, and that reading undoes writing.
  \<^item> \<open>Go_Json\<close>, \<open>Go_Json_Map\<close>, \<open>Go_Os\<close>: JSON trees and encoding/json's decoding rules; files whose
    operations may fail.
  \<^item> \<open>Go_Ftoa\<close>, \<open>Go_Json_Text\<close>: the text of JSON, byte for byte: shortest digits of a float, string
    escapes, Marshal and MarshalIndent, a lexer and a stack machine with the decoder's depth limit, and that
    reading undoes writing up to what a decoder can tell.

  \<^bold>\<open>Components and their theories.\<close>
  \<^item> internal/collector: \<open>Collector_Types\<close> (Sample and its parts), \<open>Proc_Parsers\<close> with \<open>Proc_Claims\<close> (/proc),
    \<open>Service_Checkers\<close> with \<open>Service_Claims\<close> (docker, systemd, pm2, cron), \<open>Readers\<close> with \<open>Reader_Claims\<close> (the
    readers, gather and tick), \<open>Collector_Loop\<close> (Run and SetInterval interleaved), \<open>Sample_Json\<close> with
    \<open>Sample_Claims\<close> (a sample's JSON form, and that a gathered sample arrives).
  \<^item> internal/alerts: \<open>Alerts\<close> (rules, their JSON, Evaluate), \<open>Rule_Json\<close>, \<open>Alert_Episodes\<close> (what one rule sees of a
    run), \<open>Alert_Claims\<close>.
  \<^item> internal/store: \<open>Store_Memory\<close> (the interface as the locale \<open>sample_store\<close>, and MemoryStore), \<open>Store_Sqlite\<close>
    (SQLiteStore over a driver).
  \<^item> internal/pushrelay: \<open>Push_Tokens\<close>, \<open>Push_Relay\<close> (client and publisher), \<open>Widget\<close>.
  \<^item> internal/config: \<open>Config\<close>, \<open>Config_Claims\<close>, \<open>Config_Saves\<close> (saveConfigFields call by call, on inodes and
    bytes, several saves interleaved, cut off anywhere; a lone save refines the function of \<open>Config\<close>).
  \<^item> internal/api: \<open>Api\<close>, \<open>Api_Claims\<close> (handlers, token, validation), \<open>Stream_Hub\<close> (live stream interleaved),
    \<open>Stream_Text\<close> (the bytes of the stream and a reader of them).
  \<^item> internal/pair: \<open>Pairing\<close>. internal/securityaudit: \<open>Security_Audit\<close>, \<open>Security_Claims\<close>.
  \<^item> mobile/moshbridge: \<open>Mosh_Bridge\<close>, \<open>Mosh_Claims\<close>.
  \<^item> cmd/gateshell-agent: \<open>Agent_Main\<close> (flags, wiring, commands), \<open>Agent_Claims\<close> (runs of the whole agent),
    \<open>Agent_Alerts\<close> (from a polled sample to the phones), \<open>Agent_Shutdown\<close> (the goroutines of serve and its end).

  \<^bold>\<open>How state and operations correspond.\<close> A struct is a record with a prefix per type, a method a function on it
  that returns the new record; an error is an \<open>Inl\<close> or \<open>Some\<close> with the code's text. Calls outside the
  repository are arguments: the network maps requests to outcomes, the host's files, tools and clock are
  fields of \<open>machine\<close>, \<open>host\<close> and \<open>audit_env\<close>, the SQL engine a driver record. Where goroutines interleave
  the model is a step relation with one rule per critical section: \<open>poll_step\<close>, \<open>hub_step\<close>, \<open>notify_step\<close>,
  \<open>token_step\<close>, \<open>go_step\<close> with \<open>outside_step\<close>, and \<open>save_step\<close> with one rule per system call. Elsewhere a handler or a poll is one step of the agent.

  \<^bold>\<open>Interfaces.\<close> \<open>sample_store\<close> (Store), \<open>device_registry\<close> (what the publisher needs of the token store), \<open>agent_deps\<close>
  (what the handlers need of their collaborators), \<open>deps_invariant\<close> (what every step of the agent keeps) and
  \<open>ranking\<close> (what sort.Slice needs of its order) are locales, interpreted on the model's own definitions.

  \<^bold>\<open>What is shown.\<close>
  \<^item> Access: nothing without the token, up to the whole agent's state; a generated token opens the API.
  \<^item> Alerts: debounce, no missed alert, episodes of breach, repeats and recovery, service transitions; and
    through the whole agent, a breach that lasts is sent to every device that stays registered.
  \<^item> History: both stores against lists of samples; a gathered sample is finite, encodes, arrives at the
    client unchanged and comes back from the database; a broken file costs only its own figures. On the live
    stream the bytes received so far always read as the samples sent, in order.
  \<^item> Settings: layering, validation, durable saves, what survives a restart; the bytes of the file after any
    failure or crash, as long as saves do not overlap, and what goes wrong when they do.
  \<^item> Push: every device reached, credentials only over https, registrations unique and durable, spacing.
  \<^item> Concurrency: interval changes are never lost, the stream is in order, serve terminates once signalled
    (a measure on its goroutines; \<open>4 k + 16\<close> steps for \<open>k\<close> pending interval changes).
  \<^item> Parsers: hostile process names, memory tables, crontabs, session keys, rules and durations read back.
  Theorems that show a defect (named in the findings of the manifest) stand beside the claims they limit.

  \<^bold>\<open>Bounds.\<close> No definition needs fuel: every loop is a recursion with a termination proof. Times are unbounded
  integers of nanoseconds; where Go's 64 bits matter the operation wraps or saturates as the library does,
  and \<open>go_time\<close>, \<open>go_sample\<close>, \<open>representable\<close> say when an integer or rational is a value of the Go type.

  \<^bold>\<open>Not modelled.\<close> Request and response bodies and the other files are JSON trees (a nil slice and an empty one
  in a sample are one, and 1.0 is not told from 1; in the text of a tree a float that is an integer from
  \<open>2 ^ 53\<close> to \<open>2 ^ 64\<close> has all its digits where Go writes the shortest ones and zeros, which read as the same float).
  HTTP framing, TLS and sockets, cobra's flag parsing and help texts, log lines, the monotonic clock, the
  security scanner's process runner (a time-out is an error of the command), mosh-go itself and the SQL
  engine: these are libraries the sources call, or output without influence on the state. \<open>sort.Slice\<close> leaves
  ties open and is modelled as the stable sort. install.sh, the systemd unit and the workflows are not Go.
\<close>

end
